(* ===== verification/Prelude.thy ===== *)
theory Prelude
  imports Complex_Main "HOL-Library.Char_ord" "HOL-Library.List_Lexorder"
    "HOL-Library.Product_Lexorder"
begin

text \<open>
  What every component of the development shares: the error values that stand for the
  exceptions of the Python source, the result type and its sequencing, the collections of
  rewrite rules the component proofs use, facts on lexicographically ordered lists (Python
  compares strings by code point, position by position), optional minima and maxima, and the
  contract of a fixed-width positional digit encoding, which the identifier and clock
  components provide for their own alphabets.
\<close>

section \<open>Rule collections\<close>

named_theorems result_simps \<open>sequencing of fallible operations\<close>
named_theorems clock_simps \<open>facts on the hybrid logical clock\<close>
named_theorems merge_simps \<open>facts on the sync merge\<close>
named_theorems sql_simps \<open>evaluation of SQL conditions\<close>

section \<open>Errors as values\<close>

text \<open>
  One constructor per exception class that the modelled code raises or catches. Messages are
  not modelled: no caller in the modelled code looks at them.
\<close>

datatype py_error =
    ValueError
  | TypeError
  | KeyError
  | OverflowError
  | RuntimeError
  | AssertionError
  | SyncError
  | MemoryConflict
  | ClosureObservationLimitError
  | ReceiptChainIntegrityError
  | SecretDetectedError
  | AttributeError

text \<open>What an \<open>except ValueError\<close> clause catches: the class itself and its subclasses.\<close>

definition value_errors :: "py_error set" where
  "value_errors = {ValueError, MemoryConflict, ClosureObservationLimitError, SecretDetectedError}"

type_synonym 'a result = "py_error + 'a"

definition rbind :: "'a result \<Rightarrow> ('a \<Rightarrow> 'b result) \<Rightarrow> 'b result" where
  "rbind m f = (case m of Inl e \<Rightarrow> Inl e | Inr x \<Rightarrow> f x)"

definition rguard :: "bool \<Rightarrow> py_error \<Rightarrow> 'a result \<Rightarrow> 'a result" where
  \<comment> \<open>\<open>if not c: raise e\<close> followed by the rest of the body\<close>
  "rguard c e m = (if c then m else Inl e)"

fun rmap :: "('a \<Rightarrow> 'b result) \<Rightarrow> 'a list \<Rightarrow> 'b list result" where
  \<comment> \<open>a loop that appends \<open>f x\<close> for each \<open>x\<close> and stops at the first exception\<close>
  "rmap f [] = Inr []"
| "rmap f (x # xs) = rbind (f x) (\<lambda>y. rbind (rmap f xs) (\<lambda>ys. Inr (y # ys)))"

fun rfold :: "('a \<Rightarrow> 's \<Rightarrow> 's result) \<Rightarrow> 'a list \<Rightarrow> 's \<Rightarrow> 's result" where
  \<comment> \<open>a loop over a list that threads a state and stops at the first exception\<close>
  "rfold f [] s = Inr s"
| "rfold f (x # xs) s = rbind (f x s) (rfold f xs)"

lemma rbind_simps [simp, result_simps]:
  "rbind (Inl e) f = Inl e" "rbind (Inr x) f = f x"
  by (simp_all add: rbind_def)

lemma rguard_simps [simp, result_simps]:
  "rguard True e m = m" "rguard False e m = Inl e"
  by (simp_all add: rguard_def)

lemma rbind_eq_Inr_conv [result_simps]:
  "rbind m f = Inr y \<longleftrightarrow> (\<exists>x. m = Inr x \<and> f x = Inr y)"
  by (cases m) auto

lemma rguard_eq_Inr_conv [result_simps]:
  "rguard c e m = Inr y \<longleftrightarrow> c \<and> m = Inr y"
  by (simp add: rguard_def)

lemma rbind_assoc: "rbind (rbind m f) g = rbind m (\<lambda>x. rbind (f x) g)"
  by (cases m) auto

lemma rbind_Inr [simp]: "rbind m Inr = m"
  by (cases m) auto

lemma rmap_elems: "rmap f xs = Inr ys \<Longrightarrow> y \<in> set ys \<longleftrightarrow> (\<exists>x \<in> set xs. f x = Inr y)"
  by (induction xs arbitrary: ys) (auto simp: rbind_eq_Inr_conv)

lemma rmap_total: "(\<And>x. \<exists>r. f x = Inr r) \<Longrightarrow> \<exists>ys. rmap f xs = Inr ys"
proof (induction xs)
  case (Cons x xs)
  then obtain r ys where "f x = Inr r" "rmap f xs = Inr ys" by blast
  then show ?case by simp
qed simp

lemma rfold_append [simp]:
  "rfold f (xs @ ys) s = rbind (rfold f xs s) (rfold f ys)"
  by (induction xs arbitrary: s) (auto simp: rbind_def split: sum.splits)

lemma rfold_invariant:
  assumes "rfold f xs s = Inr t" and "P s"
    and "\<And>x u v. x \<in> set xs \<Longrightarrow> P u \<Longrightarrow> f x u = Inr v \<Longrightarrow> P v"
  shows "P t"
  using assms
proof (induction xs arbitrary: s)
  case Nil
  then show ?case by simp
next
  case (Cons x xs)
  from Cons.prems(1) obtain u where u: "f x s = Inr u" and rest: "rfold f xs u = Inr t"
    by (auto simp: rbind_eq_Inr_conv)
  have "P u" using Cons.prems(3) [of x s u] Cons.prems(2) u by simp
  show ?case
  proof (rule Cons.IH [OF rest \<open>P u\<close>])
    show "P w" if "y \<in> set xs" "P v" "f y v = Inr w" for y v w
      using Cons.prems(3) [of y v w] that by simp
  qed
qed

lemma rmap_Inr_conv:
  "rmap f xs = Inr ys \<longleftrightarrow> list_all2 (\<lambda>x y. f x = Inr y) xs ys"
proof (induction xs arbitrary: ys)
  case Nil
  then show ?case by auto
next
  case (Cons x xs)
  then show ?case by (auto simp: rbind_eq_Inr_conv list_all2_Cons1)
qed

section \<open>Optional minima and maxima\<close>

text \<open>
  The two joins the merge of optional timestamps is built from: a missing value is neutral.
\<close>

fun min_opt :: "'a::linorder option \<Rightarrow> 'a option \<Rightarrow> 'a option" where
  "min_opt None b = b"
| "min_opt (Some a) None = Some a"
| "min_opt (Some a) (Some b) = Some (if a \<le> b then a else b)"

fun max_opt :: "'a::linorder option \<Rightarrow> 'a option \<Rightarrow> 'a option" where
  "max_opt None b = b"
| "max_opt (Some a) None = Some a"
| "max_opt (Some a) (Some b) = Some (if a \<ge> b then a else b)"

lemma min_opt_None [simp]: "min_opt a None = a"
  by (cases a) auto

lemma max_opt_None [simp]: "max_opt a None = a"
  by (cases a) auto

lemma min_opt_commute: "min_opt a b = min_opt b a"
  by (cases a; cases b) auto

lemma max_opt_commute: "max_opt a b = max_opt b a"
  by (cases a; cases b) auto

lemma min_opt_assoc: "min_opt (min_opt a b) c = min_opt a (min_opt b c)"
  by (cases a; cases b; cases c) auto

lemma max_opt_assoc: "max_opt (max_opt a b) c = max_opt a (max_opt b c)"
  by (cases a; cases b; cases c) auto

lemma min_opt_idem [simp]: "min_opt a a = a"
  by (cases a) auto

lemma max_opt_idem [simp]: "max_opt a a = a"
  by (cases a) auto

lemma max_opt_eq_None [simp]: "max_opt a b = None \<longleftrightarrow> a = None \<and> b = None"
  by (cases a; cases b) auto

lemma min_opt_eq_None [simp]: "min_opt a b = None \<longleftrightarrow> a = None \<and> b = None"
  by (cases a; cases b) auto

section \<open>Lexicographic order\<close>

lemma lex_append_less:
  fixes xs ys us vs :: "'a::linorder list"
  assumes "length xs = length ys"
  shows "xs @ us < ys @ vs \<longleftrightarrow> xs < ys \<or> (xs = ys \<and> us < vs)"
  using assms by (induction xs ys rule: list_induct2) auto

lemma lex_snoc_less:
  fixes xs ys :: "'a::linorder list"
  assumes "length xs = length ys"
  shows "xs @ [a] < ys @ [b] \<longleftrightarrow> xs < ys \<or> (xs = ys \<and> a < b)"
  using lex_append_less [OF assms, of "[a]" "[b]"] by simp

lemma split_at: "xs = take a xs @ take b (drop a xs) @ drop (a + b) xs"
  by (metis append_take_drop_id drop_drop add.commute)

lemma sorted_wrt_less_nth_iff:
  fixes xs :: "'a::linorder list"
  assumes "sorted_wrt (<) xs" "i < length xs" "j < length xs"
  shows "xs ! i < xs ! j \<longleftrightarrow> i < j"
proof
  assume less: "xs ! i < xs ! j"
  show "i < j"
  proof (rule ccontr)
    assume "\<not> i < j"
    then have "j = i \<or> j < i" by auto
    then show False
      using less sorted_wrt_nth_less [OF assms(1), of j i] assms(2) by auto
  qed
next
  assume "i < j"
  then show "xs ! i < xs ! j" using sorted_wrt_nth_less [OF assms(1)] assms(3) by blast
qed

lemma sorted_wrt_less_nth_eq_iff:
  fixes xs :: "'a::linorder list"
  assumes "sorted_wrt (<) xs" "i < length xs" "j < length xs"
  shows "xs ! i = xs ! j \<longleftrightarrow> i = j"
  using sorted_wrt_less_nth_iff [OF assms] sorted_wrt_less_nth_iff [OF assms(1,3,2)]
  by (metis less_irrefl linorder_neqE_nat)

section \<open>Fixed-width digit encodings\<close>

text \<open>
  The position of a character in an alphabet, and the number a digit string denotes in the
  base given by the alphabet's length (\<open>int(s, 16)\<close> for the hexadecimal alphabet).
\<close>

fun digit_index :: "char list \<Rightarrow> char \<Rightarrow> nat" where
  "digit_index [] c = 0"
| "digit_index (d # ds) c = (if d = c then 0 else Suc (digit_index ds c))"

definition digits_value :: "char list \<Rightarrow> string \<Rightarrow> nat" where
  "digits_value ds s = foldl (\<lambda>acc c. acc * length ds + digit_index ds c) 0 s"

lemma digit_index_nth:
  "distinct ds \<Longrightarrow> i < length ds \<Longrightarrow> digit_index ds (ds ! i) = i"
  by (induction ds arbitrary: i) (auto simp: nth_Cons split: nat.splits)

lemma nth_digit_index: "c \<in> set ds \<Longrightarrow> ds ! digit_index ds c = c"
  by (induction ds) auto

lemma digit_index_less: "c \<in> set ds \<Longrightarrow> digit_index ds c < length ds"
  by (induction ds) auto

lemma digits_value_snoc [simp]:
  "digits_value ds (s @ [c]) = digits_value ds s * length ds + digit_index ds c"
  by (simp add: digits_value_def)

lemma digits_value_Nil [simp]: "digits_value ds [] = 0"
  by (simp add: digits_value_def)

lemma digits_value_bound:
  "set s \<subseteq> set ds \<Longrightarrow> digits_value ds s < length ds ^ length s"
proof (induction s rule: rev_induct)
  case Nil
  then show ?case by simp
next
  case (snoc c s)
  let ?b = "length ds"
  have IH: "digits_value ds s < ?b ^ length s" and "digit_index ds c < ?b"
    using snoc by (auto intro: digit_index_less)
  then have "digits_value ds s * ?b + digit_index ds c < (digits_value ds s + 1) * ?b"
    by simp
  also have "\<dots> \<le> ?b ^ length s * ?b"
    using IH by (intro mult_right_mono) auto
  finally show ?case by (simp add: mult.commute)
qed

text \<open>
  The contract of a fixed-width encoder: the least significant digit comes last and the
  alphabet is listed in increasing character order. Everything the identifiers and clocks
  need follows from it: fixed length, decodability, and agreement of the string order with
  the numeric order.
\<close>

locale digit_codec =
  fixes digits :: "char list" and enc :: "nat \<Rightarrow> nat \<Rightarrow> string"
  assumes digits_asc: "sorted_wrt (<) digits"
    and digits_many: "2 \<le> length digits"
    and enc_0: "enc 0 v = []"
    and enc_Suc: "enc (Suc k) v = enc k (v div length digits) @ [digits ! (v mod length digits)]"
begin

lemma base_pos: "0 < length digits"
  using digits_many by (cases digits) auto

lemma digits_distinct: "distinct digits"
  using digits_asc by (simp add: strict_sorted_iff)

lemma length_enc: "length (enc k v) = k"
  by (induction k arbitrary: v) (auto simp: enc_0 enc_Suc)

lemma set_enc: "set (enc k v) \<subseteq> set digits"
proof (induction k arbitrary: v)
  case 0
  then show ?case by (simp add: enc_0)
next
  case (Suc k)
  have "digits ! (v mod length digits) \<in> set digits"
    using base_pos by simp
  with Suc show ?case by (simp add: enc_Suc)
qed

lemma dec_enc: "v < length digits ^ k \<Longrightarrow> digits_value digits (enc k v) = v"
proof (induction k arbitrary: v)
  case 0
  then show ?case by (simp add: enc_0)
next
  case (Suc k)
  then have "v div length digits < length digits ^ k"
    by (simp add: less_mult_imp_div_less mult.commute)
  with Suc.IH have "digits_value digits (enc k (v div length digits)) = v div length digits"
    by simp
  then show ?case
    using base_pos by (simp add: enc_Suc digit_index_nth digits_distinct)
qed

lemma enc_dec: "set s \<subseteq> set digits \<Longrightarrow> enc (length s) (digits_value digits s) = s"
proof (induction s rule: rev_induct)
  case Nil
  then show ?case by (simp add: enc_0)
next
  case (snoc c s)
  have i: "digit_index digits c < length digits"
    using snoc.prems by (simp add: digit_index_less)
  show ?case
    using snoc i base_pos by (simp add: enc_Suc nth_digit_index)
qed

lemma enc_less_iff:
  assumes "v < length digits ^ k" "w < length digits ^ k"
  shows "enc k v < enc k w \<longleftrightarrow> v < w"
  using assms
proof (induction k arbitrary: v w)
  case 0
  then show ?case by (simp add: enc_0)
next
  case (Suc k)
  let ?b = "length digits"
  have q: "v div ?b < ?b ^ k" "w div ?b < ?b ^ k"
    using Suc.prems by (simp_all add: less_mult_imp_div_less mult.commute)
  have eq: "enc k (v div ?b) = enc k (w div ?b) \<longleftrightarrow> v div ?b = w div ?b"
    using dec_enc [OF q(1)] dec_enc [OF q(2)] by metis
  have "enc (Suc k) v < enc (Suc k) w \<longleftrightarrow>
      v div ?b < w div ?b \<or> (v div ?b = w div ?b \<and> v mod ?b < w mod ?b)"
    using base_pos
    by (simp add: enc_Suc lex_snoc_less length_enc Suc.IH [OF q] eq
        sorted_wrt_less_nth_iff [OF digits_asc])
  also have "\<dots> \<longleftrightarrow> v < w"
  proof -
    have "v = v div ?b * ?b + v mod ?b" "w = w div ?b * ?b + w mod ?b" by simp_all
    then show ?thesis
      by (metis add_less_cancel_left div_le_mono le_neq_implies_less less_imp_le_nat
          linorder_not_less not_less_iff_gr_or_eq)
  qed
  finally show ?case .
qed

lemma enc_eq_iff:
  assumes "v < length digits ^ k" "w < length digits ^ k"
  shows "enc k v = enc k w \<longleftrightarrow> v = w"
  using dec_enc [OF assms(1)] dec_enc [OF assms(2)] by metis

end

section \<open>Merging that does not depend on the order of delivery\<close>

text \<open>
  The contract of a convergent merge: an operation under which a replica may apply the updates
  of its peers in any order and any number of times. A carrier predicate restricts the laws to
  the values a store can hold.
\<close>

locale convergent_merge =
  fixes ok :: "'a \<Rightarrow> bool" and join :: "'a \<Rightarrow> 'a \<Rightarrow> 'a"
  assumes join_ok: "ok a \<Longrightarrow> ok b \<Longrightarrow> ok (join a b)"
    and join_commute: "ok a \<Longrightarrow> ok b \<Longrightarrow> join a b = join b a"
    and join_assoc: "ok a \<Longrightarrow> ok b \<Longrightarrow> ok c \<Longrightarrow> join (join a b) c = join a (join b c)"
    and join_idem: "ok a \<Longrightarrow> join a a = a"
begin

definition receive :: "'a \<Rightarrow> 'a list \<Rightarrow> 'a" where
  "receive a xs = foldl join a xs"

lemma receive_ok: "ok a \<Longrightarrow> \<forall>x \<in> set xs. ok x \<Longrightarrow> ok (receive a xs)"
  by (induction xs arbitrary: a) (auto simp: receive_def join_ok)

lemma receive_pull:
  "ok a \<Longrightarrow> ok x \<Longrightarrow> \<forall>y \<in> set xs. ok y \<Longrightarrow> receive (join a x) xs = join (receive a xs) x"
proof (induction xs arbitrary: a)
  case Nil
  then show ?case by (simp add: receive_def)
next
  case (Cons y xs)
  have "join (join a x) y = join (join a y) x"
    using Cons.prems join_assoc join_commute [of x y] by simp
  then show ?case
    using Cons.IH [of "join a y"] Cons.prems by (simp add: receive_def join_ok)
qed

lemma receive_absorbs:
  "ok a \<Longrightarrow> \<forall>y \<in> set xs. ok y \<Longrightarrow> x \<in> set xs \<Longrightarrow> join (receive a xs) x = receive a xs"
proof (induction xs arbitrary: a)
  case Nil
  then show ?case by simp
next
  case (Cons y xs)
  have eq: "receive a (y # xs) = join (receive a xs) y"
    using receive_pull [of a y xs] Cons.prems by (simp add: receive_def)
  have ok: "ok (receive a xs)" using receive_ok Cons.prems by simp
  show ?case
  proof (cases "x = y")
    case True
    then show ?thesis using eq ok Cons.prems join_assoc join_idem by simp
  next
    case False
    then have x: "x \<in> set xs" "ok x" "ok y" and IH: "join (receive a xs) x = receive a xs"
      using Cons by auto
    have "join (join (receive a xs) y) x = join (join (receive a xs) x) y"
      using ok x join_assoc [of _ y x] join_assoc [of _ x y] join_commute [of x y] by simp
    then show ?thesis using eq IH by simp
  qed
qed

text \<open>A redelivery of something already received changes nothing.\<close>

lemma receive_duplicate:
  "ok a \<Longrightarrow> \<forall>y \<in> set xs. ok y \<Longrightarrow> x \<in> set xs \<Longrightarrow> receive a (xs @ [x]) = receive a xs"
  using receive_absorbs by (simp add: receive_def)

lemma receive_remove:
  assumes "ok a" "\<forall>y \<in> set xs. ok y" "x \<in> set xs"
  shows "receive a xs = join (receive a (removeAll x xs)) x"
  using assms
proof (induction xs arbitrary: a)
  case Nil
  then show ?case by simp
next
  case (Cons y xs)
  have okr: "\<forall>z \<in> set (removeAll x xs). ok z" using Cons.prems by simp
  show ?case
  proof (cases "x = y")
    case True
    have eq: "receive a (y # xs) = join (receive a xs) y"
      using receive_pull [of a y xs] Cons.prems by (simp add: receive_def)
    show ?thesis
    proof (cases "x \<in> set xs")
      case True
      then have "receive a xs = join (receive a (removeAll x xs)) x"
        using Cons by simp
      moreover have "ok (receive a (removeAll x xs))"
        using receive_ok [OF _ okr] Cons.prems by simp
      ultimately show ?thesis
        using eq \<open>x = y\<close> Cons.prems join_assoc join_idem by simp
    next
      case False
      then show ?thesis using eq \<open>x = y\<close> by simp
    qed
  next
    case False
    then have "receive (join a y) xs = join (receive (join a y) (removeAll x xs)) x"
      using Cons.IH [of "join a y"] Cons.prems join_ok by simp
    then show ?thesis using False by (simp add: receive_def)
  qed
qed

text \<open>Which of its updates a replica starts from makes no difference.\<close>

lemma receive_member:
  assumes "\<forall>z \<in> set xs. ok z" "x \<in> set xs" "y \<in> set xs"
  shows "receive x xs = receive y xs"
proof -
  have "receive u xs = receive (join u v) xs" if "u \<in> set xs" "v \<in> set xs" for u v
    using receive_pull [of u v xs] receive_absorbs [of u xs v] assms(1) that by simp
  then show ?thesis using assms join_commute [of x y] by metis
qed

text \<open>Two replicas that start alike and have received the same updates agree.\<close>

lemma receive_converges:
  assumes "ok a" "\<forall>x \<in> set xs. ok x" "set xs = set ys"
  shows "receive a xs = receive a ys"
  using assms
proof (induction "card (set xs)" arbitrary: xs ys)
  case 0
  then show ?case by simp
next
  case (Suc n)
  then obtain x where x: "x \<in> set xs" by fastforce
  have "card (set (removeAll x xs)) = n"
    using Suc.hyps(2) x by simp
  then have "receive a (removeAll x xs) = receive a (removeAll x ys)"
    using Suc.hyps(1) [of "removeAll x xs" "removeAll x ys"] Suc.prems by simp
  then show ?case
    using receive_remove [of a xs x] receive_remove [of a ys x] Suc.prems x by simp
qed

end

end
