(* ===== verification/PyValue.thy ===== *)
theory PyValue
  imports Prelude
begin

text \<open>
  The Python values the modelled code inspects at its trust boundaries (decoded JSON), the
  coercions of the standard library it applies to them, and the small sanitising helpers of
  \<^verbatim>\<open>engraphis/core/sync.py\<close> and \<^verbatim>\<open>engraphis/core/interfaces.py\<close> built on them.

  A Python float is a finite value or one of the three non-finite ones. A finite float is
  read as the real number it denotes, so comparisons, minima and maxima are exact; the few
  arithmetic operations of the modelled code are the operations on reals, that is, rounding
  is not modelled. A Python string is a list of characters, which covers code points up to
  255. A dictionary is an association list in insertion order with distinct keys.
\<close>

section \<open>Values\<close>

datatype pyfloat = Fin real | PosInf | NegInf | NaN

datatype json =
    JNull
  | JBool bool
  | JInt int
  | JFloat pyfloat
  | JStr string
  | JList "json list"
  | JObj "(string \<times> json) list"

type_synonym obj = "(string \<times> json) list"

text \<open>
  \<open>d.get(k)\<close> with the default \<open>None\<close>, \<open>k in d\<close>, \<open>d[k] = v\<close> and \<open>d.pop(k, None)\<close>. An
  update of an existing key keeps its position, as in Python.
\<close>

definition jget :: "obj \<Rightarrow> string \<Rightarrow> json" where
  "jget d k = (case map_of d k of None \<Rightarrow> JNull | Some v \<Rightarrow> v)"

definition jhas :: "obj \<Rightarrow> string \<Rightarrow> bool" where
  "jhas d k = (map_of d k \<noteq> None)"

fun jset :: "string \<Rightarrow> json \<Rightarrow> obj \<Rightarrow> obj" where
  "jset k v [] = [(k, v)]"
| "jset k v ((k', v') # d) = (if k' = k then (k, v) # d else (k', v') # jset k v d)"

definition jpop :: "string \<Rightarrow> obj \<Rightarrow> obj" where
  "jpop k d = filter (\<lambda>(k', _). k' \<noteq> k) d"

definition jpops :: "string list \<Rightarrow> obj \<Rightarrow> obj" where
  "jpops ks d = foldr jpop ks d"

definition jupdate :: "obj \<Rightarrow> obj \<Rightarrow> obj" where
  \<comment> \<open>\<open>d.update(e)\<close>\<close>
  "jupdate e d = foldl (\<lambda>d (k, v). jset k v d) d e"

fun is_obj :: "json \<Rightarrow> bool" where
  "is_obj (JObj _) = True" | "is_obj _ = False"

fun is_str :: "json \<Rightarrow> bool" where
  "is_str (JStr _) = True" | "is_str _ = False"

fun is_bool :: "json \<Rightarrow> bool" where
  "is_bool (JBool _) = True" | "is_bool _ = False"

fun as_obj :: "json \<Rightarrow> obj" where
  "as_obj (JObj d) = d" | "as_obj _ = []"

lemma map_of_jset: "map_of (jset k v d) = (map_of d)(k \<mapsto> v)"
  by (induction k v d rule: jset.induct) auto

lemma jget_jset: "jget (jset k v d) k' = (if k' = k then v else jget d k')"
  by (simp add: jget_def map_of_jset)

lemma jhas_jset: "jhas (jset k v d) k' \<longleftrightarrow> k' = k \<or> jhas d k'"
  by (simp add: jhas_def map_of_jset)

lemma map_of_jpop: "map_of (jpop k d) = (map_of d)(k := None)"
  by (induction d) (auto simp: jpop_def)

lemma jget_jpop: "jget (jpop k d) k' = (if k' = k then JNull else jget d k')"
  by (simp add: jget_def map_of_jpop)

lemma map_of_jpops: "map_of (jpops ks d) = (map_of d) |` (- set ks)"
  by (induction ks) (auto simp: jpops_def map_of_jpop restrict_map_def)

lemma jget_jpops: "jget (jpops ks d) k = (if k \<in> set ks then JNull else jget d k)"
  by (simp add: jget_def map_of_jpops restrict_map_def)

lemma jhas_jpops: "jhas (jpops ks d) k \<longleftrightarrow> k \<notin> set ks \<and> jhas d k"
  by (simp add: jhas_def map_of_jpops restrict_map_def)

lemma map_of_jupdate: "map_of (jupdate e d) = map_of d ++ map_of (rev e)"
proof (induction e arbitrary: d)
  case Nil
  then show ?case by (simp add: jupdate_def)
next
  case (Cons kv e)
  obtain k v where kv: "kv = (k, v)" by (cases kv)
  have "jupdate ((k, v) # e) d = jupdate e (jset k v d)"
    by (simp add: jupdate_def)
  then show ?case
    using Cons.IH kv by (auto simp: map_of_jset map_add_def fun_eq_iff split: option.splits)
qed

lemma jget_jupdate:
  "jget (jupdate e d) k = (case map_of (rev e) k of None \<Rightarrow> jget d k | Some v \<Rightarrow> v)"
  by (simp add: jget_def map_of_jupdate map_add_def split: option.splits)

section \<open>The standard library the code relies on\<close>

text \<open>
  What the code takes from Python's library and treats as opaque is gathered in one record,
  an argument of the definitions that use it: the wall clock, \<open>float(s)\<close> and \<open>int(s)\<close> on
  strings, \<open>str(v)\<close> on non-strings, the length of a serialised object, its serialisation with
  sorted keys (\<open>json.dumps(v, sort_keys=True, default=str)\<close>, and the same with \<open>ensure_ascii=False\<close>), and SHA-256 of a
  string and of a canonically serialised value.
\<close>

record pylib =
  lib_now :: real
  lib_float_of_str :: "string \<Rightarrow> pyfloat option"
  lib_int_of_str :: "string \<Rightarrow> int option"
  lib_str :: "json \<Rightarrow> string"
  lib_dump_len :: "obj \<Rightarrow> nat"
  lib_dumps :: "json \<Rightarrow> string"
  lib_render :: "json \<Rightarrow> string"
  lib_sha256 :: "string \<Rightarrow> string"
  lib_stable_hash :: "json \<Rightarrow> string"

text \<open>A concrete library for examples.\<close>

definition content_lib :: pylib where
  \<comment> \<open>a library whose hash of a label is the content it contains\<close>
  "content_lib = \<lparr>lib_now = 0, lib_float_of_str = (\<lambda>_. None), lib_int_of_str = (\<lambda>_. None),
     lib_str = (\<lambda>_. []), lib_dump_len = length, lib_dumps = (\<lambda>_. []), lib_render = (\<lambda>_. []), lib_sha256 = (\<lambda>s. s),
     lib_stable_hash = (\<lambda>v. case v of JList (_ # JStr c # _) \<Rightarrow> c | _ \<Rightarrow> [])\<rparr>"

definition max_float :: int where
  \<comment> \<open>integers of at least this magnitude make \<open>float(i)\<close> raise OverflowError\<close>
  "max_float = 2 ^ 1024 - 2 ^ 970"

fun py_float :: "pylib \<Rightarrow> json \<Rightarrow> pyfloat result" where
  "py_float L (JBool b) = Inr (Fin (if b then 1 else 0))"
| "py_float L (JInt i) = (if \<bar>i\<bar> < max_float then Inr (Fin (real_of_int i)) else Inl OverflowError)"
| "py_float L (JFloat x) = Inr x"
| "py_float L (JStr s) = (case lib_float_of_str L s of None \<Rightarrow> Inl ValueError | Some x \<Rightarrow> Inr x)"
| "py_float L _ = Inl TypeError"

fun py_int :: "pylib \<Rightarrow> json \<Rightarrow> int result" where
  "py_int L (JBool b) = Inr (if b then 1 else 0)"
| "py_int L (JInt i) = Inr i"
| "py_int L (JFloat (Fin x)) = Inr (if x < 0 then \<lceil>x\<rceil> else \<lfloor>x\<rfloor>)"
| "py_int L (JFloat NaN) = Inl ValueError"
| "py_int L (JFloat _) = Inl OverflowError"
| "py_int L (JStr s) = (case lib_int_of_str L s of None \<Rightarrow> Inl ValueError | Some i \<Rightarrow> Inr i)"
| "py_int L _ = Inl TypeError"

fun py_truthy :: "json \<Rightarrow> bool" where
  "py_truthy JNull = False"
| "py_truthy (JBool b) = b"
| "py_truthy (JInt i) = (i \<noteq> 0)"
| "py_truthy (JFloat (Fin x)) = (x \<noteq> 0)"
| "py_truthy (JFloat _) = True"
| "py_truthy (JStr s) = (s \<noteq> [])"
| "py_truthy (JList xs) = (xs \<noteq> [])"
| "py_truthy (JObj d) = (d \<noteq> [])"

definition str_or_empty :: "pylib \<Rightarrow> json \<Rightarrow> string" where
  \<comment> \<open>\<open>str(value or "")\<close>\<close>
  "str_or_empty L v =
     (if py_truthy v then (case v of JStr s \<Rightarrow> s | _ \<Rightarrow> lib_str L v) else [])"

text \<open>
  The operator \<open>==\<close>: numbers compare by value across \<open>bool\<close>, \<open>int\<close> and \<open>float\<close>, not-a-number
  differs from itself, and dictionaries compare without regard to the order of their keys.
\<close>

fun py_number :: "json \<Rightarrow> pyfloat option" where
  "py_number (JBool b) = Some (Fin (if b then 1 else 0))"
| "py_number (JInt i) = Some (Fin (real_of_int i))"
| "py_number (JFloat x) = Some x"
| "py_number _ = None"

function (sequential) py_eq :: "json \<Rightarrow> json \<Rightarrow> bool" where
  "py_eq JNull JNull = True"
| "py_eq (JStr s) (JStr t) = (s = t)"
| "py_eq (JList xs) (JList ys) = (length xs = length ys \<and> list_all (\<lambda>(x, y). py_eq x y) (zip xs ys))"
| "py_eq (JObj d) (JObj e) =
     (length d = length e \<and>
      list_all (\<lambda>(k, v). case map_of e k of None \<Rightarrow> False | Some w \<Rightarrow> py_eq v w) d)"
| "py_eq v w =
     (case (py_number v, py_number w) of (Some x, Some y) \<Rightarrow> x \<noteq> NaN \<and> x = y | _ \<Rightarrow> False)"
  by pat_completeness auto
termination
proof (relation "measure (size \<circ> fst)")
  show "wf (measure (size \<circ> (fst :: json \<times> json \<Rightarrow> json)))" by simp
  fix xs ys and z :: "json \<times> json" and x y
  assume "z \<in> set (zip xs ys)" "(x, y) = z"
  then have "x \<in> set xs" by (auto dest: set_zip_leftD)
  then show "((x, y), JList xs, JList ys) \<in> measure (size \<circ> fst)"
    using size_list_estimation' [of x xs "size x" size] by fastforce
next
  fix d :: obj and e and z :: "string \<times> json" and k v w
  assume z: "z \<in> set d" "(k, v) = z"
  have "size v \<le> size_prod (\<lambda>_. 0) size z" using z(2) by auto
  also have "\<dots> \<le> size_list (size_prod (\<lambda>_. 0) size) d" by (rule size_list_estimation' [OF z(1)]) simp
  finally show "((v, w), JObj d, JObj e) \<in> measure (size \<circ> fst)" by simp
qed

section \<open>Finite numbers and timestamps\<close>

fun finite_value :: "pyfloat \<Rightarrow> real option" where
  "finite_value (Fin x) = Some x" | "finite_value _ = None"

text \<open>\<open>_finite_timestamp\<close> of \<^verbatim>\<open>core/interfaces.py\<close>.\<close>

definition finite_timestamp :: "pylib \<Rightarrow> json \<Rightarrow> real option result" where
  "finite_timestamp L v =
     (if v = JNull then Inr None
      else if is_bool v then Inl ValueError
      else case py_float L v of
             Inl _ \<Rightarrow> Inl ValueError
           | Inr x \<Rightarrow> (case finite_value x of None \<Rightarrow> Inl ValueError | Some t \<Rightarrow> Inr (Some t)))"

text \<open>\<open>_as_float\<close>, \<open>_as_int\<close>, \<open>_clamp_num\<close>, \<open>_clamp_ts\<close> and \<open>_clamp_world_ts\<close> of \<^verbatim>\<open>core/sync.py\<close>.\<close>

definition as_float :: "pylib \<Rightarrow> json \<Rightarrow> real option \<Rightarrow> real option" where
  "as_float L v dflt =
     (case py_float L v of
        Inl _ \<Rightarrow> dflt
      | Inr x \<Rightarrow> (case finite_value x of Some f \<Rightarrow> Some f | None \<Rightarrow> dflt))"

definition as_int :: "pylib \<Rightarrow> json \<Rightarrow> int \<Rightarrow> int" where
  "as_int L v dflt = (case py_int L v of Inl _ \<Rightarrow> dflt | Inr i \<Rightarrow> i)"

definition clamp_num :: "pylib \<Rightarrow> json \<Rightarrow> real \<Rightarrow> real \<Rightarrow> real \<Rightarrow> real" where
  "clamp_num L v lo hi dflt =
     (case as_float L v (Some dflt) of None \<Rightarrow> dflt | Some f \<Rightarrow> max lo (min hi f))"

definition TS_FUTURE_SKEW :: real where
  "TS_FUTURE_SKEW = 2 * 86400"

definition WORLD_TS_MAX :: real where
  "WORLD_TS_MAX = 4102444800"

definition clamp_ts :: "pylib \<Rightarrow> json \<Rightarrow> real \<Rightarrow> real option" where
  "clamp_ts L v now =
     (case as_float L v None of
        None \<Rightarrow> None
      | Some f \<Rightarrow> if f > now + TS_FUTURE_SKEW then None else Some (max 0 f))"

definition clamp_world_ts :: "pylib \<Rightarrow> json \<Rightarrow> real option" where
  "clamp_world_ts L v =
     (case as_float L v None of
        None \<Rightarrow> None
      | Some f \<Rightarrow> Some (max 0 (min f WORLD_TS_MAX)))"

lemma clamp_num_bounds: "lo \<le> hi \<Longrightarrow> lo \<le> clamp_num L v lo hi d \<and> clamp_num L v lo hi d \<le> hi \<or>
    clamp_num L v lo hi d = d"
  by (auto simp: clamp_num_def split: option.splits)

lemma clamp_num_range:
  assumes "lo \<le> d" "d \<le> hi"
  shows "lo \<le> clamp_num L v lo hi d" "clamp_num L v lo hi d \<le> hi"
  using assms by (auto simp: clamp_num_def split: option.splits)

lemma clamp_ts_bounds: "clamp_ts L v now = Some t \<Longrightarrow> 0 \<le> t \<and> t \<le> max 0 (now + TS_FUTURE_SKEW)"
  by (auto simp: clamp_ts_def split: option.splits if_splits)

lemma clamp_world_ts_bounds: "clamp_world_ts L v = Some t \<Longrightarrow> 0 \<le> t \<and> t \<le> WORLD_TS_MAX"
  by (auto simp: clamp_world_ts_def WORLD_TS_MAX_def split: option.splits)

section \<open>Text sanitising\<close>

text \<open>
  \<open>_CONTROL_RE\<close> of \<^verbatim>\<open>core/sync.py\<close> is the character class
  \<^verbatim>\<open>[\x00-\x08\x0b\x0c\x0e-\x1f\x7f]\<close>; \<open>_clamp_str\<close> removes its members and truncates.
\<close>

definition control_char :: "char \<Rightarrow> bool" where
  "control_char c =
     (let n = of_char c :: nat
      in n \<le> 8 \<or> n = 11 \<or> n = 12 \<or> (14 \<le> n \<and> n \<le> 31) \<or> n = 127)"

definition strip_control :: "string \<Rightarrow> string" where
  "strip_control s = filter (\<lambda>c. \<not> control_char c) s"

definition clamp_str :: "pylib \<Rightarrow> json \<Rightarrow> nat \<Rightarrow> string" where
  "clamp_str L v n =
     take n (strip_control (case v of JStr s \<Rightarrow> s | JNull \<Rightarrow> [] | _ \<Rightarrow> lib_str L v))"

lemma clamp_str_length: "length (clamp_str L v n) \<le> n"
  by (simp add: clamp_str_def)

lemma clamp_str_clean: "c \<in> set (clamp_str L v n) \<Longrightarrow> \<not> control_char c"
  by (auto simp: clamp_str_def strip_control_def dest: in_set_takeD)

lemma strip_control_id: "(\<And>c. c \<in> set s \<Longrightarrow> \<not> control_char c) \<Longrightarrow> strip_control s = s"
  by (simp add: strip_control_def)

lemma clamp_str_idem: "clamp_str L (JStr (clamp_str L v n)) n = clamp_str L v n"
  using clamp_str_clean [of _ L v n] clamp_str_length [of L v n]
  by (simp add: clamp_str_def [of L "JStr _"] strip_control_id)

text \<open>\<open>str.isspace\<close> on the modelled code points, \<open>str.strip\<close>, \<open>str.startswith\<close>.\<close>

definition py_space :: "char \<Rightarrow> bool" where
  "py_space c =
     (let n = of_char c :: nat
      in (9 \<le> n \<and> n \<le> 13) \<or> (28 \<le> n \<and> n \<le> 32) \<or> n = 133 \<or> n = 160)"

definition lstrip :: "string \<Rightarrow> string" where
  "lstrip s = dropWhile py_space s"

definition strip :: "string \<Rightarrow> string" where
  "strip s = rev (dropWhile py_space (rev (lstrip s)))"

definition starts_with :: "string \<Rightarrow> string \<Rightarrow> bool" where
  "starts_with p s = (take (length p) s = p)"

definition ends_with :: "string \<Rightarrow> string \<Rightarrow> bool" where
  "ends_with p s = starts_with (rev p) (rev s)"

lemma starts_with_append [simp]: "starts_with p (p @ s)"
  by (simp add: starts_with_def)

lemma starts_with_iff: "starts_with p s \<longleftrightarrow> (\<exists>r. s = p @ r)"
  by (metis append_eq_conv_conj append_take_drop_id starts_with_def)

end
