(* ===== verification/TextUtil.thy ===== *)
theory TextUtil
  imports PyValue
begin

text \<open>
  Text helpers: Python's case folding, character classes, splitting and joining on the modelled
  code points, and the overlap and token estimates of \<^verbatim>\<open>engraphis/core/textutil.py\<close>. Lemmas:
  the overlap is symmetric, lies between 0 and 1 and is 1 exactly for equal token sets; the
  token estimate ignores how whitespace is laid out.
\<close>

section \<open>Characters and words\<close>

text \<open>
  \<open>str.lower\<close> on code points up to 255: the ASCII capitals and the Latin-1 capitals except the
  multiplication sign. \<open>str.casefold\<close> also writes the sharp s as \<^verbatim>\<open>ss\<close> (it maps the micro sign
  out of the modelled range; here that character is kept).
\<close>

definition lower_char :: "char \<Rightarrow> char" where
  "lower_char c =
     (let n = of_char c :: nat
      in if (65 \<le> n \<and> n \<le> 90) \<or> (192 \<le> n \<and> n \<le> 222 \<and> n \<noteq> 215) then char_of (n + 32) else c)"

definition py_lower :: "string \<Rightarrow> string" where
  "py_lower s = map lower_char s"

definition casefold :: "string \<Rightarrow> string" where
  "casefold s = concat (map (\<lambda>c. if of_char c = (223 :: nat) then ''ss'' else [c]) (py_lower s))"

definition py_alnum :: "char \<Rightarrow> bool" where
  "py_alnum c =
     (let n = of_char c :: nat
      in (48 \<le> n \<and> n \<le> 57) \<or> (65 \<le> n \<and> n \<le> 90) \<or> (97 \<le> n \<and> n \<le> 122) \<or>
         n \<in> {170, 178, 179, 181, 185, 186, 188, 189, 190} \<or>
         (192 \<le> n \<and> n \<le> 255 \<and> n \<noteq> 215 \<and> n \<noteq> 247))"

text \<open>\<open>s.split()\<close>: the maximal runs of non-space characters, and \<open>sep.join\<close>.\<close>

fun split_words :: "string \<Rightarrow> string \<Rightarrow> string list" where
  "split_words acc [] = (if acc = [] then [] else [rev acc])"
| "split_words acc (c # cs) =
     (if py_space c then (if acc = [] then [] else [rev acc]) @ split_words [] cs
      else split_words (c # acc) cs)"

definition py_split :: "string \<Rightarrow> string list" where
  "py_split s = split_words [] s"

fun join_with :: "string \<Rightarrow> string list \<Rightarrow> string" where
  "join_with sep [] = []"
| "join_with sep [w] = w"
| "join_with sep (w # v # ws) = w @ sep @ join_with sep (v # ws)"

definition is_word :: "string \<Rightarrow> bool" where
  "is_word w \<longleftrightarrow> w \<noteq> [] \<and> (\<forall>c \<in> set w. \<not> py_space c)"

lemma split_words_word:
  "\<forall>c \<in> set w. \<not> py_space c \<Longrightarrow> split_words acc (w @ s) = split_words (rev w @ acc) s"
  by (induction w arbitrary: acc) auto

lemma split_words_are_words:
  "\<forall>c \<in> set acc. \<not> py_space c \<Longrightarrow> w \<in> set (split_words acc s) \<Longrightarrow> is_word w"
proof (induction s arbitrary: acc)
  case Nil
  then show ?case by (simp add: is_word_def split: if_splits)
next
  case (Cons c s)
  show ?case
  proof (cases "py_space c")
    case True
    then have "w \<in> set (split_words [] s) \<or> acc \<noteq> [] \<and> w = rev acc"
      using Cons.prems(2) by (auto split: if_splits)
    then show ?thesis using Cons.IH [of "[]"] Cons.prems(1) by (auto simp: is_word_def)
  next
    case False
    then show ?thesis using Cons.IH [of "c # acc"] Cons.prems by simp
  qed
qed

lemma py_split_words: "w \<in> set (py_split s) \<Longrightarrow> is_word w"
  using split_words_are_words [of "[]"] by (simp add: py_split_def)

lemma py_space_blank [simp]: "py_space CHR '' ''"
  by (simp add: py_space_def)

lemma split_join: "(\<And>w. w \<in> set ws \<Longrightarrow> is_word w) \<Longrightarrow> py_split (join_with '' '' ws) = ws"
proof (induction ws rule: induct_list012)
  case 1
  then show ?case by (simp add: py_split_def)
next
  case (2 w)
  then show ?case using split_words_word [of w "[]" "[]"] by (simp add: py_split_def is_word_def)
next
  case (3 w v ws)
  have w: "\<forall>c \<in> set w. \<not> py_space c" "w \<noteq> []"
    using "3.prems" [of w] by (simp_all add: is_word_def)
  have "py_split (join_with '' '' (v # ws)) = v # ws"
    by (rule "3.IH"(2)) (rule "3.prems", simp)
  moreover have "py_split (join_with '' '' (w # v # ws)) = w # py_split (join_with '' '' (v # ws))"
    using w by (simp add: py_split_def split_words_word)
  ultimately show ?case by simp
qed

section \<open>Token sets and overlap\<close>

definition STOPWORDS :: "string list" where
  "STOPWORDS = [''the'', ''a'', ''an'', ''to'', ''of'', ''in'', ''on'', ''for'', ''and'', ''or'',
     ''is'', ''are'', ''was'', ''were'', ''we'', ''our'', ''with'', ''by'', ''it'', ''that'',
     ''this'', ''did'', ''do'', ''as'', ''at'', ''be'', ''has'', ''have'', ''from'', ''into'',
     ''now'', ''will'', ''all'']"

definition tokenize :: "string \<Rightarrow> string set" where
  "tokenize text =
     set (filter (\<lambda>t. t \<noteq> [] \<and> t \<notin> set STOPWORDS \<and> 1 < length t)
       (py_split (map (\<lambda>c. if py_alnum c then c else CHR '' '') (py_lower text))))"

definition jaccard :: "string set \<Rightarrow> string set \<Rightarrow> real" where
  "jaccard a b = (if a = {} \<or> b = {} then 0 else real (card (a \<inter> b)) / real (card (a \<union> b)))"

definition text_overlap :: "string \<Rightarrow> string \<Rightarrow> real" where
  "text_overlap a b = jaccard (tokenize a) (tokenize b)"

text \<open>\<open>round(n / 4)\<close> rounds halves to the even neighbour.\<close>

definition round_quarter :: "nat \<Rightarrow> nat" where
  "round_quarter n =
     (let q = n div 4; r = n mod 4
      in if r < 2 then q else if r > 2 then q + 1 else if even q then q else q + 1)"

definition estimate_tokens :: "string \<Rightarrow> nat" where
  "estimate_tokens text =
     (let collapsed = join_with '' '' (py_split text)
      in if collapsed = [] then 0 else max 1 (round_quarter (length collapsed)))"

lemma finite_tokenize [simp]: "finite (tokenize t)"
  by (simp add: tokenize_def)

lemma jaccard_commute: "jaccard a b = jaccard b a"
  by (simp add: jaccard_def Int_commute Un_commute)

lemma jaccard_range:
  assumes "finite a" "finite b"
  shows "0 \<le> jaccard a b" "jaccard a b \<le> 1"
proof -
  have "card (a \<inter> b) \<le> card (a \<union> b)"
    using assms by (intro card_mono) auto
  then show "0 \<le> jaccard a b" "jaccard a b \<le> 1"
    by (auto simp: jaccard_def divide_le_eq)
qed

lemma jaccard_eq_1:
  assumes "finite a" "finite b"
  shows "jaccard a b = 1 \<longleftrightarrow> a = b \<and> a \<noteq> {}"
proof
  assume one: "jaccard a b = 1"
  then have ne: "a \<noteq> {}" "b \<noteq> {}" by (auto simp: jaccard_def)
  then have "card (a \<union> b) \<noteq> 0" using assms by simp
  then have "card (a \<inter> b) = card (a \<union> b)"
    using one ne by (simp add: jaccard_def)
  then have "a \<inter> b = a \<union> b"
    using assms by (intro card_subset_eq) auto
  then show "a = b \<and> a \<noteq> {}" using ne by blast
next
  assume "a = b \<and> a \<noteq> {}"
  then have "a = b" "b \<noteq> {}" by blast+
  then show "jaccard a b = 1" using assms by (simp add: jaccard_def)
qed

lemma round_quarter_mono: "m \<le> n \<Longrightarrow> round_quarter m \<le> round_quarter n"
proof -
  assume le: "m \<le> n"
  have ub: "round_quarter m \<le> m div 4 + 1" and lb: "n div 4 \<le> round_quarter n"
    by (auto simp: round_quarter_def Let_def)
  show ?thesis
  proof (cases "m div 4 = n div 4")
    case True
    then have "m mod 4 \<le> n mod 4"
      using le by (metis add_le_cancel_left mult_div_mod_eq)
    then show ?thesis using True by (auto simp: round_quarter_def Let_def)
  next
    case False
    then have "m div 4 + 1 \<le> n div 4" using div_le_mono [OF le, of 4] by simp
    then show ?thesis using ub lb by simp
  qed
qed

lemma text_overlap_range: "0 \<le> text_overlap a b \<and> text_overlap a b \<le> 1"
  using jaccard_range by (simp add: text_overlap_def)

section \<open>Properties\<close>

text \<open>
  F: the text overlap of two strings is symmetric, lies between 0 and 1, and is 1 exactly when
  both have the same non-empty set of tokens.
\<close>

theorem text_overlap_similarity:
  "text_overlap a b = text_overlap b a \<and> 0 \<le> text_overlap a b \<and> text_overlap a b \<le> 1 \<and>
   (text_overlap a b = 1 \<longleftrightarrow> tokenize a = tokenize b \<and> tokenize a \<noteq> {})"
  using jaccard_commute jaccard_range jaccard_eq_1 by (simp add: text_overlap_def)

text \<open>
  F: the token estimate does not depend on how whitespace is laid out (collapsing every run
  to one blank changes nothing), is 0 exactly for blank text, and grows with the length of the
  collapsed text.
\<close>

theorem estimate_ignores_layout:
  "estimate_tokens (join_with '' '' (py_split t)) = estimate_tokens t \<and>
   (estimate_tokens t = 0 \<longleftrightarrow> join_with '' '' (py_split t) = []) \<and>
   (length (join_with '' '' (py_split t)) div 4 \<le> estimate_tokens t)"
proof -
  have "py_split (join_with '' '' (py_split t)) = py_split t"
    by (rule split_join) (rule py_split_words)
  moreover have "n div 4 \<le> round_quarter n" for n
    by (auto simp: round_quarter_def Let_def)
  ultimately show ?thesis
    by (auto simp: estimate_tokens_def Let_def le_max_iff_disj)
qed

end
