(* ===== verification/Regex.thy ===== *)
theory Regex
  imports TextUtil
begin

text \<open>
  The fragment of Python's \<^verbatim>\<open>re\<close> that the modelled modules use: character classes, sequence,
  alternation, greedy repetition, word boundaries, anchors and one-character or regular
  look-arounds. Patterns are given in the constructors below, one definition per
  \<open>re.compile\<close>. The matcher lists, for a start position, the end positions of all matches in
  the order the backtracking engine tries them, so \<open>hd\<close> is the match Python reports. Lemma:
  the matcher finds exactly the matches of the declarative semantics. \<open>str.find\<close> is at the end.
\<close>

section \<open>Patterns and their meaning\<close>

datatype rx =
    Ch "char \<Rightarrow> bool"
  | Eps
  | Sq rx rx
  | Al rx rx
  | St rx
  | WordEdge
  | Start
  | Finish
  | Unless rx
  | NotAfter "char \<Rightarrow> bool"

definition word_char :: "char \<Rightarrow> bool" where
  "word_char c \<longleftrightarrow> py_alnum c \<or> c = CHR ''_''"

definition at_edge :: "string \<Rightarrow> nat \<Rightarrow> bool" where
  "at_edge s i \<longleftrightarrow>
     (0 < i \<and> i \<le> length s \<and> word_char (s ! (i - 1))) \<noteq> (i < length s \<and> word_char (s ! i))"

fun star_ends :: "(nat \<Rightarrow> nat list) \<Rightarrow> nat \<Rightarrow> nat \<Rightarrow> nat list" where
  "star_ends f 0 i = [i]"
| "star_ends f (Suc n) i = concat (map (star_ends f n) (filter (\<lambda>j. i < j) (f i))) @ [i]"

primrec ends :: "string \<Rightarrow> rx \<Rightarrow> nat \<Rightarrow> nat list" where
  "ends s (Ch p) i = (if i < length s \<and> p (s ! i) then [i + 1] else [])"
| "ends s Eps i = [i]"
| "ends s (Sq a b) i = concat (map (ends s b) (ends s a i))"
| "ends s (Al a b) i = ends s a i @ ends s b i"
| "ends s (St a) i = star_ends (ends s a) (length s - i) i"
| "ends s WordEdge i = (if at_edge s i then [i] else [])"
| "ends s Start i = (if i = 0 then [i] else [])"
| "ends s Finish i = (if i = length s then [i] else [])"
| "ends s (Unless a) i = (if ends s a i = [] then [i] else [])"
| "ends s (NotAfter p) i = (if 0 < i \<and> i \<le> length s \<and> p (s ! (i - 1)) then [] else [i])"

definition rx_search :: "rx \<Rightarrow> string \<Rightarrow> bool" where
  "rx_search r s = (\<exists>i \<in> set [0..<length s + 1]. ends s r i \<noteq> [])"

definition rx_fullmatch :: "rx \<Rightarrow> string \<Rightarrow> bool" where
  "rx_fullmatch r s = (length s \<in> set (ends s r 0))"

text \<open>
  Declarative semantics: the set of pairs of positions a pattern matches between.
\<close>

primrec spans :: "string \<Rightarrow> rx \<Rightarrow> (nat \<times> nat) set" where
  "spans s (Ch p) = {(i, Suc i) | i. i < length s \<and> p (s ! i)}"
| "spans s Eps = Id"
| "spans s (Sq a b) = spans s a O spans s b"
| "spans s (Al a b) = spans s a \<union> spans s b"
| "spans s (St a) = (spans s a)\<^sup>*"
| "spans s WordEdge = {(i, i) | i. at_edge s i}"
| "spans s Start = {(0, 0)}"
| "spans s Finish = {(length s, length s)}"
| "spans s (Unless a) = {(i, i) | i. \<not> (\<exists>j. (i, j) \<in> spans s a)}"
| "spans s (NotAfter p) = {(i, i) | i. \<not> (0 < i \<and> i \<le> length s \<and> p (s ! (i - 1)))}"

section \<open>Derived patterns\<close>

definition lit_char :: "char \<Rightarrow> rx" where "lit_char c = Ch (\<lambda>d. d = c)"

definition nocase_char :: "char \<Rightarrow> rx" where
  "nocase_char c = Ch (\<lambda>d. lower_char d = lower_char c)"

definition lit :: "string \<Rightarrow> rx" where "lit w = foldr (\<lambda>c r. Sq (lit_char c) r) w Eps"

definition nocase :: "string \<Rightarrow> rx" where "nocase w = foldr (\<lambda>c r. Sq (nocase_char c) r) w Eps"

definition any_of :: "rx list \<Rightarrow> rx" where
  "any_of rs = (case rs of [] \<Rightarrow> Ch (\<lambda>_. False) | r # rest \<Rightarrow> foldl Al r rest)"

definition opt :: "rx \<Rightarrow> rx" where "opt r = Al r Eps"

definition plus :: "rx \<Rightarrow> rx" where "plus r = Sq r (St r)"

fun times :: "nat \<Rightarrow> rx \<Rightarrow> rx" where
  "times 0 r = Eps"
| "times (Suc n) r = Sq r (times n r)"

fun upto :: "nat \<Rightarrow> rx \<Rightarrow> rx" where
  "upto 0 r = Eps"
| "upto (Suc n) r = opt (Sq r (upto n r))"

definition at_least :: "nat \<Rightarrow> rx \<Rightarrow> rx" where "at_least n r = Sq (times n r) (St r)"

definition seq :: "rx list \<Rightarrow> rx" where "seq rs = foldr Sq rs Eps"

section \<open>The matcher is exact\<close>

lemma spans_mono: "(i, j) \<in> spans s r \<Longrightarrow> i \<le> j \<and> (i \<le> length s \<longrightarrow> j \<le> length s)"
proof (induction r arbitrary: i j)
  case (St r)
  from St.prems have "(i, j) \<in> (spans s r)\<^sup>*" by simp
  then show ?case by (induction rule: rtrancl_induct) (use St.IH in fastforce)+
next
  case (Sq a b)
  then show ?case by fastforce
qed auto

lemma star_ends_complete:
  assumes "(i, j) \<in> R\<^sup>*" and "\<And>i j. i \<le> m \<Longrightarrow> (i, j) \<in> R \<Longrightarrow> j \<in> set (f i) \<and> i \<le> j \<and> j \<le> m"
    and "m - i \<le> n" "i \<le> m"
  shows "j \<in> set (star_ends f n i)"
  using assms(1,3,4)
proof (induction arbitrary: n rule: converse_rtrancl_induct)
  case base
  then show ?case by (cases n) auto
next
  case (step i k)
  have k: "k \<in> set (f i)" "i \<le> k" "k \<le> m" using assms(2) step by blast+
  show ?case
  proof (cases "i = k")
    case True
    then show ?thesis using step by simp
  next
    case False
    then have lt: "i < k" using k by simp
    then obtain n' where n: "n = Suc n'" using step.prems k by (cases n) auto
    then have "j \<in> set (star_ends f n' k)" using step.IH [of n'] step.prems lt k by simp
    then show ?thesis using n lt k by auto
  qed
qed

lemma star_ends_exact:
  assumes step: "\<And>k. k \<le> m \<Longrightarrow> set (f k) = {j. (k, j) \<in> R}"
    and mono: "\<And>k j. (k, j) \<in> R \<Longrightarrow> k \<le> j \<and> (k \<le> m \<longrightarrow> j \<le> m)" and i: "i \<le> m"
  shows "set (star_ends f (m - i) i) = {j. (i, j) \<in> R\<^sup>*}"
proof -
  have sound: "(k, j) \<in> R\<^sup>*" if "j \<in> set (star_ends f n k)" "k \<le> m" for n k j
    using that
  proof (induction n arbitrary: k)
    case (Suc n)
    then consider "j = k" | l where "l \<in> set (f k)" "j \<in> set (star_ends f n l)" by auto
    then show ?case
    proof cases
      case 2
      then have "(k, l) \<in> R" using step Suc.prems by simp
      moreover from this have "l \<le> m" using mono Suc.prems by blast
      ultimately show ?thesis using Suc.IH 2 by (blast intro: converse_rtrancl_into_rtrancl)
    qed simp
  qed simp
  have complete: "j \<in> set (star_ends f (m - i) i)" if "(i, j) \<in> R\<^sup>*" for j
  proof (rule star_ends_complete [OF that _ _ i])
    show "l \<in> set (f k) \<and> k \<le> l \<and> l \<le> m" if "k \<le> m" "(k, l) \<in> R" for k l
      using step [OF that(1)] mono [OF that(2)] that by blast
  qed simp
  show ?thesis using sound [OF _ i] complete by blast
qed

lemma ends_spans: "i \<le> length s \<Longrightarrow> set (ends s r i) = {j. (i, j) \<in> spans s r}"
proof (induction r arbitrary: i)
  case (Sq a b)
  have "set (ends s b k) = {j. (k, j) \<in> spans s b}" if "(i, k) \<in> spans s a" for k
    using Sq.IH(2) spans_mono [OF that] Sq.prems by blast
  then show ?case using Sq.IH(1) [OF Sq.prems] by auto
next
  case (St a)
  show ?case
    using star_ends_exact [OF St.IH spans_mono [of _ _ s a] St.prems] by simp
next
  case (Unless a)
  have "ends s a i = [] \<longleftrightarrow> \<not> (\<exists>j. (i, j) \<in> spans s a)"
    using Unless by (metis (mono_tags) empty_Collect_eq set_empty)
  then show ?case by simp
qed auto

section \<open>Properties\<close>

text \<open>
  F: searching for a pattern succeeds exactly when the pattern matches somewhere according to
  the declarative semantics, and a full match is a match of the whole string; the matcher needs
  no fuel beyond the length of the text.
\<close>

theorem search_exact:
  "(rx_search r s \<longleftrightarrow> {(i, j). i \<le> length s \<and> (i, j) \<in> spans s r} \<noteq> {}) \<and>
   (rx_fullmatch r s \<longleftrightarrow> (0, length s) \<in> spans s r)"
proof
  have "ends s r i \<noteq> [] \<longleftrightarrow> (\<exists>j. (i, j) \<in> spans s r)" if "i \<le> length s" for i
    using ends_spans [OF that, of r] by (metis (mono_tags) empty_Collect_eq set_empty)
  moreover have "rx_search r s \<longleftrightarrow> (\<exists>i \<le> length s. ends s r i \<noteq> [])"
    by (auto simp: rx_search_def less_Suc_eq_le simp del: upt_Suc)
  ultimately show "rx_search r s \<longleftrightarrow> {(i, j). i \<le> length s \<and> (i, j) \<in> spans s r} \<noteq> {}"
    by auto
  show "rx_fullmatch r s \<longleftrightarrow> (0, length s) \<in> spans s r"
    by (simp add: rx_fullmatch_def ends_spans)
qed

section \<open>Searching a text\<close>

text \<open>\<open>s.find(needle, start)\<close>.\<close>

definition find_from :: "string \<Rightarrow> string \<Rightarrow> nat \<Rightarrow> nat option" where
  "find_from needle s start =
     find (\<lambda>i. starts_with needle (drop i s)) [start..<length s + 1]"

definition occurs_at :: "string \<Rightarrow> string \<Rightarrow> nat \<Rightarrow> bool" where
  "occurs_at needle s i \<longleftrightarrow> i \<le> length s \<and> starts_with needle (drop i s)"

lemma find_upt_Some:
  "find P [a..<b] = Some i \<longleftrightarrow> a \<le> i \<and> i < b \<and> P i \<and> (\<forall>j. a \<le> j \<and> j < i \<longrightarrow> \<not> P j)"
  for a b i :: nat
proof (induction "b - a" arbitrary: a)
  case 0
  then show ?case by auto
next
  case (Suc n)
  then have less: "a < b" and n: "n = b - Suc a" by auto
  have split: "[a..<b] = a # [Suc a..<b]" using less by (simp add: upt_conv_Cons)
  have step: "(a \<le> j) = (j = a \<or> Suc a \<le> j)" for j by auto
  show ?case
  proof (cases "P a")
    case True
    then show ?thesis using less split by (auto simp: step)
  next
    case False
    then show ?thesis using Suc.hyps(1) [OF n] split by (auto simp: step)
  qed
qed

lemma find_from_Some:
  "find_from n s a = Some i \<longleftrightarrow> a \<le> i \<and> occurs_at n s i \<and> (\<forall>j. a \<le> j \<and> j < i \<longrightarrow> \<not> occurs_at n s j)"
  unfolding find_from_def find_upt_Some occurs_at_def by (auto simp: less_Suc_eq_le)

lemma find_from_None: "find_from n s a = None \<longleftrightarrow> (\<forall>i. a \<le> i \<longrightarrow> \<not> occurs_at n s i)"
  by (auto simp: find_from_def find_None_iff occurs_at_def less_Suc_eq_le)

end
