(* ===== verification/Trust.thy ===== *)
theory Trust
  imports Regex
begin

text \<open>
  The trust envelopes of \<^verbatim>\<open>engraphis/core/poisoning.py\<close>: which provenance counts as approved,
  which metadata as quarantined, which records may enter inspection results and which a prompt,
  the envelopes that demote model-authored text to pending review, and the merge of the two
  provenance envelopes of a row (\<open>_merge_provenance_envelopes\<close> of \<^verbatim>\<open>engraphis/core/store.py\<close>).
  Lemmas: quarantine and pending review always exclude a record from prompts, the demoting
  envelopes produce records that are not prompt eligible, and a merge never drops a restriction.
\<close>

section \<open>Constants\<close>

definition POLICY_VERSION :: string where "POLICY_VERSION = ''deterministic-v3''"
definition QUARANTINE_STATE :: string where "QUARANTINE_STATE = ''quarantined''"
definition REVIEW_PENDING :: string where "REVIEW_PENDING = ''pending''"
definition REVIEW_APPROVED :: string where "REVIEW_APPROVED = ''approved''"

section \<open>Model-authored text\<close>

definition digit_char :: "char \<Rightarrow> bool" where
  "digit_char c = (let n = of_char c :: nat in 48 \<le> n \<and> n \<le> 57)"

definition counted :: rx where
  \<comment> \<open>\<^verbatim>\<open>[1-9]\d*\<close>\<close>
  "counted = Sq (Ch (\<lambda>c. digit_char c \<and> c \<noteq> CHR ''0'')) (St (Ch digit_char))"

definition LEGACY_LLM_DIGEST_SUFFIX :: rx where
  "LEGACY_LLM_DIGEST_SUFFIX =
     seq [lit [CHR 0x0A, CHR 0x0A], lit ''(Consolidated from '', counted, lit '' episodes: '',
          St (Ch (\<lambda>_. True)), lit '')'', Finish]"

definition LEGACY_LLM_PROFILE_SUFFIX :: rx where
  "LEGACY_LLM_PROFILE_SUFFIX =
     seq [lit [CHR 0x0A, CHR 0x0A], lit ''(Profile of '', plus (Ch (\<lambda>_. True)), lit '', from '',
          counted, lit '' memories)'', Finish]"

definition llm_consolidation_kind :: "pylib \<Rightarrow> json \<Rightarrow> string \<Rightarrow> string option" where
  "llm_consolidation_kind L provenance text =
     (let details = as_obj provenance;
          source = casefold (strip (str_or_empty L (jget details ''source'')))
      in if source = ''structured_consolidation'' then Some ''structured_fact''
         else if jget details ''derived_by_llm'' = JBool True then
           Some (if source = ''profile_consolidation'' then ''entity_profile'' else ''digest_summary'')
         else if source = ''consolidation'' \<and> rx_search LEGACY_LLM_DIGEST_SUFFIX text
         then Some ''digest_summary''
         else if source = ''profile_consolidation'' \<and> rx_search LEGACY_LLM_PROFILE_SUFFIX text
         then Some ''entity_profile''
         else None)"

text \<open>
  Both demoting envelopes move the executable graph hints aside in the same way; the shared
  loop is \<open>inert_hints\<close>.
\<close>

definition DERIVED_GRAPH_HINT_KEYS :: "string list" where
  "DERIVED_GRAPH_HINT_KEYS = [''entities'', ''relations'', ''structured_extraction'']"

definition inert_hints :: "string \<Rightarrow> obj \<Rightarrow> obj" where
  "inert_hints origin meta =
     (let hints = concat (map (\<lambda>k. if jhas meta k then [(k, jget meta k)] else [])
                           DERIVED_GRAPH_HINT_KEYS);
          rest = foldl (\<lambda>m k. jpop k m) meta DERIVED_GRAPH_HINT_KEYS;
          merged = (case jget rest ''unverified_derived_graph'' of
                      JObj existing \<Rightarrow> jupdate hints existing | _ \<Rightarrow> hints)
      in if merged = [] then rest
         else jset ''unverified_derived_graph'' (JObj (jset ''source'' (JStr origin) merged)) rest)"

definition pending_llm_consolidation_envelope ::
  "pylib \<Rightarrow> json \<Rightarrow> json \<Rightarrow> string \<Rightarrow> obj \<times> obj \<times> string option" where
  "pending_llm_consolidation_envelope L provenance metadata text =
     (let details = as_obj provenance; meta = as_obj metadata
      in case llm_consolidation_kind L (JObj details) text of
           None \<Rightarrow> (details, meta, None)
         | Some kind \<Rightarrow>
             let details' = jupdate [(''trusted'', JBool False), (''review_state'', JStr REVIEW_PENDING),
                   (''trust_origin'', JStr ''llm_consolidation''), (''derived_by_llm'', JBool True)] details;
                 meta1 = inert_hints ''llm_consolidation'' meta;
                 review = jupdate [(''review_required'', JBool True), (''kind'', JStr kind)]
                   (as_obj (jget meta1 ''llm_consolidation''));
                 meta2 = jset ''llm_consolidation'' (JObj review) meta1;
                 meta3 = jset ''provenance'' (JObj details') meta2
             in (details', meta3, Some kind))"

definition llm_extraction_requires_review :: "json \<Rightarrow> bool" where
  "llm_extraction_requires_review metadata = is_obj (jget (as_obj metadata) ''llm_extraction'')"

definition pending_llm_extraction_envelope :: "json \<Rightarrow> json \<Rightarrow> obj \<times> obj \<times> bool" where
  "pending_llm_extraction_envelope provenance metadata =
     (let details = as_obj provenance; meta = as_obj metadata
      in case jget meta ''llm_extraction'' of
           JObj extraction \<Rightarrow>
             let details' = jupdate [(''trusted'', JBool False), (''review_state'', JStr REVIEW_PENDING),
                   (''trust_origin'', JStr ''llm_extraction''),
                   (''derived_by_llm_extraction'', JBool True), (''derived_graph_inert'', JBool True)] details;
                 meta1 = inert_hints ''llm_extraction'' meta;
                 meta2 = jset ''llm_extraction''
                   (JObj (jupdate [(''review_required'', JBool True)] extraction)) meta1;
                 meta3 = jset ''provenance'' (JObj details') meta2
             in (details', meta3, True)
         | _ \<Rightarrow> (details, meta, False))"

section \<open>Eligibility\<close>

definition provenance_is_trusted :: "json \<Rightarrow> bool" where
  "provenance_is_trusted provenance \<longleftrightarrow>
     is_obj provenance \<and> jget (as_obj provenance) ''trusted'' = JBool True"

definition provenance_is_approved :: "pylib \<Rightarrow> json \<Rightarrow> bool" where
  "provenance_is_approved L provenance \<longleftrightarrow>
     (let details = as_obj provenance;
          unverified = llm_consolidation_kind L (JObj details) [] \<noteq> None \<or>
            jget details ''derived_by_llm_extraction'' = JBool True
      in provenance_is_trusted provenance \<and> \<not> unverified \<and>
         jget details ''review_state'' = JStr REVIEW_APPROVED)"

definition metadata_is_trusted :: "json \<Rightarrow> bool" where
  "metadata_is_trusted metadata \<longleftrightarrow>
     (let provenance = jget (as_obj metadata) ''provenance''
      in \<not> is_obj provenance \<or> provenance_is_trusted provenance)"

definition metadata_is_quarantined :: "json \<Rightarrow> bool" where
  "metadata_is_quarantined metadata \<longleftrightarrow>
     (let meta = as_obj metadata; provenance = as_obj (jget meta ''provenance'');
          quarantine = jget meta ''quarantine''
      in jget provenance ''quarantined'' = JBool True \<or>
         is_obj quarantine \<and> jget (as_obj quarantine) ''state'' = JStr QUARANTINE_STATE)"

definition inspection_eligible :: "json \<Rightarrow> json \<Rightarrow> bool" where
  "inspection_eligible provenance metadata \<longleftrightarrow>
     \<not> (jget (as_obj provenance) ''quarantined'' = JBool True \<or> metadata_is_quarantined metadata)"

definition prompt_eligible :: "pylib \<Rightarrow> json \<Rightarrow> json \<Rightarrow> bool" where
  "prompt_eligible L provenance metadata \<longleftrightarrow>
     provenance_is_approved L provenance \<and> \<not> llm_extraction_requires_review metadata \<and>
     metadata_is_trusted metadata \<and> inspection_eligible provenance metadata"

definition edge_provenance_prompt_eligible :: "json \<Rightarrow> bool" where
  "edge_provenance_prompt_eligible provenance =
     (let edge = as_obj provenance; quarantine = as_obj (jget edge ''quarantine'')
      in if jhas edge ''trusted'' \<and> jget edge ''trusted'' \<noteq> JBool True then False
         else if jget edge ''quarantined'' = JBool True then False
         else if jget quarantine ''state'' = JStr QUARANTINE_STATE then False
         else if jhas edge ''review_state'' \<and> jget edge ''review_state'' \<noteq> JStr REVIEW_APPROVED then False
         else True)"

section \<open>Quarantine decisions\<close>

record decision =
  quarantined :: bool
  policy :: string
  reasons :: "string list"

definition apply_quarantine_metadata :: "obj \<Rightarrow> decision \<Rightarrow> obj" where
  "apply_quarantine_metadata metadata d =
     (if \<not> quarantined d then metadata
      else
        let reason_list = JList (map JStr (reasons d));
            provenance = jupdate [(''trusted'', JBool False), (''quarantined'', JBool True),
              (''review_state'', JStr QUARANTINE_STATE), (''quarantine_policy'', JStr (policy d)),
              (''quarantine_reasons'', reason_list)] (as_obj (jget metadata ''provenance''))
        in jset ''quarantine'' (JObj [(''state'', JStr QUARANTINE_STATE), (''policy'', JStr (policy d)),
              (''reasons'', reason_list)]) (jset ''provenance'' (JObj provenance) metadata))"

text \<open>
  \<open>_merge_provenance_envelopes\<close>: the trust envelope of the dedicated column and the one nested
  in the metadata. The loop takes the first review state that is not an approval.
\<close>

definition restrictive_state :: "obj \<Rightarrow> json option" where
  "restrictive_state item =
     (let state = jget item ''review_state''
      in if py_truthy state \<and> state \<noteq> JStr REVIEW_APPROVED then Some state else None)"

definition merge_provenance_envelopes :: "obj \<Rightarrow> obj \<Rightarrow> obj" where
  "merge_provenance_envelopes dedicated nested =
     (let p0 = jupdate nested dedicated;
          untrusted = jget dedicated ''trusted'' = JBool False \<or> jget nested ''trusted'' = JBool False;
          p1 = (if untrusted then jset ''trusted'' (JBool False) p0 else p0);
          held = jget dedicated ''quarantined'' = JBool True \<or> jget nested ''quarantined'' = JBool True;
          p2 = (if held then jset ''quarantined'' (JBool True) p1 else p1)
      in case restrictive_state dedicated of
           Some state \<Rightarrow> jset ''review_state'' state p2
         | None \<Rightarrow> (case restrictive_state nested of
                       Some state \<Rightarrow> jset ''review_state'' state p2 | None \<Rightarrow> p2))"

lemmas trust_defs = prompt_eligible_def provenance_is_approved_def provenance_is_trusted_def
  metadata_is_trusted_def metadata_is_quarantined_def inspection_eligible_def

lemma approved_trusted:
  "provenance_is_approved L (JObj p) \<Longrightarrow>
     jget p ''trusted'' = JBool True \<and> jget p ''review_state'' = JStr REVIEW_APPROVED \<and>
     jget p ''derived_by_llm'' \<noteq> JBool True"
  by (auto simp: trust_defs Let_def llm_consolidation_kind_def split: if_splits)

lemma inert_hints_keys:
  "k \<in> set DERIVED_GRAPH_HINT_KEYS \<Longrightarrow> \<not> jhas (inert_hints origin meta) k"
  by (auto simp: inert_hints_def DERIVED_GRAPH_HINT_KEYS_def Let_def jhas_jset jhas_def map_of_jpop
      map_of_jset)

lemma merge_trusted:
  "jget (merge_provenance_envelopes d n) ''trusted'' =
     (if jget d ''trusted'' = JBool False \<or> jget n ''trusted'' = JBool False then JBool False
      else jget (jupdate n d) ''trusted'')"
  by (simp add: merge_provenance_envelopes_def Let_def jget_jset split: option.split)

lemma merge_quarantined:
  "jget (merge_provenance_envelopes d n) ''quarantined'' =
     (if jget d ''quarantined'' = JBool True \<or> jget n ''quarantined'' = JBool True then JBool True
      else jget (jupdate n d) ''quarantined'')"
  by (simp add: merge_provenance_envelopes_def Let_def jget_jset split: option.split)

lemma merge_state:
  "jget (merge_provenance_envelopes d n) ''review_state'' =
     (case restrictive_state d of Some st \<Rightarrow> st
      | None \<Rightarrow> (case restrictive_state n of Some st \<Rightarrow> st
                    | None \<Rightarrow> jget (jupdate n d) ''review_state''))"
  by (simp add: merge_provenance_envelopes_def Let_def jget_jset split: option.split)

lemma restrictive_state_Some: "restrictive_state d = Some st \<Longrightarrow> st \<noteq> JStr REVIEW_APPROVED"
  by (auto simp: restrictive_state_def Let_def split: if_splits)

lemma consolidation_kind_stays:
  assumes "llm_consolidation_kind L (JObj p) text = Some kind"
  shows "llm_consolidation_kind L (JObj (jupdate [(''trusted'', t), (''review_state'', r),
    (''trust_origin'', u), (''derived_by_llm'', JBool True)] p)) text' \<noteq> None"
  using assms by (simp add: llm_consolidation_kind_def Let_def jget_jupdate)

section \<open>Properties\<close>


definition approved_provenance :: obj where
  "approved_provenance = [(''trusted'', JBool True), (''review_state'', JStr REVIEW_APPROVED)]"

lemma approved_provenance_eligible: "prompt_eligible L (JObj approved_provenance) (JObj [])"
  by (simp add: trust_defs approved_provenance_def jget_def llm_consolidation_kind_def Let_def
      llm_extraction_requires_review_def str_or_empty_def strip_def lstrip_def casefold_def py_lower_def)


text \<open>
  F: quarantining is final for the record it marks: whatever metadata the caller supplied, the
  result is quarantined, so it is neither prompt eligible nor visible to inspection under any
  provenance, and marking it again changes nothing.
\<close>

theorem quarantine_excludes:
  assumes "quarantined d"
  shows "\<not> inspection_eligible pv (JObj (apply_quarantine_metadata m d)) \<and>
    \<not> prompt_eligible L pv (JObj (apply_quarantine_metadata m d)) \<and>
    jget (as_obj (jget (apply_quarantine_metadata m d) ''provenance'')) ''trusted'' = JBool False"
  using assms
  by (simp add: apply_quarantine_metadata_def prompt_eligible_def inspection_eligible_def
      metadata_is_quarantined_def Let_def jget_jset jget_jupdate)

theorem quarantine_excludes_witness:
  "\<not> prompt_eligible content_lib (JObj approved_provenance) (JObj (apply_quarantine_metadata []
      \<lparr>quarantined = True, policy = POLICY_VERSION, reasons = [''attack_canary_marker'']\<rparr>))"
  using quarantine_excludes [of "\<lparr>quarantined = True, policy = POLICY_VERSION,
    reasons = [''attack_canary_marker'']\<rparr>"] by simp

text \<open>
  F: a record recognised as model-authored consolidation comes out of the demoting envelope
  pending, not prompt eligible, without executable graph hints, and still recognised as
  model-authored.
\<close>

theorem llm_consolidation_demoted:
  assumes "pending_llm_consolidation_envelope L pv md text = (p', m', Some kind)"
  shows "\<not> prompt_eligible L (JObj p') (JObj m') \<and> jget p' ''review_state'' = JStr REVIEW_PENDING \<and>
    jget m' ''provenance'' = JObj p' \<and> llm_consolidation_kind L (JObj p') text' \<noteq> None \<and>
    \<not> jhas m' ''entities'' \<and> \<not> jhas m' ''relations'' \<and> \<not> jhas m' ''structured_extraction''"
proof -
  let ?p = "jupdate [(''trusted'', JBool False), (''review_state'', JStr REVIEW_PENDING),
    (''trust_origin'', JStr ''llm_consolidation''), (''derived_by_llm'', JBool True)] (as_obj pv)"
  from assms have k: "llm_consolidation_kind L (JObj (as_obj pv)) text = Some kind" and p': "p' = ?p"
    and m': "\<exists>review. m' = jset ''provenance'' (JObj p') (jset ''llm_consolidation'' review
      (inert_hints ''llm_consolidation'' (as_obj md)))"
    by (auto simp: pending_llm_consolidation_envelope_def Let_def split: option.splits)
  have t: "jget p' ''trusted'' = JBool False" "jget p' ''review_state'' = JStr REVIEW_PENDING"
    by (simp_all add: p' jget_jupdate)
  then have "\<not> provenance_is_approved L (JObj p')" using approved_trusted [of L p'] by auto
  then have "\<not> prompt_eligible L (JObj p') (JObj m')" by (simp add: prompt_eligible_def)
  moreover have "llm_consolidation_kind L (JObj p') text' \<noteq> None"
    unfolding p' by (rule consolidation_kind_stays [OF k])
  moreover have gone: "\<not> jhas m' h" if "h \<in> set DERIVED_GRAPH_HINT_KEYS" for h
  proof -
    have "h \<noteq> ''provenance''" "h \<noteq> ''llm_consolidation''"
      using that by (auto simp: DERIVED_GRAPH_HINT_KEYS_def)
    then show ?thesis using m' inert_hints_keys [OF that] by (auto simp: jhas_jset)
  qed
  moreover have "\<not> jhas m' ''entities''" "\<not> jhas m' ''relations''" "\<not> jhas m' ''structured_extraction''"
    by (rule gone, simp add: DERIVED_GRAPH_HINT_KEYS_def)+
  moreover have "jget m' ''provenance'' = JObj p'"
    using m' by (auto simp: jget_jset)
  ultimately show ?thesis using t by blast
qed

theorem llm_consolidation_demoted_witness:
  "\<exists>p' m'. pending_llm_consolidation_envelope content_lib
      (JObj [(''derived_by_llm'', JBool True), (''trusted'', JBool True)])
      (JObj [(''entities'', JList [])]) [] = (p', m', Some ''digest_summary'') \<and>
    \<not> prompt_eligible content_lib (JObj p') (JObj m')"
proof -
  obtain p' m' where e: "pending_llm_consolidation_envelope content_lib
      (JObj [(''derived_by_llm'', JBool True), (''trusted'', JBool True)])
      (JObj [(''entities'', JList [])]) [] = (p', m', Some ''digest_summary'')"
    by (simp add: pending_llm_consolidation_envelope_def llm_consolidation_kind_def Let_def jget_def
        str_or_empty_def strip_def lstrip_def casefold_def py_lower_def)
  then show ?thesis using llm_consolidation_demoted [OF e] by blast
qed

text \<open>
  F: the merge of a row's two provenance envelopes is approved only if neither envelope says
  \<open>trusted: false\<close>, neither says \<open>quarantined: true\<close> when the result is inspected, and neither
  carries a review state other than approved.
\<close>

theorem merge_keeps_restrictions:
  assumes "prompt_eligible L (JObj (merge_provenance_envelopes d n)) md"
  shows "jget d ''trusted'' \<noteq> JBool False \<and> jget n ''trusted'' \<noteq> JBool False \<and>
    jget d ''quarantined'' \<noteq> JBool True \<and> jget n ''quarantined'' \<noteq> JBool True \<and>
    restrictive_state d = None \<and> restrictive_state n = None"
proof -
  let ?m = "merge_provenance_envelopes d n"
  have app: "jget ?m ''trusted'' = JBool True" "jget ?m ''review_state'' = JStr REVIEW_APPROVED"
    using assms approved_trusted [of L ?m] by (auto simp: prompt_eligible_def)
  have q: "jget ?m ''quarantined'' \<noteq> JBool True"
    using assms by (simp add: prompt_eligible_def inspection_eligible_def)
  show ?thesis
    using app q restrictive_state_Some [of d] restrictive_state_Some [of n]
    unfolding merge_trusted merge_quarantined merge_state
    by (auto split: option.splits if_splits)
qed

theorem merge_keeps_restrictions_witness:
  "restrictive_state approved_provenance = None"
proof -
  have "merge_provenance_envelopes approved_provenance [] = approved_provenance"
    by (simp add: merge_provenance_envelopes_def approved_provenance_def jupdate_def jget_def
        restrictive_state_def Let_def REVIEW_APPROVED_def)
  then show ?thesis
    using merge_keeps_restrictions [of content_lib approved_provenance "[]" "JObj []"]
      approved_provenance_eligible by simp
qed

text \<open>
  F: the merge does lose one restriction: when the metadata envelope names another source, an
  approved-looking row written by structured consolidation, which on its own is refused as
  model-authored, becomes prompt eligible.
\<close>

theorem merge_loses_llm_origin:
  "\<not> prompt_eligible L (JObj (jset ''source'' (JStr ''structured_consolidation'') approved_provenance))
       (JObj []) \<and>
   prompt_eligible L (JObj (merge_provenance_envelopes
       (jset ''source'' (JStr ''structured_consolidation'') approved_provenance)
       [(''source'', JStr ''notes'')])) (JObj [])"
  by (simp add: trust_defs approved_provenance_def jget_def llm_consolidation_kind_def Let_def
      llm_extraction_requires_review_def str_or_empty_def strip_def lstrip_def casefold_def
      py_lower_def lower_char_def py_space_def merge_provenance_envelopes_def jupdate_def
      restrictive_state_def REVIEW_APPROVED_def)

end
