(* ===== verification/Ids.thy ===== *)
theory Ids
  imports PyValue "HOL-Library.Word"
begin

text \<open>
  \<^verbatim>\<open>engraphis/core/ids.py\<close>: ULID-style identifiers. The module's sequence state (last
  timestamp, last random part, process id) is a record; one call of \<open>ulid\<close> takes the clock,
  the process id and the 80 random bits it would read from the system and returns the
  identifier with the next state, or the exception. Lemmas: the identifiers have fixed
  length, their string order is the order of their (timestamp, random) pairs, and identifiers
  made by one process from timestamps that never go back are strictly increasing.
\<close>

unbundle bit_operations_syntax

section \<open>Encoding\<close>

definition CROCKFORD :: "char list" where
  "CROCKFORD = ''0123456789ABCDEFGHJKMNPQRSTVWXYZ''"

definition MAX_TIMESTAMP_MS :: int where
  "MAX_TIMESTAMP_MS = push_bit 48 1"

definition MAX_RANDOM :: int where
  "MAX_RANDOM = push_bit 80 1 - 1"

text \<open>The loop of \<open>_encode\<close> collects the low digit first; the result is reversed.\<close>

fun encode_loop :: "nat \<Rightarrow> nat \<Rightarrow> char list" where
  "encode_loop 0 v = []"
| "encode_loop (Suc k) v = CROCKFORD ! (v AND 31) # encode_loop k (drop_bit 5 v)"

definition encode :: "nat \<Rightarrow> nat \<Rightarrow> string" where
  "encode len v = rev (encode_loop len v)"

lemma CROCKFORD_length [simp]: "length CROCKFORD = 32"
  by (simp add: CROCKFORD_def)

lemma CROCKFORD_asc: "sorted_wrt (<) CROCKFORD"
  by (simp add: CROCKFORD_def less_char_def)

lemma low_digit: "(v::nat) AND 31 = v mod 32"
  using take_bit_eq_mask [of 5 v] by (simp add: take_bit_eq_mod mask_eq_exp_minus_1)

lemma next_digits: "drop_bit 5 (v::nat) = v div 32"
  by (simp add: drop_bit_eq_div)

interpretation crockford: digit_codec CROCKFORD encode
  by unfold_locales
    (simp_all add: CROCKFORD_asc encode_def low_digit next_digits)

section \<open>The generator\<close>

record ulid_state =
  last_timestamp_ms :: int
  last_random :: int
  last_pid :: int

definition reset_ulid_state_after_fork :: "int \<Rightarrow> ulid_state" where
  "reset_ulid_state_after_fork pid = \<lparr>last_timestamp_ms = -1, last_random = -1, last_pid = pid\<rparr>"

text \<open>The argument \<open>timestamp_ms\<close>: absent, an integer, or a value of another type.\<close>

datatype ts_arg = TsNone | TsInt int | TsOther

text \<open>
  What one call reads from its surroundings: the clock in milliseconds, the process id, and
  the number \<open>secrets.randbits(80)\<close> would return.
\<close>

record ulid_env =
  env_clock_ms :: int
  env_pid :: int
  env_randbits :: int

definition ulid :: "ulid_env \<Rightarrow> ts_arg \<Rightarrow> ulid_state \<Rightarrow> (string \<times> ulid_state) result" where
  "ulid E arg s =
     (case (case arg of TsNone \<Rightarrow> Some (env_clock_ms E) | TsInt t \<Rightarrow> Some t | TsOther \<Rightarrow> None) of
        None \<Rightarrow> Inl ValueError
      | Some ts \<Rightarrow>
          if \<not> (0 \<le> ts \<and> ts < MAX_TIMESTAMP_MS) then Inl ValueError
          else
            let s1 = (if env_pid E \<noteq> last_pid s
                      then \<lparr>last_timestamp_ms = -1, last_random = -1, last_pid = env_pid E\<rparr>
                      else s)
            in if ts = last_timestamp_ms s1 \<and> last_random s1 \<ge> MAX_RANDOM then Inl RuntimeError
               else
                 let rand = (if ts = last_timestamp_ms s1 then last_random s1 + 1
                             else env_randbits E)
                 in Inr (encode 10 (nat ts) @ encode 16 (nat rand),
                         s1\<lparr>last_timestamp_ms := ts, last_random := rand\<rparr>))"

definition PREFIXES :: "(string \<times> string) list" where
  "PREFIXES =
    [(''workspace'', ''ws''), (''repo'', ''repo''), (''session'', ''ses''), (''memory'', ''mem''),
     (''entity'', ''ent''), (''edge'', ''edg''), (''symbol'', ''sym''), (''event'', ''evt''),
     (''job'', ''job''), (''audit'', ''aud''), (''device'', ''dev''), (''receipt'', ''rcpt''),
     (''vault'', ''vlt''), (''source'', ''src'')]"

definition new_id ::
  "ulid_env \<Rightarrow> string \<Rightarrow> bool \<Rightarrow> bool option \<Rightarrow> ulid_state \<Rightarrow> (string \<times> ulid_state) result" where
  "new_id E kind allow_unsafe unsafe s =
     (let allow = (case unsafe of None \<Rightarrow> allow_unsafe | Some u \<Rightarrow> allow_unsafe \<or> u)
      in case map_of PREFIXES kind of
           None \<Rightarrow>
             if \<not> allow then Inl ValueError
             else rbind (ulid E TsNone s) (\<lambda>(u, s'). Inr (kind @ ''_'' @ u, s'))
         | Some p \<Rightarrow> rbind (ulid E TsNone s) (\<lambda>(u, s'). Inr (p @ ''_'' @ u, s')))"

definition assert_id_kind :: "string \<Rightarrow> string \<Rightarrow> string result" where
  "assert_id_kind v kind =
     (case map_of PREFIXES kind of
        None \<Rightarrow> Inl KeyError
      | Some p \<Rightarrow> if starts_with (p @ ''_'') v then Inr v else Inl ValueError)"

section \<open>Identifiers and their order\<close>

text \<open>
  The identifier a sequence state stands for, and the bounds the generator keeps on its
  state. A fresh or reset state holds \<open>-1\<close> in both fields.
\<close>

definition state_ulid :: "ulid_state \<Rightarrow> string" where
  "state_ulid s = encode 10 (nat (last_timestamp_ms s)) @ encode 16 (nat (last_random s))"

definition ulid_issued :: "ulid_state \<Rightarrow> bool" where
  "ulid_issued s \<longleftrightarrow>
     0 \<le> last_timestamp_ms s \<and> last_timestamp_ms s < MAX_TIMESTAMP_MS \<and>
     0 \<le> last_random s \<and> last_random s \<le> MAX_RANDOM"

definition ulid_state_ok :: "ulid_state \<Rightarrow> bool" where
  "ulid_state_ok s \<longleftrightarrow> ulid_issued s \<or> (last_timestamp_ms s = -1 \<and> last_random s = -1)"

definition env_ok :: "ulid_env \<Rightarrow> bool" where
  "env_ok E \<longleftrightarrow> 0 \<le> env_randbits E \<and> env_randbits E \<le> MAX_RANDOM"

fun request_ms :: "ulid_env \<times> ts_arg \<Rightarrow> int" where
  "request_ms (E, TsInt t) = t"
| "request_ms (E, _) = env_clock_ms E"

lemma MAX_TIMESTAMP_MS_eq: "MAX_TIMESTAMP_MS = 281474976710656"
  by (simp add: MAX_TIMESTAMP_MS_def push_bit_eq_mult)

lemma MAX_RANDOM_eq: "MAX_RANDOM = 1208925819614629174706175"
  by (simp add: MAX_RANDOM_def push_bit_eq_mult)

lemma timestamp_fits: "0 \<le> t \<Longrightarrow> t < MAX_TIMESTAMP_MS \<Longrightarrow> nat t < length CROCKFORD ^ 10"
  by (simp add: MAX_TIMESTAMP_MS_eq)

lemma random_fits: "0 \<le> r \<Longrightarrow> r \<le> MAX_RANDOM \<Longrightarrow> nat r < length CROCKFORD ^ 16"
  by (simp add: MAX_RANDOM_eq)

lemma ulid_result:
  assumes "ulid E arg s = Inr (u, s')" "ulid_state_ok s" "env_ok E"
  shows "u = state_ulid s'" "ulid_issued s'" "last_pid s' = env_pid E"
    and "last_timestamp_ms s' = request_ms (E, arg)"
  using assms
  by (cases arg; force simp: ulid_def state_ulid_def ulid_issued_def ulid_state_ok_def env_ok_def
      Let_def split: if_splits)+

lemma state_ulid_less_iff:
  assumes "ulid_issued s" "ulid_issued t"
  shows "state_ulid s < state_ulid t \<longleftrightarrow>
    (last_timestamp_ms s, last_random s) < (last_timestamp_ms t, last_random t)"
proof -
  have ts: "nat (last_timestamp_ms s) < length CROCKFORD ^ 10"
    "nat (last_timestamp_ms t) < length CROCKFORD ^ 10"
    and rand: "nat (last_random s) < length CROCKFORD ^ 16"
    "nat (last_random t) < length CROCKFORD ^ 16"
    using assms timestamp_fits random_fits unfolding ulid_issued_def by blast+
  show ?thesis
    using assms
    by (auto simp: state_ulid_def lex_append_less crockford.length_enc
        crockford.enc_less_iff [OF ts] crockford.enc_eq_iff [OF ts]
        crockford.enc_less_iff [OF rand] ulid_issued_def less_prod_def)
qed

lemma ulid_same_process_next:
  assumes "ulid E arg s = Inr (u, s')" "ulid_issued s" "env_ok E" "env_pid E = last_pid s"
    and "last_timestamp_ms s \<le> request_ms (E, arg)"
  shows "state_ulid s < u"
proof -
  have res: "u = state_ulid s'" "ulid_issued s'" "last_timestamp_ms s' = request_ms (E, arg)"
    using ulid_result [OF assms(1) _ assms(3)] assms(2) by (auto simp: ulid_state_ok_def)
  have "(last_timestamp_ms s, last_random s) < (last_timestamp_ms s', last_random s')"
  proof (cases "request_ms (E, arg) = last_timestamp_ms s")
    case True
    then have "last_random s' = last_random s + 1"
      using assms(1,4) by (cases arg) (auto simp: ulid_def Let_def split: if_splits)
    then show ?thesis using res(3) True by simp
  next
    case False
    then show ?thesis using res(3) assms(5) by simp
  qed
  then show ?thesis using state_ulid_less_iff [OF assms(2) res(2)] res(1) by simp
qed

text \<open>A run of calls in one process, stopping at the first exception.\<close>

fun ulids :: "(ulid_env \<times> ts_arg) list \<Rightarrow> ulid_state \<Rightarrow> string list result" where
  "ulids [] s = Inr []"
| "ulids ((E, arg) # rs) s =
     rbind (ulid E arg s) (\<lambda>(u, s'). rbind (ulids rs s') (\<lambda>us. Inr (u # us)))"

lemma ulids_above:
  assumes "ulids rs s = Inr us" "ulid_issued s"
    and "\<forall>(E, arg) \<in> set rs. env_ok E \<and> env_pid E = last_pid s"
    and "sorted (last_timestamp_ms s # map request_ms rs)"
  shows "sorted_wrt (<) (state_ulid s # us)"
  using assms
proof (induction rs arbitrary: s us)
  case Nil
  then show ?case by simp
next
  case (Cons r rs)
  obtain E arg where r: "r = (E, arg)" by (cases r)
  obtain u s' vs where call: "ulid E arg s = Inr (u, s')" and rest: "ulids rs s' = Inr vs"
    and us: "us = u # vs"
    using Cons.prems(1) r by (auto simp: rbind_eq_Inr_conv)
  have ok: "env_ok E" "env_pid E = last_pid s" using Cons.prems(3) r by auto
  have s': "u = state_ulid s'" "ulid_issued s'" "last_pid s' = last_pid s"
      "last_timestamp_ms s' = request_ms (E, arg)"
    using ulid_result [OF call _ ok(1)] Cons.prems(2) ok(2) by (auto simp: ulid_state_ok_def)
  have "state_ulid s < u"
    by (rule ulid_same_process_next [OF call Cons.prems(2) ok]) (use Cons.prems(4) r in simp)
  moreover have "sorted_wrt (<) (state_ulid s' # vs)"
    by (rule Cons.IH [OF rest s'(2)]) (use Cons.prems(3,4) r s'(3,4) in auto)
  ultimately show ?case
    using us s'(1) by (auto intro: less_trans)
qed

section \<open>Properties\<close>

text \<open>
  F: identifiers made by one process, from requests whose timestamps never go back, are
  strictly increasing strings of 26 characters, whatever random bits the system supplies.
\<close>

theorem ulids_increasing:
  assumes "ulids rs s = Inr us" "ulid_state_ok s"
    and "\<forall>(E, arg) \<in> set rs. env_ok E \<and> env_pid E = pid"
    and "sorted (map request_ms rs)"
    and "last_pid s = pid" "\<forall>r \<in> set rs. last_timestamp_ms s \<le> request_ms r"
  shows "sorted_wrt (<) us \<and> (\<forall>u \<in> set us. length u = 26)"
proof -
  have "sorted_wrt (<) us"
  proof (cases "ulid_issued s")
    case True
    have "sorted_wrt (<) (state_ulid s # us)"
      by (rule ulids_above [OF assms(1) True]) (use assms in auto)
    then show ?thesis by simp
  next
    case False
    show ?thesis
    proof (cases rs)
      case Nil
      then show ?thesis using assms(1) by simp
    next
      case (Cons r rs')
      obtain E arg where r: "r = (E, arg)" by (cases r)
      obtain u s' vs where call: "ulid E arg s = Inr (u, s')" and rest: "ulids rs' s' = Inr vs"
        and us: "us = u # vs"
        using assms(1) Cons r by (auto simp: rbind_eq_Inr_conv)
      have s': "u = state_ulid s'" "ulid_issued s'" "last_pid s' = pid"
          "last_timestamp_ms s' = request_ms (E, arg)"
        using ulid_result [OF call assms(2)] assms(3) Cons r by auto
      have "sorted_wrt (<) (state_ulid s' # vs)"
        by (rule ulids_above [OF rest s'(2)]) (use assms(3,4) Cons r s'(3,4) in auto)
      then show ?thesis using us s'(1) by simp
    qed
  qed
  moreover have "length u = 26" if "u \<in> set us" for u
    using assms(1) that
  proof (induction rs arbitrary: s us)
    case (Cons r rs)
    then show ?case
      by (cases r; cases "snd r")
        (auto simp: rbind_eq_Inr_conv ulid_def Let_def crockford.length_enc split: if_splits)
  qed simp
  ultimately show ?thesis by blast
qed

theorem ulids_increasing_witness:
  "\<exists>us. ulids [(\<lparr>env_clock_ms = 7, env_pid = 1, env_randbits = 3\<rparr>, TsNone),
              (\<lparr>env_clock_ms = 7, env_pid = 1, env_randbits = 0\<rparr>, TsNone),
              (\<lparr>env_clock_ms = 9, env_pid = 1, env_randbits = 2\<rparr>, TsInt 8)]
          (reset_ulid_state_after_fork 1) = Inr us \<and> length us = 3 \<and> sorted_wrt (<) us"
proof -
  let ?rs = "[(\<lparr>env_clock_ms = 7, env_pid = 1, env_randbits = 3\<rparr>, TsNone),
              (\<lparr>env_clock_ms = 7, env_pid = 1, env_randbits = 0\<rparr>, TsNone),
              (\<lparr>env_clock_ms = 9, env_pid = 1, env_randbits = 2\<rparr>, TsInt 8)]"
  let ?s = "reset_ulid_state_after_fork 1"
  obtain us where us: "ulids ?rs ?s = Inr us" "length us = 3"
    by (simp add: ulid_def reset_ulid_state_after_fork_def MAX_TIMESTAMP_MS_eq MAX_RANDOM_eq)
  have "sorted_wrt (<) us"
    using ulids_increasing [OF us(1), of 1]
    by (simp add: ulid_state_ok_def reset_ulid_state_after_fork_def env_ok_def MAX_RANDOM_eq)
  with us show ?thesis by blast
qed

text \<open>
  F: the guarantee stops when the clock goes back: in one process, two identifiers issued
  for the same millisecond need not be increasing when a call with an earlier timestamp came
  between them, because the sequence state remembers the last timestamp only.
\<close>

theorem ulid_rollback_not_monotonic:
  "\<exists>u1 u2 u3. ulids [(\<lparr>env_clock_ms = 5, env_pid = 1, env_randbits = 9\<rparr>, TsNone),
                    (\<lparr>env_clock_ms = 4, env_pid = 1, env_randbits = 9\<rparr>, TsNone),
                    (\<lparr>env_clock_ms = 5, env_pid = 1, env_randbits = 2\<rparr>, TsNone)]
                (reset_ulid_state_after_fork 1) = Inr [u1, u2, u3] \<and>
     take 10 u1 = take 10 u3 \<and> u3 < u1"
  by (simp add: ulid_def reset_ulid_state_after_fork_def MAX_TIMESTAMP_MS_eq MAX_RANDOM_eq
      lex_append_less crockford.length_enc crockford.enc_less_iff)

lemma prefixes_distinct: "distinct (map fst PREFIXES)" "distinct (map snd PREFIXES)"
  by (simp_all add: PREFIXES_def)

lemma prefix_unique:
  assumes "CHR ''_'' \<notin> set p" "CHR ''_'' \<notin> set q" "starts_with (q @ ''_'') (p @ ''_'' @ u)"
  shows "q = p"
proof -
  obtain r where "p @ CHR ''_'' # u = q @ CHR ''_'' # r"
    using assms(3) by (auto simp: starts_with_iff)
  then have "takeWhile (\<lambda>c. c \<noteq> CHR ''_'') (p @ CHR ''_'' # u) =
      takeWhile (\<lambda>c. c \<noteq> CHR ''_'') (q @ CHR ''_'' # r)"
    by simp
  then show ?thesis using assms(1,2) by (auto simp: takeWhile_append split: if_splits)
qed

lemma PREFIXES_no_underscore: "map_of PREFIXES kind = Some p \<Longrightarrow> CHR ''_'' \<notin> set p"
  by (auto simp: PREFIXES_def split: if_splits)

lemma PREFIXES_injective:
  "map_of PREFIXES k = Some p \<Longrightarrow> map_of PREFIXES k' = Some p \<Longrightarrow> k' = k"
  using prefixes_distinct(2) map_of_SomeD [of PREFIXES k p] map_of_SomeD [of PREFIXES k' p]
  by (fastforce simp: distinct_map inj_on_def)

text \<open>
  F: an identifier minted for a known kind passes the check for that kind, and fails the
  check for every other known kind: no two kinds' identifiers can be confused.
\<close>

theorem new_id_kind_checked:
  assumes "new_id E kind a un s = Inr (v, s')" "map_of PREFIXES kind \<noteq> None"
    and "map_of PREFIXES other \<noteq> None"
  shows "assert_id_kind v other = (if other = kind then Inr v else Inl ValueError)"
proof -
  obtain p q where p: "map_of PREFIXES kind = Some p" and q: "map_of PREFIXES other = Some q"
    using assms(2,3) by auto
  obtain u where v: "v = p @ ''_'' @ u"
    using assms(1) p by (auto simp: new_id_def Let_def rbind_eq_Inr_conv)
  show ?thesis
  proof (cases "other = kind")
    case True
    then show ?thesis using p q v by (auto simp: assert_id_kind_def starts_with_iff)
  next
    case False
    then have "q \<noteq> p" using PREFIXES_injective p q by blast
    then have "\<not> starts_with (q @ ''_'') v"
      using prefix_unique PREFIXES_no_underscore p q v by blast
    then show ?thesis using False q by (simp add: assert_id_kind_def)
  qed
qed

theorem new_id_kind_checked_witness:
  "\<exists>v s'. new_id \<lparr>env_clock_ms = 7, env_pid = 1, env_randbits = 3\<rparr> ''memory'' False None
            (reset_ulid_state_after_fork 1) = Inr (v, s') \<and>
     assert_id_kind v ''memory'' = Inr v \<and> assert_id_kind v ''device'' = Inl ValueError"
proof -
  let ?call = "new_id \<lparr>env_clock_ms = 7, env_pid = 1, env_randbits = 3\<rparr> ''memory'' False None
            (reset_ulid_state_after_fork 1)"
  obtain v s' where call: "?call = Inr (v, s')"
    by (simp add: new_id_def ulid_def reset_ulid_state_after_fork_def MAX_TIMESTAMP_MS_eq
        PREFIXES_def)
  show ?thesis
    using new_id_kind_checked [OF call, of "''memory''"]
      new_id_kind_checked [OF call, of "''device''"] call
    by (simp add: PREFIXES_def)
qed

end
