(* ===== verification/Hlc.thy ===== *)
theory Hlc
  imports Ids
begin

text \<open>
  The hybrid logical clock of \<^verbatim>\<open>engraphis/core/interfaces.py\<close>: canonical clock strings
  (twelve hexadecimal digits of milliseconds, eight of a logical counter, the device id),
  their parser, printer and the advance operation. Lemmas: parser and printer are inverse to
  each other, the order of the strings is the order of the triples they denote, and an
  advance is above both clocks it saw and never below the wall clock.
\<close>

section \<open>Canonical strings\<close>

definition HEX :: "char list" where
  "HEX = ''0123456789ABCDEF''"

definition MAX_HLC_PHYSICAL_MS :: int where
  "MAX_HLC_PHYSICAL_MS = push_bit 48 1 - 1"

definition MAX_HLC_LOGICAL :: int where
  "MAX_HLC_LOGICAL = push_bit 32 1 - 1"

text \<open>The pattern \<open>dev_[0-9A-HJKMNPQRSTVWXYZ]{26}\<close>, then the whole \<open>_MODIFIED_HLC_RE\<close>.\<close>

definition device_match :: "string \<Rightarrow> bool" where
  "device_match d \<longleftrightarrow>
     length d = 30 \<and> take 4 d = ''dev_'' \<and> list_all (\<lambda>c. c \<in> set CROCKFORD) (drop 4 d)"

definition hlc_match :: "string \<Rightarrow> bool" where
  "hlc_match v \<longleftrightarrow>
     length v = 52 \<and>
     list_all (\<lambda>c. c \<in> set HEX) (take 12 v) \<and> take 1 (drop 12 v) = '':'' \<and>
     list_all (\<lambda>c. c \<in> set HEX) (take 8 (drop 13 v)) \<and> take 1 (drop 21 v) = '':'' \<and>
     device_match (drop 22 v)"

text \<open>\<open>int(s, 16)\<close> on the matched digits.\<close>

definition hex_value :: "string \<Rightarrow> int" where
  "hex_value s = int (digits_value HEX s)"

definition parse_modified_hlc :: "bool \<Rightarrow> string \<Rightarrow> (int \<times> int \<times> string) result" where
  "parse_modified_hlc allow_empty v =
     (if allow_empty \<and> v = [] then Inr (0, 0, [])
      else if \<not> hlc_match v then Inl ValueError
      else Inr (hex_value (take 12 v), hex_value (take 8 (drop 13 v)), drop 22 v))"

text \<open>
  Upper-case hexadecimal with a minimum width, as the format codes \<open>012X\<close> and \<open>08X\<close> print
  a non-negative integer.
\<close>

fun hex_digits :: "nat \<Rightarrow> string" where
  "hex_digits n = (if n < 16 then [HEX ! n] else hex_digits (n div 16) @ [HEX ! (n mod 16)])"

declare hex_digits.simps [simp del]

definition hex_pad :: "nat \<Rightarrow> nat \<Rightarrow> string" where
  "hex_pad w n = replicate (w - length (hex_digits n)) (CHR ''0'') @ hex_digits n"

definition format_modified_hlc :: "int \<Rightarrow> int \<Rightarrow> string \<Rightarrow> string result" where
  "format_modified_hlc physical_ms logical node_id =
     (if \<not> (0 \<le> physical_ms \<and> physical_ms \<le> MAX_HLC_PHYSICAL_MS) then Inl ValueError
      else if \<not> (0 \<le> logical \<and> logical \<le> MAX_HLC_LOGICAL) then Inl ValueError
      else
        let candidate = hex_pad 12 (nat physical_ms) @ '':'' @ hex_pad 8 (nat logical)
                        @ '':'' @ node_id
        in rbind (parse_modified_hlc False candidate) (\<lambda>_. Inr candidate))"

definition advance_modified_hlc :: "string \<Rightarrow> string \<Rightarrow> string \<Rightarrow> int \<Rightarrow> string result" where
  "advance_modified_hlc current observed node_id now_ms =
     rbind (parse_modified_hlc True current) (\<lambda>(current_physical, current_logical, _).
     rbind (parse_modified_hlc True observed) (\<lambda>(observed_physical, observed_logical, _).
     if \<not> (0 \<le> now_ms \<and> now_ms \<le> MAX_HLC_PHYSICAL_MS) then Inl ValueError
     else
       let physical = max now_ms (max current_physical observed_physical);
           logical =
             (if physical = current_physical \<and> current_physical = observed_physical
              then max current_logical observed_logical + 1
              else if physical = current_physical then current_logical + 1
              else if physical = observed_physical then observed_logical + 1
              else 0)
       in if logical > MAX_HLC_LOGICAL then
            (if physical \<ge> MAX_HLC_PHYSICAL_MS then Inl OverflowError
             else format_modified_hlc (physical + 1) 0 node_id)
          else format_modified_hlc physical logical node_id))"

definition normalize_modified_hlc :: "bool \<Rightarrow> string \<Rightarrow> string result" where
  "normalize_modified_hlc allow_empty v =
     rbind (parse_modified_hlc allow_empty v) (\<lambda>_. Inr v)"

section \<open>Fixed-width hexadecimal\<close>

fun hex_fixed :: "nat \<Rightarrow> nat \<Rightarrow> string" where
  "hex_fixed 0 v = []"
| "hex_fixed (Suc k) v = hex_fixed k (v div 16) @ [HEX ! (v mod 16)]"

lemma HEX_length [simp]: "length HEX = 16"
  by (simp add: HEX_def)

lemma HEX_asc: "sorted_wrt (<) HEX"
  by (simp add: HEX_def less_char_def)

interpretation hex: digit_codec HEX hex_fixed
  by unfold_locales (simp_all add: HEX_asc)

lemma hex_fixed_zero: "hex_fixed k 0 = replicate k (CHR ''0'')"
  by (induction k) (simp_all add: HEX_def replicate_append_same)

lemma hex_digits_fixed:
  "n < 16 ^ k \<Longrightarrow> length (hex_digits n) \<le> max 1 k \<and>
    (0 < k \<longrightarrow> replicate (k - length (hex_digits n)) (CHR ''0'') @ hex_digits n = hex_fixed k n)"
proof (induction k arbitrary: n)
  case 0
  then show ?case by (simp add: hex_digits.simps)
next
  case (Suc k)
  show ?case
  proof (cases "n < 16")
    case True
    then show ?thesis
      by (simp add: hex_digits.simps [of n] hex_fixed_zero)
  next
    case False
    have q: "n div 16 < 16 ^ k" using Suc.prems by (simp add: less_mult_imp_div_less)
    moreover have "0 < k"
    proof (rule ccontr)
      assume "\<not> 0 < k"
      then show False using q False by simp
    qed
    ultimately show ?thesis
      using Suc.IH [OF q] False by (simp add: hex_digits.simps [of n])
  qed
qed

lemma hex_pad_fixed: "n < 16 ^ k \<Longrightarrow> 0 < k \<Longrightarrow> hex_pad k n = hex_fixed k n"
  using hex_digits_fixed [of n k] by (simp add: hex_pad_def)

lemma physical_fits: "0 \<le> p \<Longrightarrow> p \<le> MAX_HLC_PHYSICAL_MS \<Longrightarrow> nat p < 16 ^ 12"
  by (simp add: MAX_HLC_PHYSICAL_MS_def push_bit_eq_mult)

lemma logical_fits: "0 \<le> l \<Longrightarrow> l \<le> MAX_HLC_LOGICAL \<Longrightarrow> nat l < 16 ^ 8"
  by (simp add: MAX_HLC_LOGICAL_def push_bit_eq_mult)

section \<open>Printing, parsing and order\<close>

text \<open>The canonical string of a triple, in the form the parser takes apart.\<close>

definition hlc_string :: "int \<Rightarrow> int \<Rightarrow> string \<Rightarrow> string" where
  "hlc_string p l n = hex_fixed 12 (nat p) @ '':'' @ hex_fixed 8 (nat l) @ '':'' @ n"

definition hlc_domain :: "int \<Rightarrow> int \<Rightarrow> string \<Rightarrow> bool" where
  "hlc_domain p l n \<longleftrightarrow>
     0 \<le> p \<and> p \<le> MAX_HLC_PHYSICAL_MS \<and> 0 \<le> l \<and> l \<le> MAX_HLC_LOGICAL \<and> device_match n"

lemma hex_fixed_all: "list_all (\<lambda>c. c \<in> set HEX) (hex_fixed k v)"
  using hex.set_enc [of k v] by (auto simp: list_all_iff)

lemma parse_hlc_string:
  assumes "hlc_domain p l n"
  shows "parse_modified_hlc b (hlc_string p l n) = Inr (p, l, n)"
proof -
  have "nat p < length HEX ^ 12" "nat l < length HEX ^ 8"
    using assms physical_fits logical_fits unfolding hlc_domain_def HEX_length by blast+
  then have "hex_value (hex_fixed 12 (nat p)) = p" "hex_value (hex_fixed 8 (nat l)) = l"
    using assms by (auto simp: hex_value_def hex.dec_enc hlc_domain_def)
  moreover have "length (hex_fixed 12 (nat p)) = 12" "length (hex_fixed 8 (nat l)) = 8"
    by (simp_all only: hex.length_enc)
  ultimately show ?thesis
    using assms hex_fixed_all
    by (simp add: parse_modified_hlc_def hlc_match_def hlc_string_def hlc_domain_def
        device_match_def)
qed

lemma device_match_nonempty: "device_match n \<Longrightarrow> n \<noteq> []"
  by (auto simp: device_match_def)

lemma format_hlc:
  "format_modified_hlc p l n = (if hlc_domain p l n then Inr (hlc_string p l n) else Inl ValueError)"
proof (cases "0 \<le> p \<and> p \<le> MAX_HLC_PHYSICAL_MS \<and> 0 \<le> l \<and> l \<le> MAX_HLC_LOGICAL")
  case True
  then have str: "hex_pad 12 (nat p) @ '':'' @ hex_pad 8 (nat l) @ '':'' @ n = hlc_string p l n"
    using hex_pad_fixed [OF physical_fits, of p] hex_pad_fixed [OF logical_fits, of l]
    by (simp add: hlc_string_def)
  show ?thesis
  proof (cases "device_match n")
    case True': True
    then have "hlc_domain p l n" using True by (simp add: hlc_domain_def)
    then show ?thesis
      using True str parse_hlc_string [of p l n False] by (simp add: format_modified_hlc_def)
  next
    case False
    have "drop 22 (hlc_string p l n) = n"
      by (simp add: hlc_string_def hex.length_enc)
    then have "\<not> hlc_match (hlc_string p l n)" using False by (auto simp: hlc_match_def)
    then show ?thesis
      using False True str by (simp add: format_modified_hlc_def parse_modified_hlc_def hlc_domain_def)
  qed
next
  case False
  then show ?thesis by (auto simp: format_modified_hlc_def hlc_domain_def)
qed

lemma hlc_match_string:
  assumes "hlc_match v"
  obtains p l n where "hlc_domain p l n" "v = hlc_string p l n"
proof -
  let ?p = "hex_value (take 12 v)" and ?l = "hex_value (take 8 (drop 13 v))"
  let ?n = "drop 22 v"
  have m: "length v = 52" "set (take 12 v) \<subseteq> set HEX" "take 1 (drop 12 v) = '':''"
      "set (take 8 (drop 13 v)) \<subseteq> set HEX" "take 1 (drop 21 v) = '':''" "device_match ?n"
    using assms by (auto simp: hlc_match_def list_all_iff)
  have "digits_value HEX (take 12 v) < 16 ^ 12" "digits_value HEX (take 8 (drop 13 v)) < 16 ^ 8"
    using digits_value_bound [OF m(2)] digits_value_bound [OF m(4)] m(1) by simp_all
  then have "hlc_domain ?p ?l ?n"
    using m(6) by (simp add: hlc_domain_def hex_value_def MAX_HLC_PHYSICAL_MS_def
        MAX_HLC_LOGICAL_def push_bit_eq_mult)
  moreover have "v = hlc_string ?p ?l ?n"
  proof -
    have "drop 13 v = take 8 (drop 13 v) @ take 1 (drop 21 v) @ drop 22 v"
      using split_at [of "drop 13 v" 8 1] by simp
    moreover have "v = take 12 v @ take 1 (drop 12 v) @ drop 13 v"
      using split_at [of v 12 1] by simp
    ultimately have "v = take 12 v @ take 1 (drop 12 v) @ take 8 (drop 13 v) @
        take 1 (drop 21 v) @ drop 22 v"
      by metis
    then show ?thesis
      using hex.enc_dec [OF m(2)] hex.enc_dec [OF m(4)] m(1,3,5)
      by (simp add: hlc_string_def hex_value_def)
  qed
  ultimately show thesis by (rule that)
qed

lemma hlc_string_match: "hlc_domain p l n \<Longrightarrow> hlc_match (hlc_string p l n)"
  using parse_hlc_string [of p l n False] by (auto simp: parse_modified_hlc_def split: if_splits)

lemma parse_hlc_Inr:
  assumes "parse_modified_hlc b v = Inr (p, l, n)"
  shows "(b \<and> v = [] \<and> p = 0 \<and> l = 0 \<and> n = []) \<or> (hlc_domain p l n \<and> v = hlc_string p l n)"
proof (cases "b \<and> v = []")
  case True
  then show ?thesis using assms by (simp add: parse_modified_hlc_def)
next
  case False
  then have "hlc_match v" using assms by (auto simp: parse_modified_hlc_def split: if_splits)
  then obtain p' l' n' where "hlc_domain p' l' n'" "v = hlc_string p' l' n'"
    by (rule hlc_match_string)
  then show ?thesis using assms parse_hlc_string [of p' l' n' b] by auto
qed

lemma hlc_string_less_iff:
  assumes "hlc_domain p l n" "hlc_domain p' l' n'"
  shows "hlc_string p l n < hlc_string p' l' n' \<longleftrightarrow> (p, l, n) < (p', l', n')"
proof -
  have ps: "nat p < length HEX ^ 12" "nat p' < length HEX ^ 12"
    and ls: "nat l < length HEX ^ 8" "nat l' < length HEX ^ 8"
    using assms physical_fits logical_fits unfolding hlc_domain_def HEX_length by blast+
  have nonneg: "0 \<le> p" "0 \<le> p'" "0 \<le> l" "0 \<le> l'" using assms by (auto simp: hlc_domain_def)
  have "hex_fixed 12 (nat p) < hex_fixed 12 (nat p') \<longleftrightarrow> p < p'"
    "hex_fixed 12 (nat p) = hex_fixed 12 (nat p') \<longleftrightarrow> p = p'"
    "hex_fixed 8 (nat l) < hex_fixed 8 (nat l') \<longleftrightarrow> l < l'"
    "hex_fixed 8 (nat l) = hex_fixed 8 (nat l') \<longleftrightarrow> l = l'"
    using hex.enc_less_iff [OF ps] hex.enc_eq_iff [OF ps] hex.enc_less_iff [OF ls]
      hex.enc_eq_iff [OF ls] nonneg by linarith+
  moreover have "length (hex_fixed 12 (nat p)) = length (hex_fixed 12 (nat p'))"
    "length (hex_fixed 8 (nat l)) = length (hex_fixed 8 (nat l'))"
    by (simp_all only: hex.length_enc)
  ultimately show ?thesis
    by (auto simp only: hlc_string_def lex_append_less less_prod_simp append_Cons append_Nil
        Cons_less_Cons less_irrefl simp_thms)
qed

lemma hlc_string_nonempty: "hlc_domain p l n \<Longrightarrow> hlc_string p l n \<noteq> []"
  by (auto simp: hlc_string_def)

section \<open>Advancing\<close>

lemma parse_bounds:
  assumes "parse_modified_hlc True v = Inr (p, l, n)"
  shows "0 \<le> p" "p \<le> MAX_HLC_PHYSICAL_MS" "0 \<le> l" "l \<le> MAX_HLC_LOGICAL"
  using parse_hlc_Inr [OF assms]
  by (auto simp: hlc_domain_def MAX_HLC_PHYSICAL_MS_def MAX_HLC_LOGICAL_def push_bit_eq_mult)

text \<open>A clock read by the parser is below a canonical string with a later (time, counter).\<close>

lemma parsed_below:
  assumes "parse_modified_hlc True v = Inr (p, l, n)" "hlc_domain p' l' n'" "(p, l) < (p', l')"
  shows "v < hlc_string p' l' n'"
  using parse_hlc_Inr [OF assms(1)]
proof
  assume "True \<and> v = [] \<and> p = 0 \<and> l = 0 \<and> n = []"
  then show ?thesis using hlc_string_nonempty [OF assms(2)] by (cases "hlc_string p' l' n'") auto
next
  assume v: "hlc_domain p l n \<and> v = hlc_string p l n"
  then show ?thesis
    using hlc_string_less_iff [OF _ assms(2), of p l n] assms(3) by (auto simp: less_prod_def)
qed

text \<open>The (time, counter) pair an advance installs.\<close>

definition advance_pair :: "int \<times> int \<Rightarrow> int \<times> int \<Rightarrow> int \<Rightarrow> int \<times> int" where
  "advance_pair c ob now =
     (let physical = max now (max (fst c) (fst ob));
          logical =
             (if physical = fst c \<and> fst c = fst ob then max (snd c) (snd ob) + 1
              else if physical = fst c then snd c + 1
              else if physical = fst ob then snd ob + 1
              else 0)
      in if logical > MAX_HLC_LOGICAL then (physical + 1, 0) else (physical, logical))"

lemma advance_eq:
  assumes "parse_modified_hlc True cur = Inr (pc, lc, nc)"
    and "parse_modified_hlc True obs = Inr (po, lo, no)"
    and "0 \<le> now" "now \<le> MAX_HLC_PHYSICAL_MS"
  shows "advance_modified_hlc cur obs node now =
    (let (p, l) = advance_pair (pc, lc) (po, lo) now
     in if p > MAX_HLC_PHYSICAL_MS then Inl OverflowError else format_modified_hlc p l node)"
proof -
  have "max now (max pc po) \<le> MAX_HLC_PHYSICAL_MS"
    using parse_bounds [OF assms(1)] parse_bounds [OF assms(2)] assms(4) by simp
  then show ?thesis
    using assms by (auto simp: advance_modified_hlc_def advance_pair_def Let_def)
qed

lemma advance_pair_above:
  "c < advance_pair c ob now \<and> ob < advance_pair c ob now \<and> now \<le> fst (advance_pair c ob now)"
  by (cases c; cases ob) (auto simp: advance_pair_def Let_def max_def)

lemma advance_pair_range:
  assumes "0 \<le> snd c" "0 \<le> snd ob" "0 \<le> now"
  shows "0 \<le> fst (advance_pair c ob now)" "0 \<le> snd (advance_pair c ob now)"
    "snd (advance_pair c ob now) \<le> MAX_HLC_LOGICAL"
    "fst (advance_pair c ob now) \<le> max now (max (fst c) (fst ob)) + 1"
proof -
  have "0 \<le> MAX_HLC_LOGICAL" by (simp add: MAX_HLC_LOGICAL_def push_bit_eq_mult)
  then show "0 \<le> fst (advance_pair c ob now)" "0 \<le> snd (advance_pair c ob now)"
    "snd (advance_pair c ob now) \<le> MAX_HLC_LOGICAL"
    "fst (advance_pair c ob now) \<le> max now (max (fst c) (fst ob)) + 1"
    using assms by (auto simp: advance_pair_def Let_def)
qed

lemma advance_Inr:
  assumes "advance_modified_hlc cur obs node now = Inr v"
  obtains pc lc nc po lo no where
    "parse_modified_hlc True cur = Inr (pc, lc, nc)" "parse_modified_hlc True obs = Inr (po, lo, no)"
    "0 \<le> now" "now \<le> MAX_HLC_PHYSICAL_MS"
  using assms by (auto simp: advance_modified_hlc_def rbind_eq_Inr_conv split: if_splits)

lemma advance_result:
  assumes "advance_modified_hlc cur obs node now = Inr v"
  obtains p l pc lc nc po lo no where
    "parse_modified_hlc True cur = Inr (pc, lc, nc)" "parse_modified_hlc True obs = Inr (po, lo, no)"
    "hlc_domain p l node" "v = hlc_string p l node" "(pc, lc) < (p, l)" "(po, lo) < (p, l)"
    "now \<le> p" "p \<le> max now (max pc po) + 1"
proof -
  obtain pc lc nc po lo no where
    cur: "parse_modified_hlc True cur = Inr (pc, lc, nc)" and
    obs: "parse_modified_hlc True obs = Inr (po, lo, no)" and
    now: "0 \<le> now" "now \<le> MAX_HLC_PHYSICAL_MS"
    using advance_Inr [OF assms] by metis
  obtain p l where pl: "advance_pair (pc, lc) (po, lo) now = (p, l)" by fastforce
  have v: "format_modified_hlc p l node = Inr v"
    using assms pl by (simp add: advance_eq [OF cur obs now] split: if_splits)
  show ?thesis
  proof (rule that [OF cur obs])
    show "hlc_domain p l node" "v = hlc_string p l node"
      using v by (auto simp: format_hlc split: if_splits)
    show "(pc, lc) < (p, l)" "(po, lo) < (p, l)" "now \<le> p"
      using advance_pair_above [of "(pc, lc)" "(po, lo)" now] pl by auto
    show "p \<le> max now (max pc po) + 1"
      using advance_pair_range(4) [of "(pc, lc)" "(po, lo)" now] parse_bounds [OF cur]
        parse_bounds [OF obs] now pl by simp
  qed
qed

text \<open>The new clock is canonical, and above both it was computed from.\<close>

lemma advance_canonical:
  assumes "advance_modified_hlc cur obs node now = Inr v"
  shows "normalize_modified_hlc b v = Inr v" "cur < v" "obs < v" "v \<noteq> []"
  by (rule advance_result [OF assms];
      auto simp: normalize_modified_hlc_def parse_hlc_string hlc_string_nonempty intro: parsed_below)+

section \<open>Properties\<close>

text \<open>
  C25: printing and parsing a clock are inverse to each other: a triple prints to \<open>v\<close> exactly
  when \<open>v\<close> parses to that triple, so canonical strings and in-range triples with a device
  identity correspond one to one, and everything else is rejected on both sides.
\<close>

theorem hlc_format_parse:
  "format_modified_hlc p l n = Inr v \<longleftrightarrow> parse_modified_hlc False v = Inr (p, l, n)"
  using parse_hlc_string [of p l n False] parse_hlc_Inr [of False v p l n]
  by (auto simp: format_hlc split: if_splits)

text \<open>
  F: the string order of canonical clocks, which the store and the merge compare, is the
  lexicographic order of (milliseconds, counter, device).
\<close>

theorem hlc_order_is_lexicographic:
  assumes "parse_modified_hlc False v = Inr a" "parse_modified_hlc False w = Inr b"
  shows "v < w \<longleftrightarrow> a < b"
proof -
  obtain p l n p' l' n' where ab: "a = (p, l, n)" "b = (p', l', n')" by (cases a; cases b)
  show ?thesis
    using parse_hlc_Inr [OF assms(1) [unfolded ab]] parse_hlc_Inr [OF assms(2) [unfolded ab]] ab
    by (auto simp: hlc_string_less_iff)
qed

text \<open>Concrete clocks for the witnesses: two devices, the first one ahead.\<close>

definition dev_a :: string where
  "dev_a = ''dev_'' @ replicate 26 (CHR ''A'')"

definition dev_b :: string where
  "dev_b = ''dev_'' @ replicate 26 (CHR ''B'')"

lemma dev_match [simp]: "device_match dev_a" "device_match dev_b"
  by (simp_all add: device_match_def dev_a_def dev_b_def CROCKFORD_def eval_nat_numeral)

lemma domain_example: "0 \<le> p \<Longrightarrow> p < 1000 \<Longrightarrow> 0 \<le> l \<Longrightarrow> l < 1000 \<Longrightarrow> device_match n \<Longrightarrow> hlc_domain p l n"
  by (simp add: hlc_domain_def MAX_HLC_PHYSICAL_MS_def MAX_HLC_LOGICAL_def push_bit_eq_mult)

lemma MAX_HLC_eqs: "MAX_HLC_PHYSICAL_MS = 281474976710655" "MAX_HLC_LOGICAL = 4294967295"
  by (simp_all add: MAX_HLC_PHYSICAL_MS_def MAX_HLC_LOGICAL_def push_bit_eq_mult)

theorem hlc_order_witness:
  "parse_modified_hlc False (hlc_string 7 2 dev_a) = Inr (7, 2, dev_a) \<and>
   parse_modified_hlc False (hlc_string 7 3 dev_b) = Inr (7, 3, dev_b) \<and>
   hlc_string 7 2 dev_a < hlc_string 7 3 dev_b"
proof -
  have p: "parse_modified_hlc False (hlc_string 7 2 dev_a) = Inr (7, 2, dev_a)"
    "parse_modified_hlc False (hlc_string 7 3 dev_b) = Inr (7, 3, dev_b)"
    by (simp_all add: parse_hlc_string domain_example)
  show ?thesis using hlc_order_is_lexicographic [OF p] p by simp
qed

text \<open>
  C24: an advanced clock is strictly above the current and the observed clock in the order of
  their strings, carries the local device, is never behind the wall clock, and runs ahead of
  everything it saw by at most one millisecond, even when the wall clock has gone back.
\<close>

theorem advance_above:
  assumes "advance_modified_hlc cur obs node now = Inr v"
  shows "cur < v \<and> obs < v \<and>
    (\<exists>p l pc lc nc po lo no.
       parse_modified_hlc False v = Inr (p, l, node) \<and>
       parse_modified_hlc True cur = Inr (pc, lc, nc) \<and>
       parse_modified_hlc True obs = Inr (po, lo, no) \<and>
       now \<le> p \<and> p \<le> max now (max pc po) + 1)"
  using assms
proof (rule advance_result)
  fix p l pc lc nc po lo no
  assume r: "parse_modified_hlc True cur = Inr (pc, lc, nc)"
      "parse_modified_hlc True obs = Inr (po, lo, no)"
    and dom: "hlc_domain p l node" "v = hlc_string p l node"
    and above: "(pc, lc) < (p, l)" "(po, lo) < (p, l)" "now \<le> p" "p \<le> max now (max pc po) + 1"
  have "parse_modified_hlc False v = Inr (p, l, node)"
    unfolding dom(2) by (rule parse_hlc_string [OF dom(1)])
  then show ?thesis
    using parsed_below [OF r(1) dom(1) above(1)] parsed_below [OF r(2) dom(1) above(2)]
      dom(2) above(3,4) r by blast
qed

theorem advance_above_witness:
  "\<exists>v. advance_modified_hlc (hlc_string 7 2 dev_a) (hlc_string 9 1 dev_b) dev_a 5 = Inr v \<and>
     hlc_string 7 2 dev_a < v \<and> hlc_string 9 1 dev_b < v"
proof -
  have "advance_modified_hlc (hlc_string 7 2 dev_a) (hlc_string 9 1 dev_b) dev_a 5 =
      Inr (hlc_string 9 2 dev_a)"
    by (simp add: advance_modified_hlc_def parse_hlc_string domain_example MAX_HLC_eqs format_hlc)
  then show ?thesis using advance_above by blast
qed

text \<open>
  F: on well-formed clocks an advance fails only in the last instant of the representable
  domain: the maximal millisecond with the counter used up raises \<open>OverflowError\<close>, and every
  other advance returns a clock.
\<close>

theorem advance_fails_only_when_exhausted:
  assumes "parse_modified_hlc True cur = Inr (pc, lc, nc)"
    and "parse_modified_hlc True obs = Inr (po, lo, no)"
    and "0 \<le> now" "now \<le> MAX_HLC_PHYSICAL_MS" "device_match node"
  shows "(\<exists>v. advance_modified_hlc cur obs node now = Inr v) \<or>
    advance_modified_hlc cur obs node now = Inl OverflowError \<and>
    max pc po = MAX_HLC_PHYSICAL_MS \<and>
    (pc = max pc po \<and> lc = MAX_HLC_LOGICAL \<or> po = max pc po \<and> lo = MAX_HLC_LOGICAL)"
proof -
  obtain p l where pl: "advance_pair (pc, lc) (po, lo) now = (p, l)" by fastforce
  note b = parse_bounds [OF assms(1)] parse_bounds [OF assms(2)]
  show ?thesis
  proof (cases "p > MAX_HLC_PHYSICAL_MS")
    case True
    then show ?thesis
      using b assms(4) pl
      by (auto simp: advance_eq [OF assms(1-4)] advance_pair_def Let_def max_def split: if_splits)
  next
    case False
    then have "hlc_domain p l node"
      using advance_pair_range [of "(pc, lc)" "(po, lo)" now] b assms(3,5) pl
      by (simp add: hlc_domain_def)
    then show ?thesis
      using False pl by (simp add: advance_eq [OF assms(1-4)] format_hlc)
  qed
qed

theorem advance_exhausted_witness:
  "advance_modified_hlc (hlc_string MAX_HLC_PHYSICAL_MS MAX_HLC_LOGICAL dev_a) [] dev_a 5 =
     Inl OverflowError"
proof -
  have dom: "hlc_domain MAX_HLC_PHYSICAL_MS MAX_HLC_LOGICAL dev_a"
    by (simp add: hlc_domain_def MAX_HLC_eqs)
  have "parse_modified_hlc True (hlc_string 281474976710655 4294967295 dev_a) =
      Inr (281474976710655, 4294967295, dev_a)"
    using parse_hlc_string [OF dom] by (simp add: MAX_HLC_eqs)
  then have "\<not> (\<exists>v. advance_modified_hlc (hlc_string MAX_HLC_PHYSICAL_MS MAX_HLC_LOGICAL dev_a) []
      dev_a 5 = Inr v)"
    by (simp add: advance_modified_hlc_def parse_modified_hlc_def [of True "[]"] MAX_HLC_eqs)
  then show ?thesis
    using advance_fails_only_when_exhausted [OF parse_hlc_string [OF dom], of "[]" 0 0 "[]" 5 dev_a]
    by (simp add: parse_modified_hlc_def MAX_HLC_eqs)
qed

end
