(* ===== verification/Records.thy ===== *)
theory Records
  imports Hlc
begin

text \<open>
  The record types of \<^verbatim>\<open>engraphis/core/interfaces.py\<close>: memory types and scopes, the closure
  observations of a memory, the memory record with the normalisation its constructor runs,
  and the search filter. Lemmas: normalised observations are the canonical listing of a
  bounded set, so normalisation depends on the set of observations only; the effective end of
  validity is the earliest endpoint known at the anchor, and can only move earlier as the
  anchor moves later.
\<close>

section \<open>Enumerations\<close>

datatype memory_type = WORKING | EPISODIC | SEMANTIC | PROCEDURAL

datatype scope = SESSION | REPO | WORKSPACE | USER

fun mtype_value :: "memory_type \<Rightarrow> string" where
  "mtype_value WORKING = ''working''"
| "mtype_value EPISODIC = ''episodic''"
| "mtype_value SEMANTIC = ''semantic''"
| "mtype_value PROCEDURAL = ''procedural''"

fun scope_value :: "scope \<Rightarrow> string" where
  "scope_value SESSION = ''session''"
| "scope_value REPO = ''repo''"
| "scope_value WORKSPACE = ''workspace''"
| "scope_value USER = ''user''"

definition mtype_of_value :: "string \<Rightarrow> memory_type option" where
  "mtype_of_value s = find (\<lambda>m. mtype_value m = s) [WORKING, EPISODIC, SEMANTIC, PROCEDURAL]"

definition scope_of_value :: "string \<Rightarrow> scope option" where
  "scope_of_value s = find (\<lambda>c. scope_value c = s) [SESSION, REPO, WORKSPACE, USER]"

lemma mtype_of_value [simp]: "mtype_of_value (mtype_value m) = Some m"
  by (cases m) (simp_all add: mtype_of_value_def)

lemma scope_of_value [simp]: "scope_of_value (scope_value c) = Some c"
  by (cases c) (simp_all add: scope_of_value_def)

lemma mtype_value_inject [simp]: "mtype_value m = mtype_value m' \<longleftrightarrow> m = m'"
  by (cases m; cases m') simp_all

lemma scope_value_inject [simp]: "scope_value c = scope_value c' \<longleftrightarrow> c = c'"
  by (cases c; cases c') simp_all

section \<open>Closure observations\<close>

text \<open>
  One observation: the world time at which a fact stopped being true, and the system time at
  which this was learned (\<open>None\<close>: always known).
\<close>

type_synonym observation = "real \<times> real option"

definition MAX_CLOSURE_OBSERVATIONS :: nat where
  "MAX_CLOSURE_OBSERVATIONS = 1024"

definition obs_key :: "observation \<Rightarrow> real \<times> bool \<times> real" where
  "obs_key ob = (fst ob, snd ob \<noteq> None, case snd ob of None \<Rightarrow> 0 | Some t \<Rightarrow> t)"

text \<open>The set-building loop with its bound check after every insertion.\<close>

fun observe_all :: "observation list \<Rightarrow> observation list \<Rightarrow> observation list result" where
  "observe_all [] acc = Inr acc"
| "observe_all (ob # obs) acc =
     (let acc' = (if ob \<in> set acc then acc else acc @ [ob])
      in if length acc' > MAX_CLOSURE_OBSERVATIONS then Inl ValueError else observe_all obs acc')"

definition normalize_closure_observations ::
  "observation list \<Rightarrow> real option \<Rightarrow> real option \<Rightarrow> observation list result" where
  "normalize_closure_observations value valid_to recorded_at =
     rbind (observe_all
             (value @ (case valid_to of None \<Rightarrow> [] | Some e \<Rightarrow> [(e, recorded_at)])) [])
       (\<lambda>observations. Inr (sort_key obs_key observations))"

text \<open>The same function on the untyped value an untrusted bundle supplies.\<close>

fun observation_of_json :: "pylib \<Rightarrow> json \<Rightarrow> observation result" where
  "observation_of_json L (JList [a, b]) =
     rbind (finite_timestamp L a) (\<lambda>e.
       case e of None \<Rightarrow> Inl ValueError
       | Some t \<Rightarrow> rbind (finite_timestamp L b) (\<lambda>r. Inr (t, r)))"
| "observation_of_json L _ = Inl ValueError"

definition normalize_closure_json ::
  "pylib \<Rightarrow> json \<Rightarrow> real option \<Rightarrow> real option \<Rightarrow> observation list result" where
  "normalize_closure_json L value valid_to recorded_at =
     rbind (case value of JNull \<Rightarrow> Inr [] | JList xs \<Rightarrow> rmap (observation_of_json L) xs
              | _ \<Rightarrow> Inl ValueError)
       (\<lambda>obs. normalize_closure_observations obs valid_to recorded_at)"

section \<open>Memory records\<close>

record memory_record =
  mem_id :: string
  content :: string
  mtype :: memory_type
  scope :: scope
  workspace_id :: "string option"
  repo_id :: "string option"
  session_id :: "string option"
  title :: string
  summary :: string
  mem_keywords :: "string list"
  metadata :: obj
  importance :: real
  surprise :: real
  stability :: real
  access_count :: int
  last_access :: "real option"
  valid_from :: "real option"
  valid_to :: "real option"
  ingested_at :: "real option"
  expired_at :: "real option"
  subject_key :: string
  claim_kind :: string
  pinned :: bool
  sensitivity :: string
  provenance :: obj
  valid_to_recorded_at :: "real option"
  pinned_at :: "real option"
  unpinned_at :: "real option"
  confidence :: real
  modified_hlc :: string
  closure_observations :: "observation list"

definition blank_record :: memory_record where
  \<comment> \<open>the dataclass defaults, before any field is supplied\<close>
  "blank_record = \<lparr>mem_id = [], content = [], mtype = SEMANTIC, scope = REPO, workspace_id = None,
     repo_id = None, session_id = None, title = [], summary = [], mem_keywords = [], metadata = [],
     importance = 0, surprise = 1, stability = 1, access_count = 0, last_access = None,
     valid_from = None, valid_to = None, ingested_at = None, expired_at = None, subject_key = [],
     claim_kind = [], pinned = False, sensitivity = ''normal'', provenance = [],
     valid_to_recorded_at = None, pinned_at = None, unpinned_at = None, confidence = 1,
     modified_hlc = [], closure_observations = []\<rparr>"

text \<open>
  \<open>MemoryRecord.__post_init__\<close>: every construction of a record validates its clock and
  canonicalises its observations, including the scalar pair. The timestamps are finite by
  their type.
\<close>

definition post_init :: "memory_record \<Rightarrow> memory_record result" where
  "post_init r =
     rbind (normalize_modified_hlc True (modified_hlc r)) (\<lambda>h.
     rbind (normalize_closure_observations (closure_observations r) (valid_to r)
              (valid_to_recorded_at r)) (\<lambda>obs.
     Inr (r\<lparr>modified_hlc := h, closure_observations := obs,
            confidence := max 0 (min 1 (confidence r))\<rparr>)))"

definition effective_valid_to :: "memory_record \<Rightarrow> real option \<Rightarrow> real option result" where
  "effective_valid_to r known =
     rbind (normalize_closure_observations (closure_observations r) (valid_to r)
              (valid_to_recorded_at r)) (\<lambda>observations.
     let ends = map fst (filter (\<lambda>(_, recorded).
                  known = None \<or> recorded = None \<or> the recorded \<le> the known) observations)
     in Inr (case ends of [] \<Rightarrow> None | e # es \<Rightarrow> Some (fold min es e)))"

section \<open>Search filters\<close>

datatype graph_layer = TEMPORAL | ENTITY | CAUSAL | SEMANTIC_LAYER

record search_filter =
  f_workspace_id :: "string option"
  f_repo_id :: "string option"
  f_session_id :: "string option"
  f_scopes :: "scope list option"
  f_mtypes :: "memory_type list option"
  f_graph_layers :: "graph_layer list option"
  f_as_of :: "real option"
  f_include_ancestors :: bool
  f_valid_at :: "real option"
  f_known_at :: "real option"
  f_modified_since :: "real option"

definition filter_post_init :: "search_filter \<Rightarrow> search_filter result" where
  "filter_post_init f =
     (if f_as_of f \<noteq> None \<and> f_valid_at f \<noteq> None \<and> f_as_of f \<noteq> f_valid_at f then Inl ValueError
      else
        let va = (if f_valid_at f \<noteq> None then f_valid_at f else f_as_of f)
        in Inr (f\<lparr>f_valid_at := va, f_as_of := va\<rparr>))"

definition historical :: "search_filter \<Rightarrow> bool" where
  "historical f \<longleftrightarrow> f_valid_at f \<noteq> None \<or> f_known_at f \<noteq> None"

section \<open>Canonical observation histories\<close>

lemma obs_key_inj: "inj obs_key"
  by (rule injI) (auto simp: obs_key_def prod_eq_iff split: option.splits)

lemma observe_all_Inr:
  assumes "observe_all obs acc = Inr res" "distinct acc"
  shows "distinct res \<and> set res = set acc \<union> set obs"
  using assms
proof (induction obs arbitrary: acc)
  case Nil
  then show ?case by simp
next
  case (Cons ob obs)
  then show ?case
    by (cases "ob \<in> set acc") (force simp: Let_def split: if_splits)+
qed

lemma observe_all_bound:
  assumes "observe_all obs acc = Inr res" "length acc \<le> MAX_CLOSURE_OBSERVATIONS"
  shows "length res \<le> MAX_CLOSURE_OBSERVATIONS"
  using assms by (induction obs arbitrary: acc) (auto simp: Let_def split: if_splits)

lemma observe_all_Inl:
  assumes "observe_all obs acc = Inl e" "distinct acc"
  shows "e = ValueError \<and> MAX_CLOSURE_OBSERVATIONS < card (set acc \<union> set obs)"
  using assms
proof (induction obs arbitrary: acc)
  case Nil
  then show ?case by simp
next
  case (Cons ob obs)
  let ?acc = "if ob \<in> set acc then acc else acc @ [ob]"
  have d: "distinct ?acc" and s: "set ?acc \<union> set obs = set acc \<union> set (ob # obs)"
    using Cons.prems(2) by auto
  show ?case
  proof (cases "length ?acc > MAX_CLOSURE_OBSERVATIONS")
    case True
    have "length ?acc = card (set ?acc)" using d by (simp add: distinct_card)
    also have "\<dots> \<le> card (set ?acc \<union> set obs)" by (rule card_mono) auto
    finally show ?thesis using True Cons.prems(1) s by (simp add: Let_def)
  next
    case False
    then have "observe_all obs ?acc = Inl e" using Cons.prems(1) by (simp add: Let_def)
    then show ?thesis using Cons.IH [OF _ d] s by simp
  qed
qed

text \<open>The set of observations a record stands for: its history and its scalar pair.\<close>

definition obs_set :: "observation list \<Rightarrow> real option \<Rightarrow> real option \<Rightarrow> observation set" where
  "obs_set value vt rec_at = set value \<union> (case vt of None \<Rightarrow> {} | Some e \<Rightarrow> {(e, rec_at)})"

definition record_obs :: "memory_record \<Rightarrow> observation set" where
  "record_obs r = obs_set (closure_observations r) (valid_to r) (valid_to_recorded_at r)"

lemma finite_obs_set [simp]: "finite (obs_set v vt ra)"
  by (auto simp: obs_set_def split: option.splits)

text \<open>A canonical listing: without repetition, sorted by the key, within the bound.\<close>

definition canonical :: "observation list \<Rightarrow> bool" where
  "canonical os \<longleftrightarrow> distinct os \<and> sorted (map obs_key os) \<and> length os \<le> MAX_CLOSURE_OBSERVATIONS"

lemma canonical_unique:
  assumes "canonical xs" "canonical ys" "set xs = set ys"
  shows "xs = ys"
proof -
  have "distinct (map obs_key xs)" "distinct (map obs_key ys)"
    using assms by (simp_all add: canonical_def distinct_map inj_on_subset [OF obs_key_inj])
  then have "map obs_key xs = map obs_key ys"
    using assms by (intro sorted_distinct_set_unique) (simp_all add: canonical_def)
  then show ?thesis using inj_map_eq_map [OF obs_key_inj] by blast
qed

lemma observed_set:
  "set (v @ (case vt of None \<Rightarrow> [] | Some e \<Rightarrow> [(e, ra)])) = obs_set v vt ra"
  by (cases vt) (simp_all add: obs_set_def)

lemma normalize_Inr:
  assumes "normalize_closure_observations v vt ra = Inr os"
  shows "canonical os \<and> set os = obs_set v vt ra"
proof -
  obtain res where res: "observe_all (v @ (case vt of None \<Rightarrow> [] | Some e \<Rightarrow> [(e, ra)])) [] = Inr res"
    and os: "os = sort_key obs_key res"
    using assms unfolding normalize_closure_observations_def rbind_eq_Inr_conv by blast
  have "distinct res" and set: "set res = obs_set v vt ra"
    using observe_all_Inr [OF res] observed_set [where v = v and vt = vt and ra = ra] by simp_all
  moreover have "length res \<le> MAX_CLOSURE_OBSERVATIONS"
    by (rule observe_all_bound [OF res]) simp
  ultimately show ?thesis by (simp add: canonical_def os)
qed

lemma normalize_Inl:
  assumes "normalize_closure_observations v vt ra = Inl e"
  shows "e = ValueError \<and> MAX_CLOSURE_OBSERVATIONS < card (obs_set v vt ra)"
proof -
  have "observe_all (v @ (case vt of None \<Rightarrow> [] | Some e \<Rightarrow> [(e, ra)])) [] = Inl e"
    using assms unfolding normalize_closure_observations_def
    by (cases "observe_all (v @ (case vt of None \<Rightarrow> [] | Some e \<Rightarrow> [(e, ra)])) []") simp_all
  from observe_all_Inl [OF this] show ?thesis using observed_set [where v = v and vt = vt and ra = ra] by simp
qed

lemma canonical_card: "canonical os \<Longrightarrow> card (set os) \<le> MAX_CLOSURE_OBSERVATIONS"
  by (simp add: canonical_def distinct_card)

lemma normalize_iff:
  "normalize_closure_observations v vt ra = Inr os \<longleftrightarrow> canonical os \<and> set os = obs_set v vt ra"
proof
  show "normalize_closure_observations v vt ra = Inr os \<Longrightarrow> canonical os \<and> set os = obs_set v vt ra"
    by (rule normalize_Inr)
next
  assume os: "canonical os \<and> set os = obs_set v vt ra"
  show "normalize_closure_observations v vt ra = Inr os"
  proof (cases "normalize_closure_observations v vt ra")
    case (Inl e)
    then show ?thesis using normalize_Inl [OF Inl] os canonical_card [of os] by simp
  next
    case (Inr os')
    then have "os' = os" using normalize_Inr [OF Inr] os canonical_unique by simp
    then show ?thesis using Inr by simp
  qed
qed

lemma normalize_Inl_iff:
  "normalize_closure_observations v vt ra = Inl e \<longleftrightarrow>
     e = ValueError \<and> MAX_CLOSURE_OBSERVATIONS < card (obs_set v vt ra)"
proof
  show "normalize_closure_observations v vt ra = Inl e \<Longrightarrow>
      e = ValueError \<and> MAX_CLOSURE_OBSERVATIONS < card (obs_set v vt ra)"
    by (rule normalize_Inl)
next
  assume big: "e = ValueError \<and> MAX_CLOSURE_OBSERVATIONS < card (obs_set v vt ra)"
  show "normalize_closure_observations v vt ra = Inl e"
  proof (cases "normalize_closure_observations v vt ra")
    case (Inl e')
    then show ?thesis using normalize_Inl [OF Inl] big by simp
  next
    case (Inr os)
    then show ?thesis using normalize_Inr [OF Inr] canonical_card [of os] big by simp
  qed
qed

text \<open>Two histories with the same observations normalise alike, errors included.\<close>

lemma normalize_cong_set:
  assumes "obs_set v vt ra = obs_set w ut sa"
  shows "normalize_closure_observations v vt ra = normalize_closure_observations w ut sa"
proof (cases "normalize_closure_observations v vt ra")
  case (Inl e)
  then have "normalize_closure_observations w ut sa = Inl e"
    using assms by (simp add: normalize_Inl_iff)
  then show ?thesis using Inl by simp
next
  case (Inr os)
  then have "normalize_closure_observations w ut sa = Inr os"
    using assms by (simp add: normalize_iff)
  then show ?thesis using Inr by simp
qed

lemma canonical_normalize:
  "canonical os \<Longrightarrow> obs_set [] vt ra \<subseteq> set os \<Longrightarrow> normalize_closure_observations os vt ra = Inr os"
  by (auto simp: normalize_iff obs_set_def)

section \<open>Effective end of validity\<close>

text \<open>The endpoints a reader at the anchor \<open>known\<close> has learned of.\<close>

definition known_ends :: "observation set \<Rightarrow> real option \<Rightarrow> real set" where
  "known_ends S known = {e. \<exists>ra. (e, ra) \<in> S \<and>
     (known = None \<or> ra = None \<or> the ra \<le> the known)}"

lemma fold_min_Min: "fold min es (e::'a::linorder) = Min (set (e # es))"
  by (simp only: Min.set_eq_fold)

lemma effective_valid_to_cases:
  assumes "effective_valid_to r known = Inr v"
  shows "v = (if known_ends (record_obs r) known = {} then None
              else Some (Min (known_ends (record_obs r) known)))"
proof -
  from assms obtain os where os: "normalize_closure_observations (closure_observations r) (valid_to r)
      (valid_to_recorded_at r) = Inr os"
    and v: "v = (case map fst (filter (\<lambda>(_, recorded).
                  known = None \<or> recorded = None \<or> the recorded \<le> the known) os) of
              [] \<Rightarrow> None | e # es \<Rightarrow> Some (fold min es e))"
    unfolding effective_valid_to_def rbind_eq_Inr_conv Let_def by blast
  have ends: "set (map fst (filter (\<lambda>(_, recorded).
      known = None \<or> recorded = None \<or> the recorded \<le> the known) os)) = known_ends (record_obs r) known"
    using normalize_Inr [OF os] by (force simp: known_ends_def record_obs_def)
  show ?thesis
  proof (cases "map fst (filter (\<lambda>(_, recorded).
      known = None \<or> recorded = None \<or> the recorded \<le> the known) os)")
    case Nil
    then show ?thesis using v ends by simp
  next
    case (Cons e es)
    then show ?thesis using v ends fold_min_Min [of es e] by auto
  qed
qed

lemma finite_known_ends: "finite S \<Longrightarrow> finite (known_ends S known)"
  by (rule finite_subset [of _ "fst ` S"]) (force simp: known_ends_def)+
lemma effective_valid_to_Inr_iff:
  "effective_valid_to r known = Inr v \<longleftrightarrow>
     card (record_obs r) \<le> MAX_CLOSURE_OBSERVATIONS \<and>
     v = (if known_ends (record_obs r) known = {} then None
          else Some (Min (known_ends (record_obs r) known)))"
proof (cases "normalize_closure_observations (closure_observations r) (valid_to r)
    (valid_to_recorded_at r)")
  case (Inl e)
  then have "\<not> card (record_obs r) \<le> MAX_CLOSURE_OBSERVATIONS"
    using normalize_Inl [OF Inl] by (simp add: record_obs_def)
  moreover have "effective_valid_to r known = Inl e"
    using Inl by (simp add: effective_valid_to_def)
  ultimately show ?thesis by simp
next
  case (Inr os)
  have "card (record_obs r) \<le> MAX_CLOSURE_OBSERVATIONS"
    using normalize_Inr [OF Inr] canonical_card [of os] by (simp add: record_obs_def)
  moreover obtain u where u: "effective_valid_to r known = Inr u"
    using Inr by (simp add: effective_valid_to_def Let_def)
  ultimately show ?thesis using effective_valid_to_cases [OF u] by auto
qed

lemma known_ends_mono: "k \<le> k' \<Longrightarrow> known_ends S (Some k) \<subseteq> known_ends S (Some k')"
  by (force simp: known_ends_def)

section \<open>Properties\<close>

text \<open>
  F: \<open>normalize_closure_observations\<close> returns the one sorted, repetition-free listing of the
  observations it is given (the history and the scalar pair), whatever their order and
  multiplicity, and raises ValueError exactly when there are more than
  \<open>MAX_CLOSURE_OBSERVATIONS\<close> distinct ones.
\<close>

theorem closure_normal_form:
  "(normalize_closure_observations v vt ra = Inr os \<longleftrightarrow>
      distinct os \<and> sorted (map obs_key os) \<and> length os \<le> MAX_CLOSURE_OBSERVATIONS \<and>
      set os = set v \<union> (case vt of None \<Rightarrow> {} | Some e \<Rightarrow> {(e, ra)})) \<and>
   (normalize_closure_observations v vt ra = Inl e \<longleftrightarrow>
      e = ValueError \<and> MAX_CLOSURE_OBSERVATIONS <
        card (set v \<union> (case vt of None \<Rightarrow> {} | Some e \<Rightarrow> {(e, ra)})))"
  unfolding normalize_iff normalize_Inl_iff canonical_def obs_set_def by blast

text \<open>
  F: the effective end of validity of a record at a system-time anchor is the earliest
  endpoint observed by then (an unstamped observation is always known; without an anchor every
  observation is), and None when nothing is known; learning more can only move it earlier.
\<close>

theorem effective_end_antitone:
  assumes "k \<le> k'" "effective_valid_to r (Some k) = Inr v" "effective_valid_to r (Some k') = Inr v'"
  shows "(case v of None \<Rightarrow> True | Some e \<Rightarrow> (\<exists>e'. v' = Some e' \<and> e' \<le> e)) \<and>
    v = (if known_ends (record_obs r) (Some k) = {} then None
         else Some (Min (known_ends (record_obs r) (Some k))))"
proof -
  have fin: "finite (known_ends (record_obs r) (Some k'))"
    by (rule finite_known_ends) (simp add: record_obs_def)
  have sub: "known_ends (record_obs r) (Some k) \<subseteq> known_ends (record_obs r) (Some k')"
    by (rule known_ends_mono [OF assms(1)])
  show ?thesis
    using assms(2,3) Min_antimono [OF sub _ fin] sub
    unfolding effective_valid_to_Inr_iff by (auto split: option.splits if_splits)
qed

definition closed_twice :: memory_record where
  "closed_twice = blank_record\<lparr>valid_to := Some 5, valid_to_recorded_at := Some 30,
     closure_observations := [(9, Some 10)]\<rparr>"

theorem effective_end_antitone_witness:
  "effective_valid_to closed_twice (Some 20) = Inr (Some 9) \<and>
   effective_valid_to closed_twice (Some 40) = Inr (Some 5) \<and> (5::real) \<le> 9"
proof -
  have a: "effective_valid_to closed_twice (Some 20) = Inr (Some 9)"
    and b: "effective_valid_to closed_twice (Some 40) = Inr (Some 5)"
    by (simp_all add: effective_valid_to_def closed_twice_def blank_record_def
        normalize_closure_observations_def MAX_CLOSURE_OBSERVATIONS_def obs_key_def)
  show ?thesis
    using effective_end_antitone [OF _ a b] a b by simp
qed

end
