(* ===== verification/GraphLayers.thy ===== *)
theory GraphLayers
  imports Records TextUtil
begin

text \<open>
  The logical graph layers: \<^verbatim>\<open>engraphis/core/graph_layers.py\<close> (inference of a layer from a
  relation label and the merge of concurrent classifications) and the traversal plans of
  \<^verbatim>\<open>engraphis/core/interfaces.py\<close> with the intent policy of \<^verbatim>\<open>engraphis/core/graph_policy.py\<close>.
  Lemmas: the layer merge is a join, so replicas converge; every multiplier of every plan lies
  between the floor and the cap, the plans of the intent policy included.
\<close>

section \<open>Inference\<close>

fun layer_value :: "graph_layer \<Rightarrow> string" where
  "layer_value TEMPORAL = ''temporal''"
| "layer_value ENTITY = ''entity''"
| "layer_value CAUSAL = ''causal''"
| "layer_value SEMANTIC_LAYER = ''semantic''"

definition all_layers :: "graph_layer list" where
  "all_layers = [TEMPORAL, ENTITY, CAUSAL, SEMANTIC_LAYER]"

definition layer_of_value :: "string \<Rightarrow> graph_layer option" where
  "layer_of_value s = find (\<lambda>l. layer_value l = s) all_layers"

definition TEMPORAL_RELATIONS :: "string list" where
  "TEMPORAL_RELATIONS = [''after'', ''before'', ''during'', ''follows'', ''followed_by'',
     ''happened_after'', ''happened_before'', ''next'', ''precedes'', ''previous'',
     ''simultaneous_with'']"

definition CAUSAL_RELATIONS :: "string list" where
  "CAUSAL_RELATIONS = [''blocks'', ''caused_by'', ''causes'', ''contributes_to'', ''depends_on'',
     ''enables'', ''fixed_by'', ''fixes'', ''leads_to'', ''prevents'', ''results_in'',
     ''triggered_by'', ''triggers'']"

definition ENTITY_RELATIONS :: "string list" where
  "ENTITY_RELATIONS = [''belongs_to'', ''calls'', ''contains'', ''defined_by'', ''defines'',
     ''depends_on_code'', ''has'', ''implements'', ''imports'', ''inherits'', ''located_in'',
     ''member_of'', ''mentions'', ''owned_by'', ''owns'', ''part_of'', ''profiles'',
     ''references'', ''tests'', ''uses'', ''works_at'']"

definition relation_label :: "string \<Rightarrow> string" where
  "relation_label relation =
     map (\<lambda>c. if c = CHR '' '' \<or> c = CHR ''-'' then CHR ''_'' else c) (py_lower (strip relation))"

definition infer_graph_layer :: "string \<Rightarrow> graph_layer" where
  "infer_graph_layer relation =
     (let rel = relation_label relation
      in if rel \<in> set TEMPORAL_RELATIONS \<or> ends_with ''_before'' rel \<or> ends_with ''_after'' rel
         then TEMPORAL
         else if rel \<in> set CAUSAL_RELATIONS \<or> starts_with ''cause'' rel \<or>
           starts_with ''trigger'' rel \<or> starts_with ''fix'' rel
         then CAUSAL
         else if rel \<in> set ENTITY_RELATIONS then ENTITY else SEMANTIC_LAYER)"

text \<open>The argument is an enum member, or a value read from a row or a bundle.\<close>

datatype layer_arg = Layer graph_layer | Raw json

fun normalize_graph_layer :: "pylib \<Rightarrow> layer_arg \<Rightarrow> string \<Rightarrow> graph_layer" where
  "normalize_graph_layer L (Layer l) relation = l"
| "normalize_graph_layer L (Raw v) relation =
     (let raw = py_lower (strip (str_or_empty L v))
      in case (if raw = [] then None else layer_of_value raw) of
           Some l \<Rightarrow> l | None \<Rightarrow> infer_graph_layer relation)"

section \<open>Merge of concurrent classifications\<close>

fun MERGE_RANK :: "graph_layer \<Rightarrow> nat" where
  "MERGE_RANK SEMANTIC_LAYER = 0"
| "MERGE_RANK ENTITY = 1"
| "MERGE_RANK CAUSAL = 2"
| "MERGE_RANK TEMPORAL = 3"

definition merge_key :: "graph_layer \<Rightarrow> nat \<times> string" where
  "merge_key l = (MERGE_RANK l, layer_value l)"

definition layer_max :: "graph_layer \<Rightarrow> graph_layer \<Rightarrow> graph_layer" where
  \<comment> \<open>Python's \<open>max\<close> of a pair keeps the first of two equal keys\<close>
  "layer_max a b = (if merge_key a < merge_key b then b else a)"

definition merge_graph_layers :: "pylib \<Rightarrow> layer_arg \<Rightarrow> layer_arg \<Rightarrow> string \<Rightarrow> graph_layer" where
  "merge_graph_layers L left right relation =
     (let a = normalize_graph_layer L left relation; b = normalize_graph_layer L right relation
      in layer_max a b)"

lemma merge_key_inj: "inj merge_key"
proof (rule injI)
  fix a b assume "merge_key a = merge_key b"
  then show "a = b" by (cases a; cases b) (simp_all add: merge_key_def)
qed

interpretation layers: convergent_merge "\<lambda>_. True" layer_max
proof unfold_locales
  show "layer_max a b = layer_max b a" for a b
    using injD [OF merge_key_inj, of a b] by (auto simp: layer_max_def)
  show "layer_max (layer_max a b) c = layer_max a (layer_max b c)" for a b c
    by (auto simp: layer_max_def)
  show "layer_max a a = a" for a by (simp add: layer_max_def)
qed simp

section \<open>Traversal plans\<close>

text \<open>
  A policy is injected code, so the weights of a plan are whatever \<open>float\<close> accepts;
  the layer is a member or a value of the enumeration.
\<close>

record traversal_plan =
  intent :: string
  layer_weights :: "(graph_layer \<times> real) list"
  reason_codes :: "string list"

definition uniform_plan :: traversal_plan where
  "uniform_plan = \<lparr>intent = ''uniform'', layer_weights = [], reason_codes = []\<rparr>"

fun canonical_weights ::
  "pylib \<Rightarrow> (string \<times> json) list \<Rightarrow> graph_layer list \<Rightarrow> (graph_layer \<times> real) list result" where
  "canonical_weights L [] seen = Inr []"
| "canonical_weights L ((raw_layer, raw_weight) # rest) seen =
     (case layer_of_value raw_layer of
        None \<Rightarrow> Inl ValueError
      | Some layer \<Rightarrow>
          if layer \<in> set seen then Inl ValueError
          else case py_float L raw_weight of
            Inl e \<Rightarrow> Inl (if e = OverflowError then OverflowError else ValueError)
          | Inr x \<Rightarrow> (case finite_value x of
              None \<Rightarrow> Inl ValueError
            | Some weight \<Rightarrow>
                rbind (canonical_weights L rest (layer # seen)) (\<lambda>ws. Inr ((layer, weight) # ws))))"

definition make_plan ::
  "pylib \<Rightarrow> string \<Rightarrow> (string \<times> json) list \<Rightarrow> string list \<Rightarrow> traversal_plan result" where
  "make_plan L label weights codes =
     rbind (canonical_weights L weights []) (\<lambda>ws.
     Inr \<lparr>intent = (if label = [] then ''uniform'' else label), layer_weights = ws, reason_codes = codes\<rparr>)"

definition multiplier :: "traversal_plan \<Rightarrow> graph_layer \<Rightarrow> real" where
  "multiplier p layer =
     (case map_of (layer_weights p) layer of
        None \<Rightarrow> 1
      | Some numeric \<Rightarrow> min 4 (max (1/4) numeric))"

section \<open>The intent policy\<close>

definition CAUSAL_TERMS :: "string list" where
  "CAUSAL_TERMS = [''because'', ''cause'', ''caused'', ''causes'', ''effect'', ''fix'', ''fixed'',
     ''impact'', ''reason'', ''reasons'', ''result'', ''resulted'', ''trigger'', ''triggered'',
     ''why'']"

definition TEMPORAL_TERMS :: "string list" where
  "TEMPORAL_TERMS = [''after'', ''before'', ''during'', ''earlier'', ''first'', ''last'', ''later'',
     ''latest'', ''next'', ''previous'', ''then'', ''timeline'', ''when'']"

definition ENTITY_TERMS :: "string list" where
  "ENTITY_TERMS = [''belongs'', ''called'', ''entity'', ''member'', ''owner'', ''relationship'',
     ''related'', ''who'', ''whose'']"

text \<open>\<open>_TOKEN_RE.findall\<close>: the maximal runs of the class \<^verbatim>\<open>[a-z0-9_]\<close>.\<close>

definition token_char :: "char \<Rightarrow> bool" where
  "token_char c =
     (let n = of_char c :: nat
      in (97 \<le> n \<and> n \<le> 122) \<or> (48 \<le> n \<and> n \<le> 57) \<or> n = 95)"

definition query_tokens :: "string \<Rightarrow> string list" where
  "query_tokens q = py_split (map (\<lambda>c. if token_char c then c else CHR '' '') (casefold q))"

definition preferred_layer :: "string list \<Rightarrow> graph_layer option \<times> string" where
  "preferred_layer tokens =
     (let hits = (\<lambda>terms. \<exists>t \<in> set tokens. t \<in> set terms)
      in if ''why'' \<in> set tokens then (Some CAUSAL, ''causal_query_cue'')
         else if ''when'' \<in> set tokens then (Some TEMPORAL, ''temporal_query_cue'')
         else if hits [''who'', ''whose''] then (Some ENTITY, ''entity_query_cue'')
         else if hits TEMPORAL_TERMS then (Some TEMPORAL, ''temporal_query_cue'')
         else if hits CAUSAL_TERMS then (Some CAUSAL, ''causal_query_cue'')
         else if hits ENTITY_TERMS then (Some ENTITY, ''entity_query_cue'')
         else (None, []))"

definition intent_plan :: "pylib \<Rightarrow> string \<Rightarrow> traversal_plan result" where
  "intent_plan L query =
     (case preferred_layer (query_tokens query) of
        (None, _) \<Rightarrow> Inr uniform_plan
      | (Some preferred, reason) \<Rightarrow>
          make_plan L (layer_value preferred)
            (map (\<lambda>l. (layer_value l, JFloat (Fin (if l = preferred then 4 else 1/4)))) all_layers)
            [reason])"

text \<open>
  \<open>RecallEngine._plan_graph_traversal\<close>: what an injected policy proposes (\<open>None\<close>: it raised;
  otherwise its intent, weights and reason codes) is rebuilt, or replaced by the uniform plan.
\<close>

definition plan_graph_traversal ::
  "pylib \<Rightarrow> (string \<times> (string \<times> json) list \<times> string list) option \<Rightarrow> traversal_plan \<times> string" where
  "plan_graph_traversal L proposed =
     (case proposed of
        None \<Rightarrow> (uniform_plan\<lparr>reason_codes := [''policy_unavailable'']\<rparr>, ''policy_unavailable'')
      | Some (label, ws, codes) \<Rightarrow>
          (case make_plan L label ws codes of
             Inl _ \<Rightarrow> (uniform_plan\<lparr>reason_codes := [''invalid_policy_output'']\<rparr>, ''invalid_policy_output'')
           | Inr p \<Rightarrow> (p, [])))"

lemma layer_of_value [simp]: "layer_of_value (layer_value l) = Some l"
  by (cases l) (simp_all add: layer_of_value_def all_layers_def)

lemma canonical_weights_distinct:
  "canonical_weights L ws seen = Inr out \<Longrightarrow>
     distinct (map fst out) \<and> set (map fst out) \<inter> set seen = {}"
proof (induction L ws seen arbitrary: out rule: canonical_weights.induct)
  case (1 L seen)
  then show ?case by simp
next
  case (2 L raw_layer raw_weight rest seen)
  then show ?case
    by (fastforce simp: rbind_eq_Inr_conv split: option.splits if_splits sum.splits)
qed

lemma multiplier_bounds: "1/4 \<le> multiplier p l \<and> multiplier p l \<le> 4"
  by (auto simp: multiplier_def split: option.splits)

lemma preferred_layer_reason:
  "preferred_layer ts = (Some l, r) \<Longrightarrow> l \<noteq> SEMANTIC_LAYER"
  by (auto simp: preferred_layer_def Let_def split: if_splits)

lemma intent_plan_weights:
  assumes "preferred_layer (query_tokens q) = (Some l, r)"
  shows "intent_plan L q = Inr \<lparr>intent = layer_value l,
    layer_weights = map (\<lambda>m. (m, if m = l then 4 else 1/4)) all_layers, reason_codes = [r]\<rparr>"
  using assms
  by (cases l) (simp_all add: intent_plan_def make_plan_def all_layers_def layer_of_value_def)

section \<open>Properties\<close>

text \<open>
  F: merging concurrent layer classifications is commutative, associative and idempotent on
  whatever the two sides carry (enum members, stored strings, missing values), so peers agree
  whatever the order in which bundles arrive.
\<close>

theorem layer_merge_join:
  "merge_graph_layers L x y rel = merge_graph_layers L y x rel \<and>
   merge_graph_layers L (Layer (merge_graph_layers L x y rel)) z rel =
     merge_graph_layers L x (Layer (merge_graph_layers L y z rel)) rel \<and>
   merge_graph_layers L x x rel = normalize_graph_layer L x rel"
  using layers.join_commute layers.join_assoc layers.join_idem
  by (simp add: merge_graph_layers_def Let_def)

text \<open>
  F: whatever an injected traversal policy proposes (nothing at all, malformed or extreme
  weights), the plan that reaches the graph arm lists each layer at most once and multiplies
  every layer by a factor between 0.25 and 4, so no layer is cut off or amplified without bound;
  a rejected proposal behaves like the uniform plan.
\<close>

theorem plan_multiplier_bounded:
  "distinct (map fst (layer_weights (fst (plan_graph_traversal L proposed)))) \<and>
   1/4 \<le> multiplier (fst (plan_graph_traversal L proposed)) l \<and>
   multiplier (fst (plan_graph_traversal L proposed)) l \<le> 4 \<and>
   (snd (plan_graph_traversal L proposed) = [] \<or>
    multiplier (fst (plan_graph_traversal L proposed)) l = 1)"
proof -
  have "distinct (map fst (layer_weights p))" if "make_plan L i ws cs = Inr p" for i ws cs p
    using that canonical_weights_distinct by (fastforce simp: make_plan_def rbind_eq_Inr_conv)
  then have "distinct (map fst (layer_weights (fst (plan_graph_traversal L proposed))))"
    by (auto simp: plan_graph_traversal_def uniform_plan_def split: option.splits sum.splits)
  moreover have "snd (plan_graph_traversal L proposed) = [] \<or>
      multiplier (fst (plan_graph_traversal L proposed)) l = 1"
    by (auto simp: plan_graph_traversal_def uniform_plan_def multiplier_def
        split: option.splits sum.splits)
  ultimately show ?thesis using multiplier_bounds by blast
qed

end
