(* ===== verification/Scoring.thy ===== *)
theory Scoring
  imports Records
begin

text \<open>
  Retention and recall scores: \<^verbatim>\<open>engraphis/core/retention_policy.py\<close> (bounded stability and
  reinforcement) and \<^verbatim>\<open>engraphis/core/scoring.py\<close> (retention, recency, staleness, min-max
  normalisation, reciprocal rank fusion and the two score formulas). The arithmetic is that of
  the reals; the one branch that depends on the range of doubles is kept, with the range written
  out. Lemmas: every signal stays in its interval, reinforcement follows the documented
  logarithm up to the cap, normalisation keeps the order, and the fused score of an item is the
  sum of its reciprocal ranks.
\<close>

section \<open>Retention policy\<close>

definition DEFAULT_STABILITY_DAYS :: real where "DEFAULT_STABILITY_DAYS = 1"
definition MIN_STABILITY_DAYS :: real where "MIN_STABILITY_DAYS = 1/20"
definition MAX_STABILITY_DAYS :: real where "MAX_STABILITY_DAYS = 100"
definition MAX_ACCESS_COUNT :: int where "MAX_ACCESS_COUNT = 1000000000"

definition effective_stability :: "pylib \<Rightarrow> json \<Rightarrow> real" where
  "effective_stability L value =
     (let stab = (case py_float L value of
                         Inl _ \<Rightarrow> DEFAULT_STABILITY_DAYS
                       | Inr (Fin s) \<Rightarrow> if s \<le> 0 then DEFAULT_STABILITY_DAYS else s
                       | Inr _ \<Rightarrow> DEFAULT_STABILITY_DAYS)
      in min MAX_STABILITY_DAYS (max MIN_STABILITY_DAYS stab))"

fun effective_access_count :: "json \<Rightarrow> int" where
  "effective_access_count (JInt count) = min MAX_ACCESS_COUNT (max 0 count)"
| "effective_access_count _ = 0"

definition nonnegative_finite :: "pylib \<Rightarrow> json \<Rightarrow> real result" where
  "nonnegative_finite L value =
     (if is_bool value then Inl ValueError
      else case py_float L value of
        Inr (Fin number) \<Rightarrow> if number < 0 then Inl ValueError else Inr number
      | _ \<Rightarrow> Inl ValueError)"

definition reinforced_stability ::
  "pylib \<Rightarrow> json \<Rightarrow> json \<Rightarrow> json \<Rightarrow> json \<Rightarrow> (real \<times> int) result" where
  "reinforced_stability L stab accesses alpha boost =
     (case accesses of
        JInt count \<Rightarrow>
          if count < 0 then Inl ValueError
          else rbind (nonnegative_finite L alpha) (\<lambda>alpha_value.
               rbind (nonnegative_finite L boost) (\<lambda>boost_value.
               let current = effective_stability L stab
               in if count \<ge> MAX_ACCESS_COUNT then Inr (current, MAX_ACCESS_COUNT)
                  else
                    let new_count = count + 1;
                        base_gain = alpha_value * min current DEFAULT_STABILITY_DAYS;
                        marginal = ln (1 + 1 / real_of_int new_count);
                        updated = current + (base_gain + boost_value) * marginal
                    in Inr (min MAX_STABILITY_DAYS updated, new_count)))
      | _ \<Rightarrow> Inl ValueError)"

lemmas stability_defs = DEFAULT_STABILITY_DAYS_def MIN_STABILITY_DAYS_def MAX_STABILITY_DAYS_def

lemma effective_stability_bounds:
  "MIN_STABILITY_DAYS \<le> effective_stability L v" "effective_stability L v \<le> MAX_STABILITY_DAYS"
  by (simp_all add: effective_stability_def stability_defs Let_def)

lemma effective_stability_pos: "0 < effective_stability L v"
  using effective_stability_bounds(1) [of L v] by (simp add: stability_defs)

lemma effective_stability_id:
  "MIN_STABILITY_DAYS \<le> s \<Longrightarrow> s \<le> MAX_STABILITY_DAYS \<Longrightarrow> effective_stability L (JFloat (Fin s)) = s"
  by (simp add: effective_stability_def stability_defs)

lemma effective_stability_idem:
  "effective_stability L (JFloat (Fin (effective_stability L v))) = effective_stability L v"
  by (rule effective_stability_id [OF effective_stability_bounds])

lemma reinforced_Inr:
  assumes "reinforced_stability L s (JInt c) a b = Inr (s', c')"
  shows "0 \<le> c \<and> (\<exists>av bv. nonnegative_finite L a = Inr av \<and> nonnegative_finite L b = Inr bv \<and>
    (if c \<ge> MAX_ACCESS_COUNT then s' = effective_stability L s \<and> c' = MAX_ACCESS_COUNT
     else c' = c + 1 \<and> s' = min MAX_STABILITY_DAYS (effective_stability L s +
       (av * min (effective_stability L s) DEFAULT_STABILITY_DAYS + bv) *
         ln (1 + 1 / real_of_int (c + 1)))))"
  using assms
  by (auto simp: reinforced_stability_def rbind_eq_Inr_conv Let_def split: if_splits)

lemma nonnegative_finite_Inr: "nonnegative_finite L v = Inr x \<Longrightarrow> 0 \<le> x"
  by (auto simp: nonnegative_finite_def split: if_splits sum.splits pyfloat.splits)

lemma reinforced_bounds:
  assumes "reinforced_stability L s (JInt c) a b = Inr (s', c')"
  shows "effective_stability L s \<le> s' \<and> s' \<le> MAX_STABILITY_DAYS \<and>
    c' = min MAX_ACCESS_COUNT (c + 1)"
proof -
  from reinforced_Inr [OF assms] obtain av bv where c: "0 \<le> c" and
    av: "nonnegative_finite L a = Inr av" and bv: "nonnegative_finite L b = Inr bv" and
    res: "if c \<ge> MAX_ACCESS_COUNT then s' = effective_stability L s \<and> c' = MAX_ACCESS_COUNT
     else c' = c + 1 \<and> s' = min MAX_STABILITY_DAYS (effective_stability L s +
       (av * min (effective_stability L s) DEFAULT_STABILITY_DAYS + bv) *
         ln (1 + 1 / real_of_int (c + 1)))" by blast
  have "0 \<le> (av * min (effective_stability L s) DEFAULT_STABILITY_DAYS + bv) *
         ln (1 + 1 / real_of_int (c + 1))"
    using nonnegative_finite_Inr [OF av] nonnegative_finite_Inr [OF bv] c
      effective_stability_pos [of L s] by (intro mult_nonneg_nonneg) (auto simp: stability_defs)
  then show ?thesis
    using res effective_stability_bounds [of L s] by (auto split: if_splits)
qed

section \<open>Signals\<close>

definition opt_float :: "real option \<Rightarrow> json" where
  "opt_float v = (case v of None \<Rightarrow> JNull | Some x \<Rightarrow> JFloat (Fin x))"

definition finite_number :: "pylib \<Rightarrow> json \<Rightarrow> real \<Rightarrow> real" where
  "finite_number L value dflt = (case py_float L value of Inr (Fin x) \<Rightarrow> x | _ \<Rightarrow> dflt)"

definition finite_or_nan :: "pylib \<Rightarrow> json \<Rightarrow> real option" where
  \<comment> \<open>\<open>_finite_number(value, float("nan"))\<close> and the \<open>isfinite\<close> test that follows it\<close>
  "finite_or_nan L value = (case py_float L value of Inr (Fin x) \<Rightarrow> Some x | _ \<Rightarrow> None)"

definition bounded_value :: "pylib \<Rightarrow> json \<Rightarrow> real \<Rightarrow> real \<Rightarrow> real \<Rightarrow> real" where
  "bounded_value L value dflt lower upper = max lower (min upper (finite_number L value dflt))"

definition confidence_of :: "pylib \<Rightarrow> json \<Rightarrow> real" where
  "confidence_of L value = (if value = JNull then 1 else bounded_value L value 1 0 1)"

definition retention :: "pylib \<Rightarrow> json \<Rightarrow> json \<Rightarrow> json \<Rightarrow> real" where
  "retention L stab accessed_at now =
     (let S = effective_stability L stab
      in case finite_or_nan L now of
           None \<Rightarrow> 0
         | Some current \<Rightarrow>
             let accessed = (if accessed_at = JNull then current
                             else finite_number L accessed_at current);
                 dt_days = max ((current - accessed) / 86400) 0
             in exp (- dt_days / S))"

definition recency :: "pylib \<Rightarrow> json \<Rightarrow> json \<Rightarrow> json \<Rightarrow> real" where
  "recency L t_ref now tau_days =
     (if t_ref = JNull then 0
      else case (finite_or_nan L now, finite_or_nan L t_ref) of
        (Some current, Some reference) \<Rightarrow>
          let tau0 = finite_number L tau_days 30;
              tau = (if tau0 \<le> 0 then 1 / 1000000 else tau0);
              dt_days = max ((current - reference) / 86400) 0
          in exp (- dt_days / tau)
      | _ \<Rightarrow> 0)"

definition staleness_penalty :: "pylib \<Rightarrow> json \<Rightarrow> json \<Rightarrow> json \<Rightarrow> real" where
  "staleness_penalty L vt now ramp_days =
     (if vt = JNull then 0
      else case (finite_or_nan L now, finite_or_nan L vt) of
        (Some current, Some expiry) \<Rightarrow>
          if current \<ge> expiry then 1
          else let ramp = finite_number L ramp_days 7
               in if ramp \<le> 0 then 0
                  else let days_left = (expiry - current) / 86400
                       in if days_left \<ge> ramp then 0
                          else max 0 (min 1 (1 - days_left / ramp))
      | _ \<Rightarrow> 0)"

lemma retention_range: "0 \<le> retention L s a n" "retention L s a n \<le> 1"
  using effective_stability_pos [of L s]
  by (auto simp: retention_def Let_def divide_nonneg_pos split: option.splits)

lemma staleness_range: "0 \<le> staleness_penalty L v n r" "staleness_penalty L v n r \<le> 1"
  by (auto simp: staleness_penalty_def Let_def split: option.splits)

lemma recency_range: "0 \<le> recency L t n tau" "recency L t n tau \<le> 1"
  by (auto simp: recency_def Let_def divide_nonneg_pos split: option.splits)

lemma bounded_range: "l \<le> u \<Longrightarrow> l \<le> bounded_value L v d l u" "l \<le> u \<Longrightarrow> bounded_value L v d l u \<le> u"
  by (simp_all add: bounded_value_def)

lemma confidence_range: "0 \<le> confidence_of L v" "confidence_of L v \<le> 1"
  by (simp_all add: confidence_of_def bounded_value_def)

section \<open>Normalisation and rank fusion\<close>

definition in_double_range :: "real \<Rightarrow> bool" where
  "in_double_range x \<longleftrightarrow> \<bar>x\<bar> < real_of_int max_float"

definition finite_scores :: "pylib \<Rightarrow> obj \<Rightarrow> (string \<times> real) list" where
  "finite_scores L scores =
     concat (map (\<lambda>(key, value). case py_float L value of Inr (Fin x) \<Rightarrow> [(key, x)] | _ \<Rightarrow> []) scores)"

definition normalize_scores :: "pylib \<Rightarrow> obj \<Rightarrow> (string \<times> real) list" where
  "normalize_scores L scores =
     (let fin = finite_scores L scores
      in if fin = [] then []
         else
           let lo = Min (snd ` set fin); hi = Max (snd ` set fin); span = hi - lo
           in if \<not> in_double_range span then
                let scale = max \<bar>lo\<bar> \<bar>hi\<bar>
                in if scale = 0 then map (\<lambda>(key, _). (key, 1)) fin
                   else
                     let scaled_lo = lo / scale; scaled_hi = hi / scale;
                         sspan = scaled_hi - scaled_lo
                     in if sspan < 1 / 10 ^ 12 then map (\<lambda>(key, _). (key, 1)) fin
                        else map (\<lambda>(key, value). (key, max 0 (min 1 ((value / scale - scaled_lo) / sspan)))) fin
              else if span < 1 / 10 ^ 12 then map (\<lambda>(key, _). (key, 1)) fin
              else map (\<lambda>(key, value). (key, max 0 (min 1 ((value - lo) / span)))) fin)"

fun fuse_ranking ::
  "int \<Rightarrow> string list \<Rightarrow> json list \<Rightarrow> (string \<rightharpoonup> real) \<Rightarrow> (string \<rightharpoonup> real)" where
  "fuse_ranking base seen [] fused = fused"
| "fuse_ranking base seen (JStr mid # ranking) fused =
     (if mid = [] \<or> mid \<in> set seen then fuse_ranking base seen ranking fused
      else let seen' = mid # seen; rank = int (length seen') - 1
           in fuse_ranking base seen' ranking
                (fused(mid \<mapsto> (case fused mid of None \<Rightarrow> 0 | Some f \<Rightarrow> f) +
                              1 / real_of_int (base + rank + 1))))"
| "fuse_ranking base seen (_ # ranking) fused = fuse_ranking base seen ranking fused"

definition reciprocal_rank_fusion ::
  "pylib \<Rightarrow> json list list \<Rightarrow> json \<Rightarrow> (string \<rightharpoonup> real) result" where
  "reciprocal_rank_fusion L rankings k =
     (case py_int L k of
        Inl OverflowError \<Rightarrow> Inl OverflowError
      | r \<Rightarrow>
          let base = max 1 (case r of Inr i \<Rightarrow> i | Inl _ \<Rightarrow> 60)
          in Inr (foldl (\<lambda>fused ranking. fuse_ranking base [] ranking fused) Map.empty rankings))"

section \<open>Scores\<close>

record weights =
  wt_r :: real
  wt_s :: real
  wt_l :: real
  wt_g :: real
  wt_i :: real
  wt_c :: real
  wt_x :: real

fun weights_for :: "memory_type \<Rightarrow> weights" where
  "weights_for WORKING = \<lparr>wt_r = 0.6, wt_s = 1, wt_l = 0.6, wt_g = 0.4, wt_i = 0.3, wt_c = 1, wt_x = 0.5\<rparr>"
| "weights_for EPISODIC = \<lparr>wt_r = 0.9, wt_s = 1, wt_l = 0.6, wt_g = 0.7, wt_i = 0.6, wt_c = 0.6, wt_x = 0.8\<rparr>"
| "weights_for SEMANTIC = \<lparr>wt_r = 1, wt_s = 1, wt_l = 0.5, wt_g = 0.7, wt_i = 0.7, wt_c = 0.3, wt_x = 0.9\<rparr>"
| "weights_for PROCEDURAL = \<lparr>wt_r = 1, wt_s = 0.9, wt_l = 0.5, wt_g = 0.8, wt_i = 0.9, wt_c = 0.2, wt_x = 0.7\<rparr>"

definition score_memory ::
  "pylib \<Rightarrow> memory_record \<Rightarrow> real \<Rightarrow> weights \<Rightarrow> json \<Rightarrow> json \<Rightarrow> json \<Rightarrow> real option \<Rightarrow> real result" where
  "score_memory L rec now w semantic lexical graph known =
     (let r = retention L (JFloat (Fin (stability rec))) (opt_float (last_access rec)) (JFloat (Fin now))
      in rbind (effective_valid_to rec known) (\<lambda>known_valid_to.
         let x = staleness_penalty L (opt_float known_valid_to) (JFloat (Fin now)) (JFloat (Fin 7));
             conf = confidence_of L (JFloat (Fin (confidence rec)));
             imp = bounded_value L (JFloat (Fin (importance rec))) 0 0 1
         in Inr (wt_r w * r + wt_s w * finite_number L semantic 0 + wt_l w * finite_number L lexical 0
                 + wt_g w * finite_number L graph 0 + wt_i w * imp * conf - wt_x w * x)))"

definition score_proactive ::
  "pylib \<Rightarrow> memory_record \<Rightarrow> real \<Rightarrow> weights option \<Rightarrow> real result" where
  "score_proactive L rec now ws =
     (let w = (case ws of None \<Rightarrow> weights_for (mtype rec) | Some w \<Rightarrow> w);
          imp = bounded_value L (JFloat (Fin (importance rec))) 0 0 1;
          r = retention L (JFloat (Fin (stability rec))) (opt_float (last_access rec)) (JFloat (Fin now));
          rec_ref = (if valid_from rec \<noteq> None then valid_from rec else ingested_at rec);
          conf = confidence_of L (JFloat (Fin (confidence rec)));
          importance_signal = imp * r * conf
      in rbind (effective_valid_to rec None) (\<lambda>end_at.
         Inr (wt_i w * importance_signal
              + wt_c w * recency L (opt_float rec_ref) (JFloat (Fin now)) (JFloat (Fin 30))
              + wt_r w * r
              - wt_x w * staleness_penalty L (opt_float end_at) (JFloat (Fin now)) (JFloat (Fin 7)))))"

lemma weights_for_nonneg:
  "0 \<le> wt_r (weights_for m)" "0 \<le> wt_s (weights_for m)" "0 \<le> wt_l (weights_for m)"
  "0 \<le> wt_g (weights_for m)" "0 \<le> wt_i (weights_for m)" "0 \<le> wt_c (weights_for m)"
  "0 \<le> wt_x (weights_for m)"
  by (cases m; simp)+

section \<open>Reinforcement from the first event\<close>

text \<open>A memory reinforced \<open>n\<close> times, starting with no events, with the same gain every time.\<close>

fun reinforced_times :: "pylib \<Rightarrow> real \<Rightarrow> real \<Rightarrow> real \<Rightarrow> nat \<Rightarrow> (real \<times> int) result" where
  "reinforced_times L a b s 0 = Inr (s, 0)"
| "reinforced_times L a b s (Suc n) =
     rbind (reinforced_times L a b s n) (\<lambda>(s', c).
       reinforced_stability L (JFloat (Fin s')) (JInt c) (JFloat (Fin a)) (JFloat (Fin b)))"

lemma ln_step: "ln (real (Suc n)) + ln (1 + 1 / real (Suc n)) = ln (real (Suc (Suc n)))"
proof -
  have "real (Suc (Suc n)) = real (Suc n) * (1 + 1 / real (Suc n))"
    by (simp add: field_simps)
  moreover have "0 < 1 + 1 / real (Suc n)" by (simp add: add_pos_pos)
  ultimately show ?thesis by (simp only: ln_mult_pos of_nat_0_less_iff zero_less_Suc)
qed

lemma reinforced_times_closed:
  assumes "1 \<le> s" "s \<le> MAX_STABILITY_DAYS" "0 \<le> a" "0 \<le> b" "int n \<le> MAX_ACCESS_COUNT"
  shows "reinforced_times L a b s n =
    Inr (min MAX_STABILITY_DAYS (s + (a + b) * ln (real (Suc n))), int n)"
  using assms(5)
proof (induction n)
  case 0
  then show ?case using assms by simp
next
  case (Suc n)
  let ?S = "s + (a + b) * ln (real (Suc n))"
  have S: "1 \<le> ?S" using assms by (simp add: add_increasing2)
  have cur: "effective_stability L (JFloat (Fin (min MAX_STABILITY_DAYS ?S))) = min MAX_STABILITY_DAYS ?S"
    using S by (intro effective_stability_id) (simp_all add: stability_defs)
  have one: "min (min MAX_STABILITY_DAYS ?S) DEFAULT_STABILITY_DAYS = 1"
    using S by (simp add: stability_defs)
  have step: "reinforced_stability L (JFloat (Fin (min MAX_STABILITY_DAYS ?S))) (JInt (int n))
      (JFloat (Fin a)) (JFloat (Fin b)) =
    Inr (min MAX_STABILITY_DAYS (min MAX_STABILITY_DAYS ?S + (a + b) * ln (1 + 1 / real (Suc n))),
      int (Suc n))"
    using assms Suc.prems cur one
    by (simp add: reinforced_stability_def nonnegative_finite_def Let_def add.commute)
  have gain: "0 \<le> (a + b) * ln (1 + 1 / real (Suc n))"
    using assms by simp
  have "?S + (a + b) * ln (1 + 1 / real (Suc n)) = s + (a + b) * ln (real (Suc (Suc n)))"
    using ln_step [of n] by (metis add.assoc distrib_left)
  then have "min MAX_STABILITY_DAYS (min MAX_STABILITY_DAYS ?S + (a + b) * ln (1 + 1 / real (Suc n)))
    = min MAX_STABILITY_DAYS (s + (a + b) * ln (real (Suc (Suc n))))"
    using gain by (simp only: min_def split: if_splits) linarith
  then show ?case using Suc step by simp
qed

section \<open>Rank fusion against its formula\<close>

definition ranking_names :: "json list \<Rightarrow> string list" where
  "ranking_names r = concat (map (\<lambda>v. case v of JStr m \<Rightarrow> if m = [] then [] else [m] | _ \<Rightarrow> []) r)"

definition ranked :: "json list \<Rightarrow> string list" where
  \<comment> \<open>the names of a ranking in the order of their first occurrence\<close>
  "ranked r = rev (remdups (rev (ranking_names r)))"

definition rank_of :: "string \<Rightarrow> string list \<Rightarrow> nat" where
  "rank_of m ms = length (takeWhile (\<lambda>x. x \<noteq> m) ms)"

definition rank_credit :: "int \<Rightarrow> string \<Rightarrow> json list \<Rightarrow> real" where
  "rank_credit base m r =
     (if m \<in> set (ranked r) then 1 / real_of_int (base + int (rank_of m (ranked r)) + 1) else 0)"

fun new_names :: "string list \<Rightarrow> string list \<Rightarrow> string list" where
  "new_names seen [] = []"
| "new_names seen (m # ms) =
     (if m \<in> set seen then new_names seen ms else m # new_names (m # seen) ms)"

lemma remdups_snoc: "remdups (xs @ [m]) = remdups (filter (\<lambda>x. x \<noteq> m) xs) @ [m]"
  by (induction xs) auto

lemma new_names_eq: "new_names seen ms = filter (\<lambda>x. x \<notin> set seen) (rev (remdups (rev ms)))"
proof (induction ms arbitrary: seen)
  case Nil
  then show ?case by simp
next
  case (Cons m ms)
  have "rev (remdups (rev (m # ms))) = m # filter (\<lambda>x. x \<noteq> m) (rev (remdups (rev ms)))"
    by (simp add: remdups_snoc remdups_filter rev_filter)
  then show ?case
    using Cons.IH by (auto simp: conj_commute intro!: filter_cong)
qed

lemma fuse_ranking_eq:
  "fuse_ranking base seen r fused m =
     (if m \<in> set (new_names seen (ranking_names r))
      then Some ((case fused m of None \<Rightarrow> 0 | Some f \<Rightarrow> f) +
        1 / real_of_int (base + int (length seen) + int (rank_of m (new_names seen (ranking_names r))) + 1))
      else fused m)"
proof (induction base seen r fused rule: fuse_ranking.induct)
  case (2 base seen mid ranking fused)
  have neq: "m \<notin> set (new_names (m # seen) ms)" for ms by (simp add: new_names_eq)
  show ?case
  proof (cases "mid = [] \<or> mid \<in> set seen")
    case True
    then show ?thesis using 2 by (auto simp: ranking_names_def)
  next
    case False
    let ?F = "fused(mid \<mapsto> (case fused mid of None \<Rightarrow> 0 | Some f \<Rightarrow> f) +
        1 / real_of_int (base + (int (length (mid # seen)) - 1) + 1))"
    let ?new = "new_names (mid # seen) (ranking_names ranking)"
    have names: "new_names seen (ranking_names (JStr mid # ranking)) = mid # ?new"
      using False by (simp add: ranking_names_def)
    have unfold: "fuse_ranking base seen (JStr mid # ranking) fused m =
        fuse_ranking base (mid # seen) ranking ?F m"
      using False by (simp only: fuse_ranking.simps Let_def if_False)
    have IH: "fuse_ranking base (mid # seen) ranking ?F m =
       (if m \<in> set ?new
        then Some ((case ?F m of None \<Rightarrow> 0 | Some f \<Rightarrow> f) +
          1 / real_of_int (base + int (length (mid # seen)) + int (rank_of m ?new) + 1))
        else ?F m)"
      by (rule "2.IH"(2) [OF False refl refl])
    show ?thesis
    proof (cases "m = mid")
      case True
      then show ?thesis unfolding unfold IH names using neq by (simp add: rank_of_def)
    next
      case False
      then show ?thesis unfolding unfold IH names by (simp add: rank_of_def algebra_simps)
    qed
  qed
qed (simp_all add: ranking_names_def)

lemma fuse_ranking_credit:
  "fuse_ranking base [] r fused m =
     (if m \<in> set (ranked r)
      then Some ((case fused m of None \<Rightarrow> 0 | Some f \<Rightarrow> f) + rank_credit base m r) else fused m)"
  by (simp add: fuse_ranking_eq new_names_eq ranked_def rank_credit_def)

lemma rank_credit_absent [simp]: "m \<notin> set (ranked r) \<Longrightarrow> rank_credit base m r = 0"
  by (simp add: rank_credit_def)

lemma fuse_all:
  "foldl (\<lambda>fused ranking. fuse_ranking base [] ranking fused) fused rankings m =
     (if fused m = None \<and> m \<notin> (\<Union>r \<in> set rankings. set (ranked r)) then None
      else Some ((case fused m of None \<Rightarrow> 0 | Some f \<Rightarrow> f) + (\<Sum>r \<leftarrow> rankings. rank_credit base m r)))"
proof (induction rankings arbitrary: fused)
  case Nil
  then show ?case by (auto split: option.splits)
next
  case (Cons r rankings)
  show ?case
    unfolding foldl.simps Cons.IH
    by (simp only: fuse_ranking_credit) (auto split: option.splits)
qed

section \<open>Normalisation\<close>

lemma finite_scores_Fin: "finite (snd ` set (finite_scores L s))"
  by simp

text \<open>Every branch applies one monotone function with values in the unit interval.\<close>

definition unit_scale :: "real \<Rightarrow> real \<Rightarrow> real \<Rightarrow> real" where
  "unit_scale lo hi v =
     (let scale = max \<bar>lo\<bar> \<bar>hi\<bar>; sspan = hi / scale - lo / scale
      in if \<not> in_double_range (hi - lo) then
           (if scale = 0 \<or> sspan < 1 / 10 ^ 12 then 1
            else max 0 (min 1 ((v / scale - lo / scale) / sspan)))
         else if hi - lo < 1 / 10 ^ 12 then 1 else max 0 (min 1 ((v - lo) / (hi - lo))))"

lemma unit_scale_range: "0 \<le> unit_scale lo hi v" "unit_scale lo hi v \<le> 1"
  by (simp_all add: unit_scale_def Let_def)

lemma clamp_mono: "(x::real) \<le> y \<Longrightarrow> max 0 (min 1 x) \<le> max 0 (min 1 y)"
  by linarith

lemma unit_scale_mono:
  assumes "v \<le> w"
  shows "unit_scale lo hi v \<le> unit_scale lo hi w"
proof -
  define scale where "scale = max \<bar>lo\<bar> \<bar>hi\<bar>"
  have tiny: "0 < d" if "\<not> d < 1 / 10 ^ 12" for d :: real
  proof -
    have "(0::real) < 1 / 10 ^ 12" by simp
    then show ?thesis using that by linarith
  qed
  have wide: "(v / scale - lo / scale) / d \<le> (w / scale - lo / scale) / d" if "\<not> d < 1 / 10 ^ 12" for d
    using assms tiny [OF that] by (intro divide_right_mono diff_right_mono) (auto simp: scale_def)
  have narrow: "(v - lo) / d \<le> (w - lo) / d" if "\<not> d < 1 / 10 ^ 12" for d
    using assms tiny [OF that] by (intro divide_right_mono diff_right_mono) auto
  show ?thesis
    unfolding unit_scale_def Let_def scale_def [symmetric]
    using clamp_mono [OF wide] clamp_mono [OF narrow] by (auto simp del: max.bounded_iff)
qed

lemma normalize_scores_eq:
  "normalize_scores L scores =
     (let fin = finite_scores L scores; lo = Min (snd ` set fin); hi = Max (snd ` set fin)
      in map (\<lambda>(k, v). (k, unit_scale lo hi v)) fin)"
proof -
  define fin where "fin = finite_scores L scores"
  define lo where "lo = Min (snd ` set fin)"
  define hi where "hi = Max (snd ` set fin)"
  define scale where "scale = max \<bar>lo\<bar> \<bar>hi\<bar>"
  define sspan where "sspan = hi / scale - lo / scale"
  define tiny where "tiny = (1 / 10 ^ 12 :: real)"
  show ?thesis
    unfolding normalize_scores_def unit_scale_def Let_def fin_def [symmetric] lo_def [symmetric]
      hi_def [symmetric] scale_def [symmetric] sspan_def [symmetric] tiny_def [symmetric]
    by (cases "fin = []"; cases "in_double_range (hi - lo)"; cases "scale = 0"; cases "sspan < tiny";
        cases "hi - lo < tiny") simp_all
qed

lemma map_of_values: "map_of (map (\<lambda>(k, v). (k, f v)) xs) k = map_option f (map_of xs k)"
  by (induction xs) auto

section \<open>Properties\<close>

text \<open>
  F: repeated reinforcement follows the documented law. A memory whose stability lies between
  one day and the cap has, after \<open>n\<close> reinforcements with the same gain, stability
  \<open>S_0 + (alpha + boost) * log(n + 1)\<close> cut off at the cap, and event count \<open>n\<close>.
\<close>

theorem reinforcement_is_logarithmic:
  assumes "1 \<le> s" "s \<le> MAX_STABILITY_DAYS" "0 \<le> a" "0 \<le> b" "int n \<le> MAX_ACCESS_COUNT"
  shows "reinforced_times L a b s n =
    Inr (min MAX_STABILITY_DAYS (s + (a + b) * ln (real (Suc n))), int n)"
  by (rule reinforced_times_closed [OF assms])

theorem reinforcement_is_logarithmic_witness:
  "reinforced_times content_lib 0.3 0.15 (1::real) 2 = Inr (min 100 (1 + 0.45 * ln (real 3)), 2)"
  using reinforcement_is_logarithmic [of 1 "0.3" "0.15" 2 content_lib]
  by (simp add: stability_defs MAX_ACCESS_COUNT_def numeral_2_eq_2 numeral_3_eq_3)

text \<open>
  F: one reinforcement step never lowers the effective stability, never passes the cap, and
  advances the saturating event counter by one, whatever values the row holds.
\<close>

theorem reinforcement_step_bounds:
  assumes "reinforced_stability L s (JInt c) a b = Inr (s', c')"
  shows "effective_stability L s \<le> s' \<and> MIN_STABILITY_DAYS \<le> s' \<and> s' \<le> MAX_STABILITY_DAYS \<and>
    c' = min MAX_ACCESS_COUNT (c + 1)"
  using reinforced_bounds [OF assms] effective_stability_bounds(1) [of L s] by simp

theorem reinforcement_step_bounds_witness:
  "reinforced_stability content_lib (JFloat (Fin 0)) (JInt MAX_ACCESS_COUNT) (JFloat (Fin 1)) (JInt 0) =
     Inr (1, MAX_ACCESS_COUNT) \<and> (1::real) \<le> MAX_STABILITY_DAYS"
proof -
  have e: "reinforced_stability content_lib (JFloat (Fin 0)) (JInt MAX_ACCESS_COUNT) (JFloat (Fin 1)) (JInt 0) =
     Inr (1, MAX_ACCESS_COUNT)"
    by (simp add: reinforced_stability_def nonnegative_finite_def effective_stability_def
        stability_defs MAX_ACCESS_COUNT_def max_float_def)
  show ?thesis using reinforcement_step_bounds [OF e] e by simp
qed

text \<open>
  F: min-max normalisation drops exactly the values that are not finite, puts the others
  between 0 and 1, and never inverts two scores, in the branch for overflowing spans too.
\<close>

theorem normalize_scores_order:
  assumes "map_of (finite_scores L scores) k1 = Some v1" "map_of (finite_scores L scores) k2 = Some v2"
    and "v1 \<le> v2"
  shows "map fst (normalize_scores L scores) = map fst (finite_scores L scores) \<and>
    (\<exists>w1 w2. map_of (normalize_scores L scores) k1 = Some w1 \<and>
       map_of (normalize_scores L scores) k2 = Some w2 \<and> 0 \<le> w1 \<and> w1 \<le> w2 \<and> w2 \<le> 1)"
proof -
  obtain f where f: "normalize_scores L scores = map (\<lambda>(k, v). (k, f v)) (finite_scores L scores)"
    "f v1 \<le> f v2" "\<And>v. 0 \<le> f v \<and> f v \<le> 1"
    using normalize_scores_eq [of L scores] unit_scale_range unit_scale_mono [OF assms(3)]
    unfolding Let_def by blast
  have "map fst (normalize_scores L scores) = map fst (finite_scores L scores)"
    unfolding f(1) by (simp add: comp_def case_prod_beta')
  then show ?thesis
    using assms f(2,3) unfolding f(1) map_of_values by simp
qed

theorem normalize_scores_order_witness:
  "map fst (normalize_scores content_lib [(''a'', JInt 4), (''b'', JFloat NaN), (''c'', JInt 6)]) = [''a'', ''c'']"
  using normalize_scores_order
    [of content_lib "[(''a'', JInt 4), (''b'', JFloat NaN), (''c'', JInt 6)]" "''a''" 4 "''c''" 6]
  by (simp add: finite_scores_def max_float_def)

text \<open>
  F: reciprocal rank fusion gives each item the sum, over the rankings that contain it, of
  \<open>1 / (k + rank + 1)\<close> at its first occurrence; entries that are not non-empty strings count for
  nothing, and items in no ranking are absent.
\<close>

theorem fusion_is_rank_sum:
  "reciprocal_rank_fusion L rankings (JInt k) =
     Inr (\<lambda>m. if m \<in> (\<Union>r \<in> set rankings. set (ranked r))
               then Some (\<Sum>r \<leftarrow> rankings. rank_credit (max 1 k) m r) else None)"
proof -
  have "foldl (\<lambda>fused ranking. fuse_ranking (max 1 k) [] ranking fused) Map.empty rankings m =
      (if m \<in> (\<Union>r \<in> set rankings. set (ranked r))
       then Some (\<Sum>r \<leftarrow> rankings. rank_credit (max 1 k) m r) else None)" for m
    unfolding fuse_all by simp
  then show ?thesis by (simp add: reciprocal_rank_fusion_def fun_eq_iff)
qed

text \<open>
  F: with the stock weights of any memory type and arm scores between 0 and 1, the recall score
  lies between minus the staleness weight and the sum of the other weights: no arm and no
  stored value can push a candidate outside that interval.
\<close>

theorem score_memory_bounded:
  assumes "score_memory L rec now (weights_for m) (JFloat (Fin a)) (JFloat (Fin b)) (JFloat (Fin c)) k = Inr v"
    and "0 \<le> a" "a \<le> 1" "0 \<le> b" "b \<le> 1" "0 \<le> c" "c \<le> 1"
  shows "- wt_x (weights_for m) \<le> v \<and>
    v \<le> wt_r (weights_for m) + wt_s (weights_for m) + wt_l (weights_for m) + wt_g (weights_for m)
        + wt_i (weights_for m)"
proof -
  let ?w = "weights_for m"
  have step: "0 \<le> u * t \<and> u * t \<le> u" if "0 \<le> u" "0 \<le> t" "t \<le> 1" for u t :: real
    using that mult_left_mono [of t 1 u] by simp
  let ?r = "retention L (JFloat (Fin (stability rec))) (opt_float (last_access rec)) (JFloat (Fin now))"
  let ?i = "bounded_value L (JFloat (Fin (importance rec))) 0 0 1"
  let ?cf = "confidence_of L (JFloat (Fin (confidence rec)))"
  obtain x where v: "v = wt_r ?w * ?r + wt_s ?w * a + wt_l ?w * b + wt_g ?w * c
      + wt_i ?w * ?i * ?cf - wt_x ?w * x" and x: "0 \<le> x" "x \<le> 1"
  proof -
    obtain e where "effective_valid_to rec k = Inr e"
      using assms(1) by (auto simp: score_memory_def Let_def rbind_eq_Inr_conv)
    then show thesis
      using assms(1) staleness_range
      by (intro that [of "staleness_penalty L (opt_float e) (JFloat (Fin now)) (JFloat (Fin 7))"])
        (simp_all add: score_memory_def Let_def finite_number_def)
  qed
  have "0 \<le> ?i * ?cf" "?i * ?cf \<le> 1"
    using bounded_range [of 0 1] confidence_range by (simp_all add: mult_le_one)
  note i = this
  have "0 \<le> wt_r ?w * ?r" "wt_r ?w * ?r \<le> wt_r ?w"
    using step [OF weights_for_nonneg(1) retention_range] by blast+
  moreover have "0 \<le> wt_s ?w * a" "wt_s ?w * a \<le> wt_s ?w"
    using step [OF weights_for_nonneg(2) assms(2,3)] by blast+
  moreover have "0 \<le> wt_l ?w * b" "wt_l ?w * b \<le> wt_l ?w"
    using step [OF weights_for_nonneg(3) assms(4,5)] by blast+
  moreover have "0 \<le> wt_g ?w * c" "wt_g ?w * c \<le> wt_g ?w"
    using step [OF weights_for_nonneg(4) assms(6,7)] by blast+
  moreover have "0 \<le> wt_i ?w * (?i * ?cf)" "wt_i ?w * (?i * ?cf) \<le> wt_i ?w"
    using step [OF weights_for_nonneg(5) i] by blast+
  moreover have "0 \<le> wt_x ?w * x" "wt_x ?w * x \<le> wt_x ?w"
    using step [OF weights_for_nonneg(7) x] by blast+
  ultimately show ?thesis
    unfolding v mult.assoc [of "wt_i ?w"] by (intro conjI) linarith+
qed

definition scored_example :: memory_record where
  "scored_example = blank_record\<lparr>importance := 1/2, valid_to := Some 5\<rparr>"

theorem score_memory_bounded_witness:
  "score_memory content_lib scored_example 10 (weights_for SEMANTIC) (JFloat (Fin 1)) (JFloat (Fin (1/2)))
     (JFloat (Fin 0)) None = Inr (17/10) \<and> - 9/10 \<le> (17/10::real) \<and> 17/10 \<le> (39/10::real)"
proof -
  have e: "score_memory content_lib scored_example 10 (weights_for SEMANTIC) (JFloat (Fin 1)) (JFloat (Fin (1/2)))
     (JFloat (Fin 0)) None = Inr (17/10)"
    by (simp add: score_memory_def scored_example_def blank_record_def effective_valid_to_def
        normalize_closure_observations_def MAX_CLOSURE_OBSERVATIONS_def obs_key_def Let_def
        retention_def opt_float_def finite_or_nan_def staleness_penalty_def finite_number_def
        bounded_value_def confidence_of_def)
  show ?thesis using score_memory_bounded [OF e] e by simp
qed

end
