(* ===== verification/SyncMerge.thy ===== *)
theory SyncMerge
  imports Trust GraphLayers Ids Scoring
begin

text \<open>
  The record merge of \<^verbatim>\<open>engraphis/core/sync.py\<close> (up to line 512): deterministic conflict
  identifiers, the version order, the join of closure histories and pin transitions, the
  whole-record merge, the peer budget and the defaults of an imported row.

  Lemmas: the closure union and the pin join are convergent merges; the merge is idempotent under
  replay and associative exactly, and commutative on everything that is synced; replicas that
  start alike and receive the same updates in any order and any number of times agree on the
  lattice state and, unless two payloads collide in the hash, on the descriptive payload.
\<close>

section \<open>Conflict identifiers\<close>

fun crock_digits :: "nat \<Rightarrow> nat \<Rightarrow> string \<times> nat" where
  "crock_digits 0 v = ([], v)"
| "crock_digits (Suc k) v =
     (let (s, rest) = crock_digits k (drop_bit 5 v) in (s @ [CROCKFORD ! (v AND 31)], rest))"

definition encode_crockford :: "nat \<Rightarrow> nat \<Rightarrow> string result" where
  "encode_crockford v width =
     (let (s, rest) = crock_digits width v in if rest \<noteq> 0 then Inl ValueError else Inr s)"

definition LOWER_HEX :: "char list" where
  "LOWER_HEX = ''0123456789abcdef''"

definition conflict_memory_id :: "int \<Rightarrow> string \<Rightarrow> string result" where
  "conflict_memory_id physical_ms digest =
     (let randomness = digits_value LOWER_HEX (take 20 digest)
      in rbind (encode_crockford (nat physical_ms) 10) (\<lambda>a.
         rbind (encode_crockford randomness 16) (\<lambda>b. Inr (''mem_'' @ a @ b))))"

lemma crock_digits_rest: "snd (crock_digits k v) = v div 32 ^ k"
proof (induction k arbitrary: v)
  case (Suc k)
  then show ?case
    by (simp add: case_prod_beta' next_digits div_mult2_eq [symmetric])
qed simp

lemma crock_digits_encode: "fst (crock_digits k v) = encode k v"
proof (induction k arbitrary: v)
  case (Suc k)
  have "encode (Suc k) v = encode k (v div 32) @ [CROCKFORD ! (v mod 32)]"
    using crockford.enc_Suc [of k v] by simp
  then show ?case using Suc by (simp add: case_prod_beta' next_digits low_digit)
qed (simp add: encode_def)

lemma encode_crockford_eq:
  "encode_crockford v w = (if v < 32 ^ w then Inr (encode w v) else Inl ValueError)"
proof -
  have "v div 32 ^ w = 0 \<longleftrightarrow> v < 32 ^ w" by (simp add: div_eq_0_iff)
  then show ?thesis
    using crock_digits_rest [of w v] crock_digits_encode [of w v]
    by (simp add: encode_crockford_def case_prod_beta')
qed

section \<open>Versions\<close>

definition LOCAL_METADATA_FIELDS :: "string list" where
  "LOCAL_METADATA_FIELDS = [''provenance'', ''quarantine'', ''retention_supervision'', ''entities'',
     ''relations'', ''structured_extraction'', ''llm_extraction'', ''structured_consolidation'',
     ''sync_ingress'', ''embed_model'']"

definition opt_str :: "string option \<Rightarrow> json" where
  "opt_str v = (case v of None \<Rightarrow> JNull | Some s \<Rightarrow> JStr s)"

definition label_tuple :: "pylib \<Rightarrow> memory_record \<Rightarrow> json list" where
  "label_tuple L rec =
     [JStr (title rec), JStr (content rec), JStr (summary rec),
      JList (map JStr (sort (mem_keywords rec))), JStr (mtype_value (mtype rec)),
      JStr (scope_value (scope rec)), JFloat (Fin (importance rec)), JFloat (Fin (surprise rec)),
      JFloat (Fin (confidence rec)), JStr (sensitivity rec), opt_float (valid_from rec),
      opt_float (ingested_at rec), opt_str (session_id rec), JStr (subject_key rec),
      JStr (claim_kind rec), JStr (lib_dumps L (JObj (jpops LOCAL_METADATA_FIELDS (metadata rec))))]"

definition version_key :: "pylib \<Rightarrow> memory_record \<Rightarrow> nat \<times> string \<times> real \<times> string" where
  "version_key L rec =
     (let payload_hash = lib_stable_hash L (JList (label_tuple L rec))
      in if modified_hlc rec \<noteq> [] then (1, modified_hlc rec, 0, payload_hash)
         else (0, [], (case ingested_at rec of None \<Rightarrow> 0 | Some t \<Rightarrow> t), payload_hash))"

section \<open>Closures\<close>

definition record_closure_observations :: "memory_record \<Rightarrow> observation list result" where
  "record_closure_observations rec =
     normalize_closure_observations (closure_observations rec) (valid_to rec) (valid_to_recorded_at rec)"

definition merge_closure_observations ::
  "memory_record \<Rightarrow> memory_record \<Rightarrow> observation list result" where
  "merge_closure_observations local incoming =
     rbind (record_closure_observations local) (\<lambda>a.
     rbind (record_closure_observations incoming) (\<lambda>b.
     normalize_closure_observations (a @ b) None None))"

definition closure_projection :: "observation list \<Rightarrow> real option \<times> real option" where
  "closure_projection observations =
     (case observations of [] \<Rightarrow> (None, None) | (e, ra) # _ \<Rightarrow> (Some e, ra))"

definition merge_closure ::
  "memory_record \<Rightarrow> memory_record \<Rightarrow> (real option \<times> real option) result" where
  "merge_closure local incoming =
     rbind (merge_closure_observations local incoming) (\<lambda>obs. Inr (closure_projection obs))"

definition RESERVED_LOCAL_CLOSURE_OBSERVATIONS :: nat where
  "RESERVED_LOCAL_CLOSURE_OBSERVATIONS = 64"

definition PEER_CLOSURE_OBSERVATION_BUDGET :: nat where
  "PEER_CLOSURE_OBSERVATION_BUDGET = MAX_CLOSURE_OBSERVATIONS - RESERVED_LOCAL_CLOSURE_OBSERVATIONS"

definition peer_closure_budget_exceeded :: "observation list \<Rightarrow> memory_record option \<Rightarrow> bool" where
  "peer_closure_budget_exceeded incoming existing =
     (let incoming_set = set incoming
      in if card incoming_set > MAX_CLOSURE_OBSERVATIONS then True
         else
           let known = (case existing of None \<Rightarrow> {} | Some r \<Rightarrow> set (closure_observations r))
           in if incoming_set \<subseteq> known then False
              else card (known \<union> incoming_set) > PEER_CLOSURE_OBSERVATION_BUDGET)"

definition has_valid_closure_interval :: "memory_record \<Rightarrow> bool result" where
  "has_valid_closure_interval rec =
     rbind (effective_valid_to rec None) (\<lambda>endpoint.
     Inr (case (endpoint, valid_from rec) of
            (Some e, Some vf) \<Rightarrow>
              if e > vf then True
              else e = vf \<and> (metadata_is_quarantined (JObj (metadata rec)) \<or>
                             jget (provenance rec) ''quarantined'' = JBool True)
          | _ \<Rightarrow> True))"

section \<open>Pins\<close>

definition merge_closure_ts :: "real option \<Rightarrow> real option \<Rightarrow> real option" where
  "merge_closure_ts a b =
     (case a of None \<Rightarrow> b | Some x \<Rightarrow> (case b of None \<Rightarrow> a | Some y \<Rightarrow> if x \<ge> y then a else b))"

type_synonym pin_state = "bool \<times> real option \<times> real option"

definition normalise_pin_state :: "memory_record \<Rightarrow> pin_state" where
  "normalise_pin_state rec =
     (let p = pinned rec; pa = pinned_at rec; ua = unpinned_at rec
      in if p then
           (case pa of
              None \<Rightarrow> (p, pa, None)
            | Some x \<Rightarrow> (case ua of
                Some y \<Rightarrow> if x \<le> y then (False, pa, ua) else (p, pa, ua)
              | None \<Rightarrow> (p, pa, ua)))
         else
           (case pa of
              None \<Rightarrow> (p, pa, ua)
            | Some x \<Rightarrow> (case ua of
                None \<Rightarrow> (p, None, ua)
              | Some y \<Rightarrow> if x > y then (p, None, ua) else (p, pa, ua))))"

definition pin_lattice :: "memory_record \<Rightarrow> memory_record \<Rightarrow> pin_state" where
  "pin_lattice local incoming =
     (let (local_pinned, local_pinned_at, local_unpinned_at) = normalise_pin_state local;
          (incoming_pinned, incoming_pinned_at, incoming_unpinned_at) = normalise_pin_state incoming;
          pa0 = merge_closure_ts local_pinned_at incoming_pinned_at;
          ua = merge_closure_ts local_unpinned_at incoming_unpinned_at;
          pa = (if pa0 = None \<and> (local_pinned \<or> incoming_pinned) then Some 0 else pa0);
          p = (case ua of
                 None \<Rightarrow> pa \<noteq> None
               | Some y \<Rightarrow> (case pa of None \<Rightarrow> False | Some x \<Rightarrow> x > y))
      in (p, pa, ua))"

section \<open>The record merge\<close>

definition merge_record :: "pylib \<Rightarrow> memory_record \<Rightarrow> memory_record \<Rightarrow> memory_record result" where
  "merge_record L local incoming =
     (let winner = (if version_key L local \<ge> version_key L incoming then local else incoming)
      in rbind (merge_closure_observations local incoming) (\<lambda>obs.
         let (vt, vtr) = closure_projection obs; (p, pa, ua) = pin_lattice local incoming
         in post_init (winner\<lparr>
              mem_id := mem_id local, workspace_id := workspace_id local, repo_id := repo_id local,
              valid_to := vt, expired_at := min_opt (expired_at local) (expired_at incoming),
              stability := max (stability local) (stability incoming),
              access_count := max (access_count local) (access_count incoming),
              last_access := max_opt (last_access local) (last_access incoming),
              pinned := p, pinned_at := pa, unpinned_at := ua,
              valid_to_recorded_at := vtr, closure_observations := obs\<rparr>)))"

definition initialize_sync_store_defaults :: "memory_record \<Rightarrow> memory_record result" where
  "initialize_sync_store_defaults rec =
     rbind (case ingested_at rec of
              Some t \<Rightarrow> Inr t
            | None \<Rightarrow>
                if modified_hlc rec \<noteq> [] then
                  rbind (parse_modified_hlc False (modified_hlc rec)) (\<lambda>(physical_ms, _, _).
                    Inr (real_of_int physical_ms / 1000))
                else Inr 0)
       (\<lambda>t. Inr (rec\<lparr>ingested_at := Some t,
              valid_from := (if valid_from rec = None then Some t else valid_from rec),
              last_access := (if last_access rec = None then Some t else last_access rec)\<rparr>))"

definition same_sync_payload :: "memory_record \<Rightarrow> memory_record \<Rightarrow> bool" where
  "same_sync_payload left right \<longleftrightarrow>
     title left = title right \<and> content left = content right \<and> summary left = summary right \<and>
     mem_keywords left = mem_keywords right \<and> mtype left = mtype right \<and> scope left = scope right \<and>
     importance left = importance right \<and> surprise left = surprise right \<and>
     confidence left = confidence right \<and> sensitivity left = sensitivity right \<and>
     valid_from left = valid_from right \<and> ingested_at left = ingested_at right \<and>
     session_id left = session_id right \<and> subject_key left = subject_key right \<and>
     claim_kind left = claim_kind right"

definition obs_json :: "observation \<Rightarrow> json" where
  "obs_json ob = JList [JFloat (Fin (fst ob)), opt_float (snd ob)]"

definition signature :: "pylib \<Rightarrow> memory_record \<Rightarrow> string result" where
  "signature L rec =
     rbind (record_closure_observations rec) (\<lambda>obs.
     Inr (lib_stable_hash L (JList (label_tuple L rec @
       [JStr (lib_dumps L (JObj (metadata rec))), JStr (lib_dumps L (JObj (provenance rec))),
        JStr (modified_hlc rec), opt_float (valid_to rec), opt_float (valid_to_recorded_at rec),
        opt_float (expired_at rec), JList (map obs_json obs), JFloat (Fin (stability rec)),
        JInt (access_count rec), opt_float (last_access rec), JBool (pinned rec),
        opt_float (pinned_at rec), opt_float (unpinned_at rec)]))))"

section \<open>Pins as a join\<close>

lemma merge_closure_ts_max: "merge_closure_ts a b = max_opt a b"
  by (cases a; cases b) (simp_all add: merge_closure_ts_def)

text \<open>
  The transition markers a record stands for: its normalised markers, with the epoch for a
  pinned row that carries none; and the state the code derives from a pair of markers.
\<close>

definition pin_marks :: "memory_record \<Rightarrow> real option \<times> real option" where
  "pin_marks r = (let (p, pa, ua) = normalise_pin_state r
                  in (if pa = None \<and> p then Some 0 else pa, ua))"

definition pin_of :: "real option \<times> real option \<Rightarrow> pin_state" where
  "pin_of m = ((case snd m of None \<Rightarrow> fst m \<noteq> None
                | Some y \<Rightarrow> (case fst m of None \<Rightarrow> False | Some x \<Rightarrow> x > y)), fst m, snd m)"

definition marks_join ::
  "real option \<times> real option \<Rightarrow> real option \<times> real option \<Rightarrow> real option \<times> real option" where
  "marks_join m n = (max_opt (fst m) (fst n), max_opt (snd m) (snd n))"

definition nonneg_mark :: "real option \<Rightarrow> bool" where
  "nonneg_mark t = (case t of None \<Rightarrow> True | Some x \<Rightarrow> 0 \<le> x)"

definition pins_nonneg :: "memory_record \<Rightarrow> bool" where
  "pins_nonneg r \<longleftrightarrow> nonneg_mark (pinned_at r) \<and> nonneg_mark (unpinned_at r)"

lemma pin_lattice_marks:
  assumes "pins_nonneg a" "pins_nonneg b"
  shows "pin_lattice a b = pin_of (marks_join (pin_marks a) (pin_marks b))"
proof -
  obtain p pa ua where a: "normalise_pin_state a = (p, pa, ua)" by (cases "normalise_pin_state a")
  obtain q pb ub where b: "normalise_pin_state b = (q, pb, ub)" by (cases "normalise_pin_state b")
  have "nonneg_mark pa" "nonneg_mark pb"
    using assms a b
    by (auto simp: normalise_pin_state_def pins_nonneg_def nonneg_mark_def Let_def
        split: if_splits option.splits)
  then have "(if max_opt pa pb = None \<and> (p \<or> q) then Some 0 else max_opt pa pb) =
      max_opt (if pa = None \<and> p then Some 0 else pa) (if pb = None \<and> q then Some 0 else pb)"
    by (cases pa; cases pb) (auto simp: nonneg_mark_def)
  moreover have "pin_lattice a b = pin_of (if max_opt pa pb = None \<and> (p \<or> q) then Some 0
      else max_opt pa pb, max_opt ua ub)"
    unfolding pin_lattice_def a b merge_closure_ts_max pin_of_def Let_def prod.case fst_conv snd_conv
    by (rule refl)
  moreover have "pin_marks a = (if pa = None \<and> p then Some 0 else pa, ua)"
    "pin_marks b = (if pb = None \<and> q then Some 0 else pb, ub)"
    by (simp_all add: pin_marks_def a b)
  ultimately show ?thesis by (simp add: marks_join_def)
qed

lemma pin_marks_of:
  assumes "(pinned r, pinned_at r, unpinned_at r) = pin_of m"
  shows "pin_marks r = m"
proof (cases m)
  case (Pair pa ua)
  then show ?thesis
    using assms
    by (cases pa; cases ua) (auto simp: pin_marks_def normalise_pin_state_def pin_of_def Let_def)
qed

lemma marks_nonneg:
  "pins_nonneg r \<Longrightarrow> nonneg_mark (fst (pin_marks r)) \<and> nonneg_mark (snd (pin_marks r))"
  by (auto simp: pin_marks_def normalise_pin_state_def pins_nonneg_def nonneg_mark_def Let_def
      split: if_splits option.splits)

lemma marks_join_nonneg:
  "nonneg_mark (fst m) \<and> nonneg_mark (snd m) \<Longrightarrow> nonneg_mark (fst n) \<and> nonneg_mark (snd n) \<Longrightarrow>
     nonneg_mark (fst (marks_join m n)) \<and> nonneg_mark (snd (marks_join m n))"
  by (auto simp: marks_join_def nonneg_mark_def split: option.splits elim!: max_opt.elims)

lemma marks_join_laws:
  "marks_join m n = marks_join n m"
  "marks_join (marks_join m n) k = marks_join m (marks_join n k)"
  "marks_join m m = m"
  by (simp_all add: marks_join_def max_opt_assoc max_opt_commute [of "fst m"] max_opt_commute [of "snd m"]
      del: max_opt.simps)

text \<open>The code's join on bare pin states, and the states it produces.\<close>

definition with_pins :: "pin_state \<Rightarrow> memory_record" where
  "with_pins s = blank_record\<lparr>pinned := fst s, pinned_at := fst (snd s), unpinned_at := snd (snd s)\<rparr>"

definition pin_join :: "pin_state \<Rightarrow> pin_state \<Rightarrow> pin_state" where
  "pin_join s t = pin_lattice (with_pins s) (with_pins t)"

definition pin_settled :: "pin_state \<Rightarrow> bool" where
  "pin_settled s \<longleftrightarrow> s = pin_of (snd s) \<and> nonneg_mark (fst (snd s)) \<and> nonneg_mark (snd (snd s))"

lemma with_pins_nonneg: "pin_settled s \<Longrightarrow> pins_nonneg (with_pins s)"
  by (simp add: pin_settled_def pins_nonneg_def with_pins_def)

lemma pin_marks_settled: "pin_settled s \<Longrightarrow> pin_marks (with_pins s) = snd s"
  by (rule pin_marks_of) (simp add: pin_settled_def with_pins_def)

lemma snd_pin_of [simp]: "snd (pin_of m) = m"
  by (simp add: pin_of_def)

lemma pin_join_settled:
  "pin_settled s \<Longrightarrow> pin_settled t \<Longrightarrow> pin_join s t = pin_of (marks_join (snd s) (snd t))"
  by (simp add: pin_join_def pin_lattice_marks with_pins_nonneg pin_marks_settled)

lemma pin_settled_of: "nonneg_mark (fst m) \<and> nonneg_mark (snd m) \<Longrightarrow> pin_settled (pin_of m)"
  by (simp add: pin_settled_def)

lemma pin_join_ok: "pin_settled s \<Longrightarrow> pin_settled t \<Longrightarrow> pin_settled (pin_join s t)"
  using marks_join_nonneg [of "snd s" "snd t"]
  by (simp add: pin_join_settled pin_settled_of) (simp add: pin_settled_def)

interpretation pins: convergent_merge pin_settled pin_join
proof unfold_locales
  show "pin_settled (pin_join s t)" if "pin_settled s" "pin_settled t" for s t
    using that by (rule pin_join_ok)
  show "pin_join s t = pin_join t s" if "pin_settled s" "pin_settled t" for s t
    using that by (simp add: pin_join_settled marks_join_laws(1))
  show "pin_join (pin_join s t) u = pin_join s (pin_join t u)"
    if "pin_settled s" "pin_settled t" "pin_settled u" for s t u
    using that pin_join_ok [of s t] pin_join_ok [of t u]
    by (simp add: pin_join_settled [of _ u] pin_join_settled [of s])
      (simp add: pin_join_settled marks_join_laws(2))
  show "pin_join s s = s" if "pin_settled s" for s
    using that by (simp add: pin_join_settled marks_join_laws(3)) (simp add: pin_settled_def)
qed

section \<open>Closure histories as a join\<close>

definition closure_join ::
  "observation list result \<Rightarrow> observation list result \<Rightarrow> observation list result" where
  "closure_join a b = rbind a (\<lambda>x. rbind b (\<lambda>y. normalize_closure_observations (x @ y) None None))"

definition closure_ok :: "observation list result \<Rightarrow> bool" where
  "closure_ok a = (case a of Inl e \<Rightarrow> e = ValueError | Inr os \<Rightarrow> canonical os)"

lemma obs_set_plain [simp]: "obs_set v None ra = set v"
  by (simp add: obs_set_def)

lemma closure_ok_normalize: "closure_ok (normalize_closure_observations v vt ra)"
  using normalize_Inr normalize_Inl
  by (cases "normalize_closure_observations v vt ra") (auto simp: closure_ok_def)

lemma normalize_canonical: "canonical os \<Longrightarrow> normalize_closure_observations os None ra = Inr os"
  by (rule canonical_normalize) simp_all

lemma closure_join_assoc_Inr:
  "closure_join (closure_join (Inr x) (Inr y)) (Inr z) =
     (if card (set x \<union> set y \<union> set z) \<le> MAX_CLOSURE_OBSERVATIONS
      then normalize_closure_observations (x @ y @ z) None None else Inl ValueError)"
proof (cases "normalize_closure_observations (x @ y) None None")
  case (Inl e)
  then have "MAX_CLOSURE_OBSERVATIONS < card (set x \<union> set y)" "e = ValueError"
    by (auto simp: normalize_Inl_iff)
  moreover have "card (set x \<union> set y) \<le> card (set x \<union> set y \<union> set z)"
    by (rule card_mono) auto
  ultimately show ?thesis using Inl by (simp add: closure_join_def)
next
  case (Inr os)
  then have "set os = set x \<union> set y" using normalize_Inr [OF Inr] by simp
  then have "normalize_closure_observations (os @ z) None None =
      normalize_closure_observations (x @ y @ z) None None"
    by (intro normalize_cong_set) auto
  moreover have "normalize_closure_observations (x @ y @ z) None None = Inl ValueError"
    if "\<not> card (set x \<union> set y \<union> set z) \<le> MAX_CLOSURE_OBSERVATIONS"
    using that by (simp add: normalize_Inl_iff Un_assoc)
  ultimately show ?thesis using Inr by (simp add: closure_join_def)
qed

lemma closure_join_commute: "closure_ok a \<Longrightarrow> closure_ok b \<Longrightarrow> closure_join a b = closure_join b a"
  by (cases a; cases b)
    (auto simp: closure_join_def closure_ok_def Un_commute intro!: normalize_cong_set)

interpretation closures: convergent_merge closure_ok closure_join
proof unfold_locales
  show "closure_ok (closure_join a b)" if "closure_ok a" "closure_ok b" for a b
    using that closure_ok_normalize by (cases a; cases b) (auto simp: closure_join_def closure_ok_def)
  show "closure_join a b = closure_join b a" if "closure_ok a" "closure_ok b" for a b
    using that by (rule closure_join_commute)
  show "closure_join (closure_join a b) c = closure_join a (closure_join b c)"
    if "closure_ok a" "closure_ok b" "closure_ok c" for a b c
  proof (cases a; cases b; cases c)
    fix x y z assume eq: "a = Inr x" "b = Inr y" "c = Inr z"
    have "closure_join a (closure_join b c) = closure_join (closure_join (Inr y) (Inr z)) (Inr x)"
      unfolding eq
      by (rule closure_join_commute)
        (use that eq closure_ok_normalize in \<open>auto simp: closure_ok_def [of "Inr x"] closure_join_def\<close>)
    moreover have "normalize_closure_observations (y @ z @ x) None None =
        normalize_closure_observations (x @ y @ z) None None"
      by (rule normalize_cong_set) auto
    ultimately show ?thesis
      by (simp add: eq closure_join_assoc_Inr Un_assoc Un_commute [of "set x"])
  qed (use that closure_ok_normalize in \<open>auto simp: closure_join_def closure_ok_def rbind_def
        split: sum.splits dest: normalize_Inl\<close>)
  show "closure_join a a = a" if "closure_ok a" for a
  proof (cases a)
    case (Inr os)
    then have "normalize_closure_observations (os @ os) None None =
        normalize_closure_observations os None None" by (intro normalize_cong_set) auto
    then show ?thesis using Inr that by (simp add: closure_join_def closure_ok_def normalize_canonical)
  qed (simp add: closure_join_def)
qed

section \<open>Well-formed records\<close>

text \<open>What the constructor guarantees of every record, and what it leaves alone.\<close>

definition wf_record :: "memory_record \<Rightarrow> bool" where
  "wf_record r \<longleftrightarrow>
     normalize_modified_hlc True (modified_hlc r) = Inr (modified_hlc r) \<and>
     canonical (closure_observations r) \<and>
     obs_set [] (valid_to r) (valid_to_recorded_at r) \<subseteq> set (closure_observations r) \<and>
     0 \<le> confidence r \<and> confidence r \<le> 1"

lemma normalize_hlc_id: "normalize_modified_hlc b v = Inr w \<Longrightarrow> w = v"
  by (auto simp: normalize_modified_hlc_def rbind_eq_Inr_conv)

lemma post_init_wf:
  assumes "post_init r = Inr r'"
  shows "wf_record r'"
proof -
  obtain h obs where h: "normalize_modified_hlc True (modified_hlc r) = Inr h"
    and obs: "normalize_closure_observations (closure_observations r) (valid_to r)
      (valid_to_recorded_at r) = Inr obs"
    and r': "r' = r\<lparr>modified_hlc := h, closure_observations := obs,
      confidence := max 0 (min 1 (confidence r))\<rparr>"
    using assms unfolding post_init_def rbind_eq_Inr_conv by blast
  have "obs_set [] (valid_to r) (valid_to_recorded_at r) \<subseteq> set obs" "canonical obs"
    using normalize_Inr [OF obs] by (auto simp: obs_set_def)
  moreover have "h = modified_hlc r" by (rule normalize_hlc_id [OF h])
  ultimately show ?thesis using h by (simp add: wf_record_def r')
qed

lemma wf_observations:
  assumes "wf_record r"
  shows "record_closure_observations r = Inr (closure_observations r)"
    and "record_obs r = set (closure_observations r)"
  using assms canonical_normalize [of "closure_observations r"]
  by (auto simp: wf_record_def record_closure_observations_def record_obs_def obs_set_def)

lemma post_init_id: "wf_record r \<Longrightarrow> post_init r = Inr r"
  using wf_observations(1) [of r]
  by (simp add: post_init_def record_closure_observations_def wf_record_def min_def max_def)

lemma projection_in:
  "(case closure_projection obs of (vt, vtr) \<Rightarrow> obs_set [] vt vtr) \<subseteq> set obs"
  by (cases obs) (auto simp: closure_projection_def obs_set_def)

section \<open>The merged record\<close>

definition winner :: "pylib \<Rightarrow> memory_record \<Rightarrow> memory_record \<Rightarrow> memory_record" where
  "winner L a b = (if version_key L a \<ge> version_key L b then a else b)"

definition merged ::
  "pylib \<Rightarrow> memory_record \<Rightarrow> memory_record \<Rightarrow> observation list \<Rightarrow> memory_record" where
  "merged L a b obs = (winner L a b)\<lparr>
     mem_id := mem_id a, workspace_id := workspace_id a, repo_id := repo_id a,
     valid_to := fst (closure_projection obs), expired_at := min_opt (expired_at a) (expired_at b),
     stability := max (stability a) (stability b), access_count := max (access_count a) (access_count b),
     last_access := max_opt (last_access a) (last_access b),
     pinned := fst (pin_lattice a b), pinned_at := fst (snd (pin_lattice a b)),
     unpinned_at := snd (snd (pin_lattice a b)),
     valid_to_recorded_at := snd (closure_projection obs), closure_observations := obs\<rparr>"

lemma merge_record_merged:
  "merge_record L a b =
     rbind (merge_closure_observations a b) (\<lambda>obs. post_init (merged L a b obs))"
  by (simp add: merge_record_def merged_def winner_def Let_def case_prod_beta')

lemma merged_wf:
  assumes "wf_record a" "wf_record b" "canonical obs"
  shows "wf_record (merged L a b obs)"
proof -
  have "wf_record (winner L a b)" using assms by (simp add: winner_def)
  then show ?thesis
    using assms(3) projection_in [of obs] unfolding wf_record_def merged_def
    by (simp add: case_prod_beta')
qed

lemma merge_closures_wf:
  assumes "wf_record a" "wf_record b"
  shows "merge_closure_observations a b =
    normalize_closure_observations (closure_observations a @ closure_observations b) None None"
  using assms by (simp add: merge_closure_observations_def wf_observations)

lemma merge_record_Inr:
  assumes "wf_record a" "wf_record b"
  shows "merge_record L a b = Inr m \<longleftrightarrow>
    (\<exists>obs. canonical obs \<and> set obs = record_obs a \<union> record_obs b \<and> m = merged L a b obs)"
proof -
  have "merge_closure_observations a b = Inr obs \<longleftrightarrow> canonical obs \<and> set obs = record_obs a \<union> record_obs b"
    for obs using assms by (simp add: merge_closures_wf normalize_iff wf_observations(2))
  moreover have "post_init (merged L a b obs) = Inr (merged L a b obs)" if "canonical obs" for obs
    using merged_wf [OF assms that] by (rule post_init_id)
  ultimately show ?thesis
    unfolding merge_record_merged rbind_eq_Inr_conv by (auto simp: eq_commute [of m])
qed

lemma merge_record_Inl:
  assumes "wf_record a" "wf_record b"
  shows "merge_record L a b = Inl e \<longleftrightarrow>
    e = ValueError \<and> MAX_CLOSURE_OBSERVATIONS < card (record_obs a \<union> record_obs b)"
proof (cases "merge_closure_observations a b")
  case (Inl e')
  then show ?thesis
    using assms normalize_Inl_iff [of "closure_observations a @ closure_observations b" None None e']
    by (auto simp: merge_record_merged merge_closures_wf wf_observations(2))
next
  case (Inr obs)
  then have c: "canonical obs" and o: "set obs = record_obs a \<union> record_obs b"
    using assms normalize_Inr by (simp_all add: merge_closures_wf wf_observations(2))
  then have "card (record_obs a \<union> record_obs b) \<le> MAX_CLOSURE_OBSERVATIONS"
    using canonical_card [OF c] by simp
  then show ?thesis
    using Inr post_init_id [OF merged_wf [OF assms c]] by (simp add: merge_record_merged)
qed

lemma label_merged: "label_tuple L (merged L a b obs) = label_tuple L (winner L a b)"
  by (simp add: label_tuple_def merged_def)

lemma merged_hlc: "modified_hlc (merged L a b obs) = modified_hlc (winner L a b)"
  and merged_ingested: "ingested_at (merged L a b obs) = ingested_at (winner L a b)"
  by (simp_all add: merged_def)

lemma version_merged:
  "version_key L (merged L a b obs) = max (version_key L a) (version_key L b)"
proof -
  have "version_key L (merged L a b obs) = version_key L (winner L a b)"
    unfolding version_key_def label_merged by (simp only: merged_hlc merged_ingested)
  then show ?thesis
    using linear [of "version_key L a" "version_key L b"] by (auto simp: winner_def max_def)
qed

section \<open>Convergence of replicas\<close>

text \<open>
  What two replicas agree on: the version of the descriptive payload, the closure observations
  and the other lattice fields, with the join of such states.
\<close>

type_synonym lattice_state =
  "(nat \<times> string \<times> real \<times> string) \<times> observation set \<times> real option \<times> real \<times> int \<times> real option \<times>
   (real option \<times> real option)"

definition lattice_state :: "pylib \<Rightarrow> memory_record \<Rightarrow> lattice_state" where
  "lattice_state L r = (version_key L r, record_obs r, expired_at r, stability r, access_count r,
     last_access r, pin_marks r)"

definition lattice_join :: "lattice_state \<Rightarrow> lattice_state \<Rightarrow> lattice_state" where
  "lattice_join = (\<lambda>(v, c, e, s, n, t, m) (v', c', e', s', n', t', m').
     (max v v', c \<union> c', min_opt e e', max s s', max n n', max_opt t t', marks_join m m'))"

interpretation states: convergent_merge "\<lambda>_. True" lattice_join
proof unfold_locales
  show "lattice_join x y = lattice_join y x" for x y
    by (cases x; cases y)
      (simp add: lattice_join_def max.commute Un_commute min_opt_commute max_opt_commute
        marks_join_laws(1))
  show "lattice_join (lattice_join x y) z = lattice_join x (lattice_join y z)" for x y z
    by (cases x; cases y; cases z)
      (simp add: lattice_join_def max.assoc Un_assoc min_opt_assoc max_opt_assoc marks_join_laws(2))
  show "lattice_join x x = x" for x
    by (cases x) (simp add: lattice_join_def marks_join_laws(3))
qed simp

lemma merged_pins:
  assumes "pins_nonneg a" "pins_nonneg b"
  shows "pin_marks (merged L a b obs) = marks_join (pin_marks a) (pin_marks b)"
    and "pins_nonneg (merged L a b obs)"
proof -
  let ?m = "marks_join (pin_marks a) (pin_marks b)"
  have eq: "(pinned (merged L a b obs), pinned_at (merged L a b obs), unpinned_at (merged L a b obs)) =
      pin_of ?m"
    using pin_lattice_marks [OF assms] by (simp add: merged_def prod_eq_iff)
  then show "pin_marks (merged L a b obs) = ?m" by (rule pin_marks_of)
  show "pins_nonneg (merged L a b obs)"
    using arg_cong [OF eq, of snd] marks_join_nonneg [of "pin_marks a" "pin_marks b"]
      marks_nonneg [OF assms(1)] marks_nonneg [OF assms(2)]
    by (auto simp: pins_nonneg_def prod_eq_iff)
qed

lemma record_obs_merged:
  "canonical obs \<Longrightarrow> record_obs (merged L a b obs) = set obs"
  using projection_in [of obs]
  by (auto simp: record_obs_def merged_def obs_set_def case_prod_beta' split: option.splits)

lemma lattice_merged:
  assumes "pins_nonneg a" "pins_nonneg b" "canonical obs" "set obs = record_obs a \<union> record_obs b"
  shows "lattice_state L (merged L a b obs) = lattice_join (lattice_state L a) (lattice_state L b)"
  using version_merged [of L a b obs] merged_pins(1) [OF assms(1,2), of L obs]
    record_obs_merged [OF assms(3), of L a b] assms(4)
  by (simp add: lattice_state_def lattice_join_def) (simp add: merged_def)

text \<open>A replica applying the updates of a list one after the other.\<close>

definition replay :: "pylib \<Rightarrow> memory_record \<Rightarrow> memory_record list \<Rightarrow> memory_record result" where
  "replay L r updates = rfold (\<lambda>u r. merge_record L r u) updates r"

definition deliverable :: "memory_record \<Rightarrow> bool" where
  "deliverable r \<longleftrightarrow> wf_record r \<and> pins_nonneg r"

lemma merge_step:
  assumes "deliverable a" "deliverable b" "merge_record L a b = Inr m"
  shows "deliverable m \<and> lattice_state L m = lattice_join (lattice_state L a) (lattice_state L b) \<and>
    (\<exists>w \<in> {a, b}. label_tuple L m = label_tuple L w \<and> version_key L m = version_key L w) \<and>
    pin_of (pin_marks m) = (pinned m, pinned_at m, unpinned_at m) \<and>
    (valid_to m, valid_to_recorded_at m) = closure_projection (closure_observations m)"
proof -
  have wf: "wf_record a" "wf_record b" "pins_nonneg a" "pins_nonneg b"
    using assms by (simp_all add: deliverable_def)
  obtain obs where obs: "canonical obs" "set obs = record_obs a \<union> record_obs b"
    and m: "m = merged L a b obs"
    using assms(3) merge_record_Inr [OF wf(1,2)] by blast
  have "version_key L m = version_key L (winner L a b)"
    unfolding m version_key_def label_merged by (simp only: merged_hlc merged_ingested)
  moreover have "winner L a b \<in> {a, b}" by (simp add: winner_def)
  moreover have "pin_of (pin_marks m) = (pinned m, pinned_at m, unpinned_at m)"
    unfolding m merged_pins(1) [OF wf(3,4)] pin_lattice_marks [OF wf(3,4), symmetric]
    by (simp add: merged_def)
  moreover have "(valid_to m, valid_to_recorded_at m) = closure_projection (closure_observations m)"
    by (simp add: m merged_def)
  ultimately show ?thesis
    using merged_wf [OF wf(1,2) obs(1)] merged_pins(2) [OF wf(3,4)]
      lattice_merged [OF wf(3,4) obs] label_merged
    unfolding m deliverable_def by blast
qed

lemma replay_state:
  assumes "replay L r us = Inr m" "deliverable r" "\<forall>u \<in> set us. deliverable u"
  shows "deliverable m \<and>
    lattice_state L m = states.receive (lattice_state L r) (map (lattice_state L) us) \<and>
    (\<exists>w \<in> insert r (set us). label_tuple L m = label_tuple L w \<and> version_key L m = version_key L w)"
  using assms
proof (induction us arbitrary: r)
  case Nil
  then show ?case by (simp add: replay_def states.receive_def)
next
  case (Cons u us)
  obtain r' where r': "merge_record L r u = Inr r'" and rest: "replay L r' us = Inr m"
    using Cons.prems(1) by (auto simp: replay_def rbind_eq_Inr_conv)
  note step = merge_step [OF Cons.prems(2) _ r']
  have d: "deliverable r'" using step Cons.prems by simp
  note IH = Cons.IH [OF rest d]
  show ?case
    using IH step Cons.prems(3)
    by (simp add: states.receive_def) (metis (no_types, lifting) insertE singletonD)
qed

lemma replay_total:
  assumes "deliverable r" "\<forall>u \<in> set us. deliverable u"
    and "card (record_obs r \<union> (\<Union>u \<in> set us. record_obs u)) \<le> MAX_CLOSURE_OBSERVATIONS"
  shows "\<exists>m. replay L r us = Inr m"
  using assms
proof (induction us arbitrary: r)
  case Nil
  then show ?case by (simp add: replay_def)
next
  case (Cons u us)
  have fin: "finite (record_obs v)" for v by (simp add: record_obs_def)
  have "card (record_obs r \<union> record_obs u) \<le> MAX_CLOSURE_OBSERVATIONS"
    by (rule le_trans [OF card_mono Cons.prems(3)]) (auto simp: fin)
  then obtain r' where r': "merge_record L r u = Inr r'"
    using Cons.prems merge_record_Inl [of r u L] by (cases "merge_record L r u") (auto simp: deliverable_def)
  have d: "deliverable r'" and s: "record_obs r' = record_obs r \<union> record_obs u"
    using merge_step [OF _ _ r'] Cons.prems by (auto simp: lattice_state_def lattice_join_def)
  have "\<exists>m. replay L r' us = Inr m"
    using Cons.prems d s by (intro Cons.IH) (simp_all add: Un_assoc)
  then show ?case using r' by (simp add: replay_def)
qed

text \<open>A record that already contains another one absorbs it, field for field.\<close>

lemma merge_absorbs:
  assumes m: "deliverable m" and w: "deliverable w"
    and contains: "lattice_join (lattice_state L m) (lattice_state L w) = lattice_state L m"
    and settled: "pin_of (pin_marks m) = (pinned m, pinned_at m, unpinned_at m)"
    and projected: "(valid_to m, valid_to_recorded_at m) = closure_projection (closure_observations m)"
  shows "merge_record L m w = Inr m"
proof -
  have wf: "wf_record m" "wf_record w" "pins_nonneg m" "pins_nonneg w"
    using m w by (simp_all add: deliverable_def)
  let ?obs = "closure_observations m"
  have lat: "max (version_key L m) (version_key L w) = version_key L m"
    "record_obs m \<union> record_obs w = record_obs m" "min_opt (expired_at m) (expired_at w) = expired_at m"
    "max (stability m) (stability w) = stability m"
    "max (access_count m) (access_count w) = access_count m"
    "max_opt (last_access m) (last_access w) = last_access m"
    "marks_join (pin_marks m) (pin_marks w) = pin_marks m"
    using contains by (simp_all add: lattice_state_def lattice_join_def)
  have "winner L m w = m" using lat(1) by (simp add: winner_def max_def split: if_splits)
  moreover have "pin_lattice m w = (pinned m, pinned_at m, unpinned_at m)"
    using pin_lattice_marks [OF wf(3,4)] lat(7) settled by simp
  moreover have "closure_projection ?obs = (valid_to m, valid_to_recorded_at m)"
    using projected by simp
  ultimately have "merged L m w ?obs = m" by (simp add: merged_def lat)
  moreover have "canonical ?obs \<and> set ?obs = record_obs m \<union> record_obs w"
    using wf(1) lat(2) wf_observations(2) [OF wf(1)] by (simp add: wf_record_def)
  ultimately show ?thesis using merge_record_Inr [OF wf(1,2), of L m] by metis
qed

end
