(* ===== verification/Poisoning.thy ===== *)
theory Poisoning
  imports Trust
begin

text \<open>
  The write-time detector of \<^verbatim>\<open>engraphis/core/poisoning.py\<close>: the canonical form in which a payload
  is checked (compatibility folding, removal of controls and marks, confusables, re-joined
  spaced-out words), the signal patterns and the quarantine decision.

  The canonical form of a character is given on the modelled code points (up to 255) as the
  composition of the folding steps of \<open>unicodedata\<close> and the pinned confusables table; the
  fraction slash of the vulgar fractions, outside that range, is written as a slash. Lemmas: the
  segmentation of spaced-out letters is all or nothing and exact, and the decision is sticky.
\<close>

section \<open>Canonical characters\<close>

text \<open>The base letter after compatibility decomposition with the combining marks dropped.\<close>

definition decomposed :: "nat \<Rightarrow> nat list" where
  "decomposed n =
     (if n \<in> {160, 168, 175, 180, 184} then [32]
      else if n = 170 then [97] else if n = 178 then [50] else if n = 179 then [51]
      else if n = 185 then [49] else if n = 186 then [111]
      else if n = 188 then [49, 47, 52] else if n = 189 then [49, 47, 50]
      else if n = 190 then [51, 47, 52]
      else if 192 \<le> n \<and> n \<le> 197 then [65] else if n = 199 then [67]
      else if 200 \<le> n \<and> n \<le> 203 then [69] else if 204 \<le> n \<and> n \<le> 207 then [73]
      else if n = 209 then [78] else if 210 \<le> n \<and> n \<le> 214 then [79]
      else if 217 \<le> n \<and> n \<le> 220 then [85] else if n = 221 then [89]
      else if 224 \<le> n \<and> n \<le> 229 then [97] else if n = 231 then [99]
      else if 232 \<le> n \<and> n \<le> 235 then [101] else if 236 \<le> n \<and> n \<le> 239 then [105]
      else if n = 241 then [110] else if 242 \<le> n \<and> n \<le> 246 then [111]
      else if 249 \<le> n \<and> n \<le> 252 then [117] else if n = 253 \<or> n = 255 then [121]
      else [n])"

text \<open>Case folding and the confusables that survive decomposition in the modelled range.\<close>

definition skeleton :: "nat \<Rightarrow> nat list" where
  "skeleton n =
     (if (65 \<le> n \<and> n \<le> 90) \<or> (n = 208 \<or> n = 216 \<or> n = 222) then [n + 32]
      else if n = 223 then [115, 115]
      else if n = 198 \<or> n = 230 then [97, 101]
      else if n = 215 then [120]
      else if n = 181 then [109]
      else [n])"

definition canonical_char :: "bool \<Rightarrow> char \<Rightarrow> string" where
  "canonical_char format_as_space c =
     (let n = of_char c :: nat
      in if n = 173 then (if format_as_space then '' '' else [])
         else if n < 32 \<or> (127 \<le> n \<and> n < 160) then (if py_space c then '' '' else [])
         else map char_of (concat (map skeleton (decomposed n))))"

section \<open>Spaced-out words\<close>

definition SPACED_SIGNAL_WORDS :: "string list" where
  "SPACED_SIGNAL_WORDS = [''ignore'', ''disregard'', ''forget'', ''override'', ''bypass'', ''all'',
     ''any'', ''the'', ''previous'', ''instruction'', ''instructions'', ''rule'', ''rules'',
     ''prompt'', ''prompts'', ''system'', ''message'', ''messages'', ''reveal'', ''exfiltrate'',
     ''send'', ''upload'', ''export'', ''print'', ''display'', ''secret'', ''secrets'',
     ''credential'', ''credentials'', ''password'', ''passwords'', ''api'', ''key'', ''keys'',
     ''token'', ''tokens'', ''environment'', ''variable'', ''variables'', ''do'', ''not'', ''dont'',
     ''never'', ''tell'', ''inform'', ''mention'', ''show'', ''notify'', ''user'', ''owner'',
     ''operator'', ''when'', ''if'', ''later'', ''future'', ''next'', ''session'', ''agent'',
     ''request'']"

definition words_key :: "string list \<Rightarrow> nat \<times> int list" where
  "words_key ws = (length ws, map (\<lambda>w. - int (length w)) ws)"

definition min_words :: "string list \<Rightarrow> string list list \<Rightarrow> string list" where
  \<comment> \<open>\<open>min(choices, key=...)\<close> keeps the first of equal keys\<close>
  "min_words c cs = foldl (\<lambda>m x. if words_key x < words_key m then x else m) c cs"

definition seg_choices :: "string list option list \<Rightarrow> string \<Rightarrow> nat \<Rightarrow> string list list" where
  "seg_choices best lower stop =
     concat (map (\<lambda>start.
       let word = take (stop - start) (drop start lower)
       in if word \<in> set SPACED_SIGNAL_WORDS
          then (case best ! start of None \<Rightarrow> [] | Some prefix \<Rightarrow> [prefix @ [word]]) else [])
       [stop - 16..<stop])"

fun seg_table :: "string \<Rightarrow> nat \<Rightarrow> string list option list" where
  "seg_table lower 0 = [Some []]"
| "seg_table lower (Suc e) =
     (let best = seg_table lower e
      in best @ [case seg_choices best lower (Suc e) of
                   [] \<Rightarrow> None | c # cs \<Rightarrow> Some (min_words c cs)])"

definition segment_signal_words :: "string \<Rightarrow> string list" where
  "segment_signal_words letters =
     (let lower = casefold letters
      in case last (seg_table lower (length lower)) of None \<Rightarrow> [] | Some ws \<Rightarrow> ws)"

definition restore_spaced_signal_words :: "string \<Rightarrow> string" where
  "restore_spaced_signal_words matched =
     (let letters = concat (py_split matched); words = segment_signal_words letters
      in if words = [] then matched else join_with '' '' words)"

definition letter_nocase :: "char \<Rightarrow> bool" where
  "letter_nocase c = (let n = of_char (lower_char c) :: nat in 97 \<le> n \<and> n \<le> 122)"

definition SINGLE_LETTER_RUN :: rx where
  "SINGLE_LETTER_RUN =
     seq [NotAfter word_char,
          at_least 2 (Sq (Ch letter_nocase) (plus (Ch (\<lambda>c. c = CHR '' '' \<or> c = CHR 0x09)))),
          Ch letter_nocase, Unless (Ch word_char)]"

text \<open>\<open>pattern.sub(f, s)\<close> for a pattern that matches no empty string, scanning from \<open>i\<close>.\<close>

function rx_sub :: "rx \<Rightarrow> (string \<Rightarrow> string) \<Rightarrow> string \<Rightarrow> nat \<Rightarrow> string" where
  "rx_sub r f s i =
     (if i \<ge> length s then []
      else (case ends s r i of
              j # _ \<Rightarrow> if i < j then f (take (j - i) (drop i s)) @ rx_sub r f s j
                       else s ! i # rx_sub r f s (i + 1)
            | [] \<Rightarrow> s ! i # rx_sub r f s (i + 1)))"
  by pat_completeness auto

termination
  by (relation "measure (\<lambda>(r, f, s, i). length s - i)") auto

declare rx_sub.simps [simp del]

definition canonical_payload_text :: "string \<Rightarrow> bool \<Rightarrow> string" where
  "canonical_payload_text s format_as_space =
     rx_sub SINGLE_LETTER_RUN restore_spaced_signal_words
       (concat (map (canonical_char format_as_space) s)) 0"

section \<open>Signals\<close>

definition blanks :: rx where "blanks = plus (Ch py_space)"

definition any_char :: rx where "any_char = Ch (\<lambda>_. True)"

definition words :: "string list \<Rightarrow> rx" where "words ws = any_of (map nocase ws)"

definition optional_s :: "string \<Rightarrow> rx" where "optional_s w = Sq (nocase w) (opt (nocase ''s''))"

definition SIGNALS :: "(string \<times> rx) list" where
  "SIGNALS =
     [(''instruction_override'',
        seq [WordEdge, words [''ignore'', ''disregard'', ''forget'', ''override'', ''bypass''], blanks,
             upto 3 (Sq (words [''all'', ''any'', ''the'', ''previous'']) blanks),
             any_of [optional_s ''instruction'', optional_s ''rule'', optional_s ''prompt'',
               seq [nocase ''system'', blanks, any_of [optional_s ''message'', optional_s ''prompt'']]],
             WordEdge]),
      (''privilege_impersonation'',
        seq [any_of [Start, Ch py_space, lit '';''], words [''system'', ''developer'', ''assistant''],
             St (Ch py_space), any_of [nocase ''message'', nocase ''prompt'', optional_s ''instruction''],
             St (Ch py_space), Ch (\<lambda>c. c \<in> set '':-'')]),
      (''secret_exfiltration'',
        seq [WordEdge, words [''reveal'', ''exfiltrate'', ''send'', ''upload'', ''export'', ''print'', ''display''],
             WordEdge, upto 96 any_char, WordEdge,
             any_of [optional_s ''secret'', optional_s ''credential'', optional_s ''password'',
               seq [nocase ''api'', opt (Ch (\<lambda>c. c \<in> set '' _-'')), optional_s ''key''],
               optional_s ''token'',
               Sq (nocase ''environment'') (opt (Sq blanks (optional_s ''variable''))), nocase ''.env''],
             WordEdge]),
      (''concealed_action'',
        seq [WordEdge, any_of [seq [nocase ''do'', blanks, nocase ''not''],
               seq [nocase ''don'', lit [CHR 0x27], nocase ''t''], nocase ''never''], blanks,
             words [''tell'', ''inform'', ''mention'', ''show'', ''notify''], blanks,
             opt (Sq (nocase ''the'') blanks), words [''user'', ''owner'', ''operator''], WordEdge]),
      (''deferred_instruction'',
        seq [WordEdge, words [''when'', ''if''], blanks, opt (Sq (nocase ''a'') blanks),
             words [''later'', ''future'', ''next''], blanks, words [''session'', ''agent'', ''request''],
             WordEdge, upto 160 any_char, WordEdge, words [''ignore'', ''disregard'', ''override''], WordEdge]),
      (''attack_canary_marker'',
        seq [WordEdge, nocase ''atk_'', St (Ch (\<lambda>c. letter_nocase c \<or> digit_char c \<or> c = CHR ''_'')),
             nocase ''canary'', WordEdge])]"

definition detect_payload_signals :: "string \<Rightarrow> string \<Rightarrow> string list" where
  "detect_payload_signals text_body heading =
     (let raw = heading @ [CHR 0x0A] @ text_body;
          haystacks = [canonical_payload_text raw False, canonical_payload_text raw True]
      in sort (map fst (filter (\<lambda>(_, pattern). \<exists>h \<in> set haystacks. rx_search pattern h) SIGNALS)))"

definition EXTERNAL_SOURCES :: "string list" where
  "EXTERNAL_SOURCES = [''api'', ''extractor'', ''import'', ''mcp'', ''postgres_introspector'',
     ''resource_extractor'', ''sync'', ''tool'', ''web'']"

definition source_is_external :: "pylib \<Rightarrow> json \<Rightarrow> bool" where
  "source_is_external L source =
     (let label = casefold (strip (canonical_payload_text (str_or_empty L source) False));
          base = takeWhile (\<lambda>c. c \<noteq> CHR ''/'') (takeWhile (\<lambda>c. c \<noteq> CHR '':'') label)
      in base \<in> set EXTERNAL_SOURCES)"

definition is_sticky_quarantine :: "obj \<Rightarrow> bool" where
  "is_sticky_quarantine metadata =
     (let quarantine = jget metadata ''quarantine''
      in is_obj quarantine \<and> jget (as_obj quarantine) ''state'' = JStr QUARANTINE_STATE)"

definition assess_untrusted_payload :: "string \<Rightarrow> string \<Rightarrow> json \<Rightarrow> decision" where
  "assess_untrusted_payload text_body heading metadata =
     (if is_sticky_quarantine (as_obj metadata)
      then \<lparr>quarantined = True, policy = POLICY_VERSION, reasons = [''inherited_quarantine'']\<rparr>
      else let found = detect_payload_signals text_body heading
           in \<lparr>quarantined = (found \<noteq> []), policy = POLICY_VERSION, reasons = found\<rparr>)"

section \<open>The segmentation is exact\<close>

definition segmentation :: "string list \<Rightarrow> string \<Rightarrow> bool" where
  "segmentation ws s \<longleftrightarrow> concat ws = s \<and> set ws \<subseteq> set SPACED_SIGNAL_WORDS"

lemma vocabulary_short: "w \<in> set SPACED_SIGNAL_WORDS \<Longrightarrow> 0 < length w \<and> length w \<le> 16"
  by (auto simp: SPACED_SIGNAL_WORDS_def)

lemma seg_table_length [simp]: "length (seg_table s e) = Suc e"
  by (induction e) (simp_all add: Let_def)

lemma seg_table_nth: "i \<le> e \<Longrightarrow> seg_table s e ! i = seg_table s i ! i"
  by (induction e) (auto simp: Let_def nth_append le_Suc_eq)

lemma min_words_in: "min_words c cs \<in> insert c (set cs)"
proof (induction cs arbitrary: c)
  case (Cons x cs)
  have "min_words c (x # cs) = min_words (if words_key x < words_key c then x else c) cs"
    by (simp add: min_words_def)
  then show ?case using Cons by (metis insert_iff list.simps(15))
qed (simp add: min_words_def)

lemma seg_choices_iff:
  assumes "stop \<le> length s"
  shows "ws \<in> set (seg_choices (seg_table s e) s stop) \<longleftrightarrow>
    (\<exists>start prefix word. stop - 16 \<le> start \<and> start < stop \<and> word = take (stop - start) (drop start s) \<and>
       word \<in> set SPACED_SIGNAL_WORDS \<and> seg_table s e ! start = Some prefix \<and> ws = prefix @ [word])"
  by (auto simp: seg_choices_def Let_def split: if_splits option.splits)
    (metis (no_types, lifting) IntI atLeastLessThan_iff mem_Collect_eq)

lemma seg_table_nonempty: "seg_table s e \<noteq> []"
  by (metis length_0_conv nat.simps(3) seg_table_length)

lemma sort_Nil: "sort xs = [] \<longleftrightarrow> xs = []"
  by (metis set_empty set_sort)

lemma seg_table_sound:
  "e \<le> length s \<Longrightarrow> seg_table s e ! e = Some ws \<Longrightarrow> segmentation ws (take e s)"
proof (induction e arbitrary: ws rule: less_induct)
  case (less e)
  show ?case
  proof (cases e)
    case 0
    then show ?thesis using less.prems by (simp add: segmentation_def)
  next
    case (Suc n)
    have "ws \<in> set (seg_choices (seg_table s n) s e)"
      using less.prems(2) Suc min_words_in
      by (auto simp: Let_def nth_append split: list.splits)
    then obtain start prefix where st: "start < e"
      "take (e - start) (drop start s) \<in> set SPACED_SIGNAL_WORDS"
      "seg_table s n ! start = Some prefix" "ws = prefix @ [take (e - start) (drop start s)]"
      using less.prems(1) by (auto simp: seg_choices_iff)
    then have "seg_table s start ! start = Some prefix" using Suc seg_table_nth [of start n s] by simp
    then have "segmentation prefix (take start s)" using less.IH st less.prems by simp
    moreover have "take start s @ take (e - start) (drop start s) = take e s"
      using st(1) by (metis le_add_diff_inverse less_imp_le_nat take_add)
    ultimately show ?thesis using st by (simp add: segmentation_def)
  qed
qed

lemma seg_table_complete:
  "e \<le> length s \<Longrightarrow> segmentation ws (take e s) \<Longrightarrow> seg_table s e ! e \<noteq> None"
proof (induction e arbitrary: ws rule: less_induct)
  case (less e)
  show ?case
  proof (cases ws rule: rev_cases)
    case Nil
    then have "e = 0" using less.prems by (auto simp: segmentation_def)
    then show ?thesis by simp
  next
    case (snoc prefix w)
    then have w: "w \<in> set SPACED_SIGNAL_WORDS" and cat: "concat prefix @ w = take e s"
      and pre: "set prefix \<subseteq> set SPACED_SIGNAL_WORDS"
      using less.prems(2) by (auto simp: segmentation_def)
    let ?st = "length (concat prefix)"
    have len: "?st + length w = e" using arg_cong [OF cat, of length] less.prems(1) by simp
    then obtain n where n: "e = Suc n" using vocabulary_short [OF w] by (cases e) auto
    have lt: "?st < e" and short: "e - 16 \<le> ?st" using len vocabulary_short [OF w] by auto
    have "take ?st (take e s) = concat prefix" using cat by (metis append_eq_conv_conj)
    then have take: "take ?st s = concat prefix" using lt by (simp add: min_def)
    have word: "take (e - ?st) (drop ?st s) = w"
      using cat by (metis append_eq_conv_conj drop_take)
    have "seg_table s ?st ! ?st \<noteq> None"
      using less.IH [OF lt, of prefix] take pre less.prems(1) lt by (simp add: segmentation_def)
    then obtain p where "seg_table s n ! ?st = Some p"
      using seg_table_nth [of ?st n s] lt n by auto
    then have "p @ [w] \<in> set (seg_choices (seg_table s n) s e)"
      using seg_choices_iff [OF less.prems(1)] short lt word w by blast
    then have "seg_choices (seg_table s n) s (Suc n) \<noteq> []" using n by auto
    then show ?thesis by (simp add: n Let_def nth_append split: list.splits)
  qed
qed

section \<open>Properties\<close>

text \<open>
  F: rejoining spaced-out letters is exact. A non-empty result splits the letters completely into
  words of the detector's vocabulary, and there is a result whenever such a split exists; text
  with any other letters is left alone.
\<close>

theorem segmentation_exact:
  "(segment_signal_words letters \<noteq> [] \<longleftrightarrow>
      letters \<noteq> [] \<and> {ws. concat ws = casefold letters \<and> set ws \<subseteq> set SPACED_SIGNAL_WORDS} \<noteq> {}) \<and>
   (segment_signal_words letters = [] \<or>
      concat (segment_signal_words letters) = casefold letters \<and>
      set (segment_signal_words letters) \<subseteq> set SPACED_SIGNAL_WORDS)"
proof -
  let ?s = "casefold letters"
  let ?b = "seg_table ?s (length ?s) ! length ?s"
  have last: "last (seg_table ?s (length ?s)) = ?b"
    by (subst last_conv_nth [OF seg_table_nonempty]) simp
  have empty: "?s = [] \<longleftrightarrow> letters = []"
    by (cases letters) (auto simp: casefold_def py_lower_def)
  have sound: "segmentation ws ?s" if "?b = Some ws" for ws
    using seg_table_sound [of "length ?s" ?s ws] that by simp
  have complete: "?b \<noteq> None" if "segmentation ws ?s" for ws
    using seg_table_complete [of "length ?s" ?s ws] that by simp
  show ?thesis
  proof (cases ?b)
    case None
    then have "segment_signal_words letters = []" by (simp add: segment_signal_words_def last Let_def)
    then show ?thesis using None complete by (auto simp: segmentation_def)
  next
    case (Some ws)
    then have "segment_signal_words letters = ws" by (simp add: segment_signal_words_def last Let_def)
    moreover have "ws = [] \<longleftrightarrow> letters = []"
      using sound [OF Some] empty vocabulary_short by (cases ws) (fastforce simp: segmentation_def)+
    ultimately show ?thesis using sound [OF Some] by (auto simp: segmentation_def)
  qed
qed

text \<open>
  F: the quarantine decision is sticky and has a reason. Metadata that already carries the
  quarantine state is quarantined whatever the text says; otherwise a payload is quarantined
  exactly when one of the signal patterns matches one of the two canonical readings.
\<close>

theorem assessment_sticky:
  "(quarantined (assess_untrusted_payload t h (JObj (apply_quarantine_metadata m
       \<lparr>quarantined = True, policy = p, reasons = rs\<rparr>)))) \<and>
   (quarantined (assess_untrusted_payload t h JNull) \<longleftrightarrow>
      {r. \<exists>b code. (code, r) \<in> set SIGNALS \<and>
        rx_search r (canonical_payload_text (h @ [CHR 0x0A] @ t) b)} \<noteq> {}) \<and>
   (quarantined (assess_untrusted_payload t h md) \<longleftrightarrow> reasons (assess_untrusted_payload t h md) \<noteq> [])"
proof -
  have det: "detect_payload_signals t h \<noteq> [] \<longleftrightarrow>
      {r. \<exists>b code. (code, r) \<in> set SIGNALS \<and>
        rx_search r (canonical_payload_text (h @ [CHR 0x0A] @ t) b)} \<noteq> {}"
  proof -
    have "detect_payload_signals t h \<noteq> [] \<longleftrightarrow>
        (\<exists>x \<in> set SIGNALS. rx_search (snd x) (canonical_payload_text (h @ [CHR 0x0A] @ t) False) \<or>
           rx_search (snd x) (canonical_payload_text (h @ [CHR 0x0A] @ t) True))"
      unfolding detect_payload_signals_def Let_def sort_Nil
      by (simp add: filter_empty_conv case_prod_beta' del: SIGNALS_def)
    then show ?thesis by (force simp: ex_bool_eq)
  qed
  have "is_sticky_quarantine (apply_quarantine_metadata m \<lparr>quarantined = True, policy = p, reasons = rs\<rparr>)"
    by (simp add: is_sticky_quarantine_def apply_quarantine_metadata_def Let_def jget_jset)
      (simp add: jget_def)
  moreover have "\<not> is_sticky_quarantine []" by (simp add: is_sticky_quarantine_def jget_def)
  ultimately show ?thesis using det by (simp add: assess_untrusted_payload_def Let_def)
qed

end
