(* ===== verification/SyncParse.thy ===== *)
theory SyncParse
  imports SyncMerge Secrets Poisoning
begin

text \<open>
  The trust boundary of \<^verbatim>\<open>engraphis/core/sync.py\<close> (lines 512 to 885): serialisation of a record,
  device identities, the nesting guard, snapshot freshness metadata, and the validation that
  turns an untrusted bundle row into a record or drops it.

  Lemmas: validation never raises; an accepted row is bounded in every field, holds no control
  character, carries no clock beyond the allowed skew and is a deliverable record of the merge;
  and a record within the limits survives export and validation unchanged.
\<close>

section \<open>Limits\<close>

definition MAX_TOMBSTONES :: nat where "MAX_TOMBSTONES = 200000"
definition MAX_MEMORIES :: nat where "MAX_MEMORIES = 200000"
definition MAX_LINKS :: nat where "MAX_LINKS = 500000"
definition MAX_CONTENT_CHARS :: nat where "MAX_CONTENT_CHARS = 200000"
definition MAX_TITLE_CHARS :: nat where "MAX_TITLE_CHARS = 4000"
definition MAX_SUMMARY_CHARS :: nat where "MAX_SUMMARY_CHARS = 20000"
definition MAX_KEYWORDS :: nat where "MAX_KEYWORDS = 64"
definition MAX_KEYWORD_CHARS :: nat where "MAX_KEYWORD_CHARS = 200"
definition MAX_JSON_CHARS :: nat where "MAX_JSON_CHARS = 40000"
definition MAX_SESSION_ID_CHARS :: nat where "MAX_SESSION_ID_CHARS = 128"
definition MAX_DEVICE_ID_CHARS :: nat where "MAX_DEVICE_ID_CHARS = 128"
definition MAX_SYNC_GENERATION :: int where "MAX_SYNC_GENERATION = push_bit 63 1 - 1"
definition VALID_SENSITIVITY :: "string list" where
  "VALID_SENSITIVITY = [''normal'', ''sensitive'', ''secret'']"

section \<open>Serialisation\<close>

definition exported_row :: "memory_record \<Rightarrow> observation list \<Rightarrow> obj" where
  "exported_row rec obs =
       [(''id'', JStr (mem_id rec)), (''workspace_id'', opt_str (workspace_id rec)),
        (''repo_id'', opt_str (repo_id rec)), (''session_id'', opt_str (session_id rec)),
        (''scope'', JStr (scope_value (scope rec))), (''mtype'', JStr (mtype_value (mtype rec))),
        (''title'', JStr (title rec)), (''content'', JStr (content rec)),
        (''summary'', JStr (summary rec)), (''keywords'', JList (map JStr (mem_keywords rec))),
        (''metadata'', JObj (metadata rec)), (''importance'', JFloat (Fin (importance rec))),
        (''surprise'', JFloat (Fin (surprise rec))), (''stability'', JFloat (Fin (stability rec))),
        (''confidence'', JFloat (Fin (confidence rec))), (''access_count'', JInt (access_count rec)),
        (''last_access'', opt_float (last_access rec)), (''valid_from'', opt_float (valid_from rec)),
        (''valid_to'', opt_float (valid_to rec)),
        (''valid_to_recorded_at'', opt_float (valid_to_recorded_at rec)),
        (''closure_observations'', JList (map obs_json obs)),
        (''ingested_at'', opt_float (ingested_at rec)), (''expired_at'', opt_float (expired_at rec)),
        (''modified_hlc'', JStr (modified_hlc rec)), (''pinned'', JBool (pinned rec)),
        (''sensitivity'', JStr (sensitivity rec)), (''pinned_at'', opt_float (pinned_at rec)),
        (''unpinned_at'', opt_float (unpinned_at rec)), (''subject_key'', JStr (subject_key rec)),
        (''claim_kind'', JStr (claim_kind rec)), (''provenance'', JObj (provenance rec))]"

definition record_to_dict :: "memory_record \<Rightarrow> obj result" where
  "record_to_dict rec =
     rbind (record_closure_observations rec) (\<lambda>obs. Inr (exported_row rec obs))"

section \<open>Coercions\<close>

definition safe_device_id :: "string \<Rightarrow> bool" where
  "safe_device_id s \<longleftrightarrow> s \<noteq> [] \<and> length s \<le> 128 \<and> alnum_or [] (hd s) \<and> list_all (alnum_or ''._:-'') (tl s)"

definition lower_hex :: "nat \<Rightarrow> string \<Rightarrow> bool" where
  "lower_hex n s \<longleftrightarrow> length s = n \<and> list_all (\<lambda>c. c \<in> set LOWER_HEX) s"

definition normalise_device_id :: "pylib \<Rightarrow> json \<Rightarrow> string result" where
  "normalise_device_id L value =
     (if value = JNull \<or> value = JStr [] then Inr ''legacy_anonymous''
      else case value of
        JStr s \<Rightarrow>
          if length s > MAX_DEVICE_ID_CHARS \<or> \<not> safe_device_id s then Inl SyncError
          else if s = ''legacy_anonymous'' \<or> device_match s \<or>
            (take 7 s = ''legacy_'' \<and> lower_hex 16 (drop 7 s))
          then Inr s
          else Inr (''legacy_'' @ take 16 (lib_sha256 L s))
      | _ \<Rightarrow> Inl SyncError)"

definition str_of :: "pylib \<Rightarrow> json \<Rightarrow> string" where
  "str_of L v = (case v of JStr s \<Rightarrow> s | _ \<Rightarrow> lib_str L v)"

definition mtype_of_json :: "pylib \<Rightarrow> json \<Rightarrow> memory_type" where
  "mtype_of_json L v = (case mtype_of_value (str_of L v) of None \<Rightarrow> SEMANTIC | Some m \<Rightarrow> m)"

definition scope_of_json :: "pylib \<Rightarrow> json \<Rightarrow> scope" where
  "scope_of_json L v = (case scope_of_value (str_of L v) of None \<Rightarrow> REPO | Some c \<Rightarrow> c)"

definition safe_json_obj :: "pylib \<Rightarrow> json \<Rightarrow> obj" where
  "safe_json_obj L v =
     (case v of JObj d \<Rightarrow> if lib_dump_len L d > MAX_JSON_CHARS then [] else d | _ \<Rightarrow> [])"

section \<open>Strict parsing\<close>

record scan_state =
  scan_level :: nat
  scan_max :: nat
  scan_in_str :: bool
  scan_esc :: bool

definition scan_char :: "scan_state \<Rightarrow> char \<Rightarrow> scan_state" where
  "scan_char st ch =
     (if scan_in_str st then
        (if scan_esc st then st\<lparr>scan_esc := False\<rparr>
         else if ch = CHR 0x5C then st\<lparr>scan_esc := True\<rparr>
         else if ch = CHR 0x22 then st\<lparr>scan_in_str := False\<rparr>
         else st)
      else if ch = CHR 0x22 then st\<lparr>scan_in_str := True\<rparr>
      else if ch \<in> set ''[{'' then
        (let d = scan_level st + 1 in st\<lparr>scan_level := d, scan_max := max d (scan_max st)\<rparr>)
      else if ch \<in> set '']}'' then st\<lparr>scan_level := scan_level st - 1\<rparr>
      else st)"

definition scan_depth :: "string \<Rightarrow> nat" where
  "scan_depth s =
     scan_max (foldl scan_char \<lparr>scan_level = 0, scan_max = 0, scan_in_str = False, scan_esc = False\<rparr> s)"

definition MAX_BUNDLE_DEPTH :: nat where
  "MAX_BUNDLE_DEPTH = 200"

text \<open>\<open>loads\<close> stands for \<open>json.loads\<close> with the hook that rejects non-finite constants.\<close>

definition loads_strict :: "(string \<Rightarrow> json result) \<Rightarrow> string \<Rightarrow> json result" where
  "loads_strict loads t = (if scan_depth t > MAX_BUNDLE_DEPTH then Inl ValueError else loads t)"

section \<open>Snapshot freshness\<close>

definition snapshot_hash :: "pylib \<Rightarrow> obj \<Rightarrow> string" where
  "snapshot_hash L bundle =
     lib_stable_hash L (JObj (filter (\<lambda>(key, _). key \<notin> {''created_at'', ''state_hash''}) bundle))"

fun py_len :: "json \<Rightarrow> nat result" where
  "py_len (JList xs) = Inr (length xs)"
| "py_len (JObj d) = Inr (length d)"
| "py_len (JStr s) = Inr (length s)"
| "py_len _ = Inl TypeError"

definition or_empty_list :: "json \<Rightarrow> json" where
  "or_empty_list v = (if py_truthy v then v else JList [])"

definition validated_snapshot_freshness :: "pylib \<Rightarrow> obj \<Rightarrow> (int \<times> string \<times> string) option result" where
  "validated_snapshot_freshness L bundle =
     (if as_int L (jget bundle ''version'') 0 < 3 then Inr None
      else
        let tombstones = or_empty_list (jget bundle ''tombstones'')
        in case (jget bundle ''generation'', jget bundle ''previous_hash'', jget bundle ''state_hash'',
              jget bundle ''tombstone_checkpoint'', jget bundle ''tombstone_count'') of
          (JInt generation, JStr previous_hash, JStr state_hash, JStr tombstone_hash, JInt tombstone_count) \<Rightarrow>
            if \<not> (1 \<le> generation \<and> generation \<le> MAX_SYNC_GENERATION) \<or>
               (generation = 1 \<and> previous_hash \<noteq> []) \<or>
               (generation > 1 \<and> \<not> lower_hex 64 previous_hash) \<or>
               \<not> lower_hex 64 state_hash \<or> \<not> lower_hex 64 tombstone_hash
            then Inl SyncError
            else rbind (py_len tombstones) (\<lambda>n.
              if tombstone_count \<noteq> int n \<or> tombstone_hash \<noteq> lib_stable_hash L tombstones \<or>
                 state_hash \<noteq> snapshot_hash L bundle
              then Inl SyncError
              else Inr (Some (generation, previous_hash, state_hash)))
        | _ \<Rightarrow> Inl SyncError)"

section \<open>Row validation\<close>

definition trunc_int :: "real \<Rightarrow> int" where
  "trunc_int x = (if x < 0 then \<lceil>x\<rceil> else \<lfloor>x\<rfloor>)"

text \<open>A scope pointer: absent, or a string that is non-empty before and after clamping.\<close>

definition scope_pointer :: "pylib \<Rightarrow> json \<Rightarrow> string option option" where
  \<comment> \<open>\<open>None\<close>: the row is dropped\<close>
  "scope_pointer L v =
     (case v of
        JNull \<Rightarrow> Some None
      | JStr s \<Rightarrow> if s = [] then None
                  else let c = clamp_str L v 128 in if c = [] then None else Some (Some c)
      | _ \<Rightarrow> None)"

definition clamp_keywords :: "pylib \<Rightarrow> json \<Rightarrow> string list" where
  "clamp_keywords L v =
     (case or_empty_list v of
        JList kws \<Rightarrow> map (\<lambda>k. clamp_str L k MAX_KEYWORD_CHARS) (take MAX_KEYWORDS kws) | _ \<Rightarrow> [])"

definition clamp_sensitivity :: "json \<Rightarrow> string" where
  "clamp_sensitivity v =
     (case v of JStr s \<Rightarrow> if s \<in> set VALID_SENSITIVITY then s else ''normal'' | _ \<Rightarrow> ''normal'')"

definition SYSTEM_TIME_FIELDS :: "string list" where
  "SYSTEM_TIME_FIELDS = [''ingested_at'', ''last_access'', ''valid_to_recorded_at'', ''expired_at'',
     ''pinned_at'', ''unpinned_at'']"

definition SECRET_FIELDS :: "string list" where
  "SECRET_FIELDS = [''title'', ''content'', ''summary'', ''keywords'', ''metadata'', ''provenance'',
     ''subject_key'', ''claim_kind'']"

definition incoming_hlc :: "pylib \<Rightarrow> obj \<Rightarrow> string option" where
  \<comment> \<open>\<open>None\<close>: malformed, or beyond the allowed skew\<close>
  "incoming_hlc L d =
     (case (if jhas d ''modified_hlc'' then jget d ''modified_hlc'' else JStr []) of
        JStr s \<Rightarrow>
          (case parse_modified_hlc True s of
             Inl _ \<Rightarrow> None
           | Inr (physical_ms, _, _) \<Rightarrow>
               if s \<noteq> [] \<and> physical_ms > trunc_int ((lib_now L + TS_FUTURE_SKEW) * 1000)
               then None else Some s)
      | _ \<Rightarrow> None)"

definition observation_in_bounds :: "pylib \<Rightarrow> observation \<Rightarrow> bool" where
  "observation_in_bounds L ob \<longleftrightarrow>
     0 \<le> fst ob \<and> fst ob \<le> WORLD_TS_MAX \<and>
     (case snd ob of None \<Rightarrow> True | Some t \<Rightarrow> 0 \<le> t \<and> t \<le> lib_now L + TS_FUTURE_SKEW)"

definition endpoint_inadmissible :: "pylib \<Rightarrow> obj \<Rightarrow> string \<Rightarrow> real option \<Rightarrow> observation list \<Rightarrow> bool" where
  \<comment> \<open>an endpoint before the start, or an empty interval the local policy does not hold itself\<close>
  "endpoint_inadmissible L d body vf obs =
     (case vf of None \<Rightarrow> False
      | Some f \<Rightarrow>
          (case obs of [] \<Rightarrow> False
           | ob # _ \<Rightarrow>
               fst ob < f \<or>
               (fst ob = f \<and>
                \<not> quarantined (assess_untrusted_payload (clamp_str L (JStr body) MAX_CONTENT_CHARS)
                    (clamp_str L (jget d ''title'') MAX_TITLE_CHARS) JNull))))"

definition accepted_record :: "pylib \<Rightarrow> obj \<Rightarrow> string \<Rightarrow> string \<Rightarrow> string option \<Rightarrow> string option \<Rightarrow>
    string \<Rightarrow> observation list \<Rightarrow> memory_record" where
  \<comment> \<open>the constructor call, before \<open>post_init\<close>\<close>
  "accepted_record L d mid body ws repo hlc obs =
     \<lparr>mem_id = clamp_str L (JStr mid) 128,
      content = clamp_str L (JStr body) MAX_CONTENT_CHARS,
      mtype = mtype_of_json L (jget d ''mtype''),
      scope = scope_of_json L (jget d ''scope''),
      workspace_id = ws, repo_id = repo,
      session_id = (case jget d ''session_id'' of
         JStr s \<Rightarrow> Some (clamp_str L (JStr s) MAX_SESSION_ID_CHARS) | _ \<Rightarrow> None),
      title = clamp_str L (jget d ''title'') MAX_TITLE_CHARS,
      summary = clamp_str L (jget d ''summary'') MAX_SUMMARY_CHARS,
      mem_keywords = clamp_keywords L (jget d ''keywords''),
      metadata = safe_json_obj L (jget d ''metadata''),
      importance = clamp_num L (jget d ''importance'') 0 1 0,
      surprise = clamp_num L (jget d ''surprise'') 0 100 1,
      stability = effective_stability L (jget d ''stability''),
      access_count = effective_access_count (jget d ''access_count''),
      last_access = clamp_ts L (jget d ''last_access'') (lib_now L),
      valid_from = clamp_world_ts L (jget d ''valid_from''),
      valid_to = clamp_world_ts L (jget d ''valid_to''),
      ingested_at = clamp_ts L (jget d ''ingested_at'') (lib_now L),
      expired_at = clamp_ts L (jget d ''expired_at'') (lib_now L),
      subject_key = clamp_str L (jget d ''subject_key'') 512,
      claim_kind = clamp_str L (jget d ''claim_kind'') 256,
      pinned = (jget d ''pinned'' = JBool True),
      sensitivity = clamp_sensitivity (jget d ''sensitivity''),
      provenance = safe_json_obj L (jget d ''provenance''),
      valid_to_recorded_at = clamp_ts L (jget d ''valid_to_recorded_at'') (lib_now L),
      pinned_at = clamp_ts L (jget d ''pinned_at'') (lib_now L),
      unpinned_at = clamp_ts L (jget d ''unpinned_at'') (lib_now L),
      confidence = clamp_num L (jget d ''confidence'') 0 1 1,
      modified_hlc = hlc, closure_observations = obs\<rparr>"

fun is_list :: "json \<Rightarrow> bool" where
  "is_list (JList _) = True" | "is_list _ = False"

definition row_observations :: "pylib \<Rightarrow> obj \<Rightarrow> observation list option" where
  "row_observations L d =
     (let raw = (if jhas d ''closure_observations'' then jget d ''closure_observations'' else JList [])
      in if \<not> is_list raw \<or> is_bool (jget d ''valid_to'') \<or> is_bool (jget d ''valid_to_recorded_at'')
         then None
         else case normalize_closure_json L raw (clamp_world_ts L (jget d ''valid_to''))
             (clamp_ts L (jget d ''valid_to_recorded_at'') (lib_now L)) of
           Inl _ \<Rightarrow> None
         | Inr obs \<Rightarrow> if \<exists>ob \<in> set obs. \<not> observation_in_bounds L ob then None else Some obs)"

definition dict_to_record :: "pylib \<Rightarrow> json \<Rightarrow> memory_record option result" where
  "dict_to_record L v =
     (if \<not> is_obj v then Inr None
      else let d = as_obj v in
        case (jget d ''id'', jget d ''content'') of
          (JStr mid, JStr body) \<Rightarrow>
            (if mid = [] \<or> body = [] then Inr None
             else case scope_pointer L (jget d ''workspace_id'') of None \<Rightarrow> Inr None
             | Some ws \<Rightarrow> (case scope_pointer L (jget d ''repo_id'') of None \<Rightarrow> Inr None
             | Some repo \<Rightarrow>
               (if reject_secrets L (map (\<lambda>k. (k, jget d k)) SECRET_FIELDS) \<noteq> None then Inr None
                else case incoming_hlc L d of None \<Rightarrow> Inr None
                | Some hlc \<Rightarrow>
                  (if \<exists>k \<in> set SYSTEM_TIME_FIELDS.
                        jget d k \<noteq> JNull \<and> clamp_ts L (jget d k) (lib_now L) = None
                   then Inr None
                   else case row_observations L d of None \<Rightarrow> Inr None
                   | Some obs \<Rightarrow>
                     (if endpoint_inadmissible L d body (clamp_world_ts L (jget d ''valid_from'')) obs
                      then Inr None
                      else if hlc \<noteq> [] \<and> (clamp_ts L (jget d ''ingested_at'') (lib_now L) = None \<or>
                                clamp_world_ts L (jget d ''valid_from'') = None)
                      then Inr None
                      else rbind (post_init (accepted_record L d mid body ws repo hlc obs))
                             (\<lambda>r. Inr (Some r)))))))
        | _ \<Rightarrow> Inr None)"

section \<open>Validation is total\<close>

lemma row_observations_Some:
  assumes "row_observations L d = Some obs"
  shows "canonical obs"
    and "obs_set [] (clamp_world_ts L (jget d ''valid_to''))
           (clamp_ts L (jget d ''valid_to_recorded_at'') (lib_now L)) \<subseteq> set obs"
    and "\<forall>ob \<in> set obs. observation_in_bounds L ob"
proof -
  let ?vt = "clamp_world_ts L (jget d ''valid_to'')"
  let ?vtr = "clamp_ts L (jget d ''valid_to_recorded_at'') (lib_now L)"
  obtain raw where n: "normalize_closure_json L raw ?vt ?vtr = Inr obs"
    and b: "\<forall>ob \<in> set obs. observation_in_bounds L ob"
    using assms unfolding row_observations_def Let_def
    by (auto split: if_splits sum.splits)
  obtain xs where "normalize_closure_observations xs ?vt ?vtr = Inr obs"
    using n unfolding normalize_closure_json_def rbind_eq_Inr_conv by blast
  from normalize_Inr [OF this]
  show "canonical obs" "obs_set [] ?vt ?vtr \<subseteq> set obs" by (auto simp: obs_set_def)
  show "\<forall>ob \<in> set obs. observation_in_bounds L ob" by (fact b)
qed

lemma incoming_hlc_Some:
  assumes "incoming_hlc L d = Some h"
  obtains p l n where "parse_modified_hlc True h = Inr (p, l, n)"
    "h \<noteq> [] \<Longrightarrow> p \<le> trunc_int ((lib_now L + TS_FUTURE_SKEW) * 1000)"
  using assms unfolding incoming_hlc_def
  by (auto split: json.splits sum.splits if_splits prod.splits)

lemma incoming_hlc_normal:
  "incoming_hlc L d = Some h \<Longrightarrow> normalize_modified_hlc True h = Inr h"
  by (erule incoming_hlc_Some) (simp add: normalize_modified_hlc_def)

lemma accepted_wf:
  assumes "incoming_hlc L d = Some hlc" "row_observations L d = Some obs"
  shows "wf_record (accepted_record L d mid body ws repo hlc obs)"
  using row_observations_Some [OF assms(2)] incoming_hlc_normal [OF assms(1)]
    clamp_num_range [of 0 1 1 L "jget d ''confidence''"]
  unfolding wf_record_def accepted_record_def memory_record.simps by simp

text \<open>What it takes for a row to be accepted, and the record it becomes.\<close>

definition admits :: "pylib \<Rightarrow> obj \<Rightarrow> string \<Rightarrow> string \<Rightarrow> string option \<Rightarrow> string option \<Rightarrow> string \<Rightarrow>
    observation list \<Rightarrow> bool" where
  "admits L d mid body ws repo hlc obs \<longleftrightarrow>
     jget d ''id'' = JStr mid \<and> jget d ''content'' = JStr body \<and> mid \<noteq> [] \<and> body \<noteq> [] \<and>
     scope_pointer L (jget d ''workspace_id'') = Some ws \<and>
     scope_pointer L (jget d ''repo_id'') = Some repo \<and>
     reject_secrets L (map (\<lambda>k. (k, jget d k)) SECRET_FIELDS) = None \<and>
     incoming_hlc L d = Some hlc \<and>
     (\<forall>k \<in> set SYSTEM_TIME_FIELDS. jget d k = JNull \<or> clamp_ts L (jget d k) (lib_now L) \<noteq> None) \<and>
     row_observations L d = Some obs \<and>
     \<not> endpoint_inadmissible L d body (clamp_world_ts L (jget d ''valid_from'')) obs \<and>
     (hlc = [] \<or> clamp_ts L (jget d ''ingested_at'') (lib_now L) \<noteq> None \<and>
        clamp_world_ts L (jget d ''valid_from'') \<noteq> None)"

lemma dict_to_record_admits:
  "admits L d mid body ws repo hlc obs \<Longrightarrow>
   dict_to_record L (JObj d) = Inr (Some (accepted_record L d mid body ws repo hlc obs))"
  unfolding admits_def dict_to_record_def Let_def
  using post_init_id [OF accepted_wf]
  by auto

lemma dict_to_record_cases:
  assumes "dict_to_record L v \<noteq> Inr None"
  obtains d mid body ws repo hlc obs where "v = JObj d" "admits L d mid body ws repo hlc obs"
proof (cases "is_obj v")
  case False
  then show ?thesis using assms by (simp add: dict_to_record_def)
next
  case True
  then obtain d where v: "v = JObj d" by (cases v) auto
  show ?thesis
  proof (rule that [OF v])
    show "admits L d (case jget d ''id'' of JStr s \<Rightarrow> s | _ \<Rightarrow> [])
        (case jget d ''content'' of JStr s \<Rightarrow> s | _ \<Rightarrow> []) (the (scope_pointer L (jget d ''workspace_id'')))
        (the (scope_pointer L (jget d ''repo_id''))) (the (incoming_hlc L d)) (the (row_observations L d))"
      using assms unfolding v dict_to_record_def Let_def admits_def is_obj.simps as_obj.simps
      by (auto split: json.splits option.splits if_splits intro: ccontr)
  qed
qed

section \<open>What an accepted row is bounded by\<close>

definition clean :: "nat \<Rightarrow> string \<Rightarrow> bool" where
  "clean n s \<longleftrightarrow> length s \<le> n \<and> (\<forall>c \<in> set s. \<not> control_char c)"

definition past :: "pylib \<Rightarrow> real option \<Rightarrow> bool" where
  \<comment> \<open>a system timestamp no later than the receiver's clock and its skew window\<close>
  "past L t \<longleftrightarrow> (case t of None \<Rightarrow> True | Some x \<Rightarrow> 0 \<le> x \<and> x \<le> max 0 (lib_now L + TS_FUTURE_SKEW))"

definition world :: "real option \<Rightarrow> bool" where
  "world t \<longleftrightarrow> (case t of None \<Rightarrow> True | Some x \<Rightarrow> 0 \<le> x \<and> x \<le> WORLD_TS_MAX)"

definition bounded_row :: "pylib \<Rightarrow> memory_record \<Rightarrow> bool" where
  "bounded_row L r \<longleftrightarrow>
     clean 128 (mem_id r) \<and> clean MAX_CONTENT_CHARS (content r) \<and> clean MAX_TITLE_CHARS (title r) \<and>
     clean MAX_SUMMARY_CHARS (summary r) \<and> clean 512 (subject_key r) \<and> clean 256 (claim_kind r) \<and>
     length (mem_keywords r) \<le> MAX_KEYWORDS \<and> list_all (clean MAX_KEYWORD_CHARS) (mem_keywords r) \<and>
     (\<forall>p \<in> {workspace_id r, repo_id r}. case p of None \<Rightarrow> True | Some w \<Rightarrow> w \<noteq> [] \<and> clean 128 w) \<and>
     (case session_id r of None \<Rightarrow> True | Some w \<Rightarrow> clean MAX_SESSION_ID_CHARS w) \<and>
     (\<forall>ob \<in> {metadata r, provenance r}. ob = [] \<or> lib_dump_len L ob \<le> MAX_JSON_CHARS) \<and>
     0 \<le> importance r \<and> importance r \<le> 1 \<and> 0 \<le> surprise r \<and> surprise r \<le> 100 \<and>
     0 \<le> confidence r \<and> confidence r \<le> 1 \<and>
     MIN_STABILITY_DAYS \<le> stability r \<and> stability r \<le> MAX_STABILITY_DAYS \<and>
     0 \<le> access_count r \<and> access_count r \<le> MAX_ACCESS_COUNT \<and>
     sensitivity r \<in> set VALID_SENSITIVITY \<and>
     (\<forall>t \<in> {ingested_at r, last_access r, valid_to_recorded_at r, expired_at r, pinned_at r, unpinned_at r}.
        past L t) \<and>
     (\<forall>t \<in> {valid_from r, valid_to r}. world t) \<and>
     (\<forall>ob \<in> set (closure_observations r). observation_in_bounds L ob)"

lemma clean_clamp [simp]: "clean n (clamp_str L v n)"
  using clamp_str_clean clamp_str_length by (auto simp: clean_def)

lemma past_clamp [simp]: "past L (clamp_ts L v (lib_now L))"
  by (auto simp: past_def clamp_ts_bounds split: option.splits dest: clamp_ts_bounds)

lemma world_clamp [simp]: "world (clamp_world_ts L v)"
  by (auto simp: world_def split: option.splits dest: clamp_world_ts_bounds)

lemma scope_pointer_clean:
  "scope_pointer L v = Some p \<Longrightarrow> (case p of None \<Rightarrow> True | Some w \<Rightarrow> w \<noteq> [] \<and> clean 128 w)"
  by (auto simp: scope_pointer_def Let_def split: json.splits if_splits)

lemma safe_json_obj_bound [simp]:
  "safe_json_obj L v = [] \<or> lib_dump_len L (safe_json_obj L v) \<le> MAX_JSON_CHARS"
  by (auto simp: safe_json_obj_def split: json.splits)

lemma clamp_keywords_bound [simp]:
  "length (clamp_keywords L v) \<le> MAX_KEYWORDS \<and> list_all (clean MAX_KEYWORD_CHARS) (clamp_keywords L v)"
  by (auto simp: clamp_keywords_def list_all_iff split: json.splits)

lemma clamp_sensitivity_valid [simp]: "clamp_sensitivity v \<in> set VALID_SENSITIVITY"
  by (auto simp: clamp_sensitivity_def VALID_SENSITIVITY_def split: json.splits)

lemma effective_access_bounds [simp]:
  "0 \<le> effective_access_count v \<and> effective_access_count v \<le> MAX_ACCESS_COUNT"
  by (cases v) (auto simp: MAX_ACCESS_COUNT_def)

lemma accepted_bounded:
  assumes "admits L d mid body ws repo hlc obs"
  shows "bounded_row L (accepted_record L d mid body ws repo hlc obs)"
proof -
  have "\<forall>ob \<in> set obs. observation_in_bounds L ob"
    and "case ws of None \<Rightarrow> True | Some w \<Rightarrow> w \<noteq> [] \<and> clean 128 w"
    and "case repo of None \<Rightarrow> True | Some w \<Rightarrow> w \<noteq> [] \<and> clean 128 w"
    using assms row_observations_Some(3) scope_pointer_clean by (auto simp: admits_def)
  moreover have "case (case jget d ''session_id'' of JStr s \<Rightarrow> Some (clamp_str L (JStr s) MAX_SESSION_ID_CHARS)
      | _ \<Rightarrow> None) of None \<Rightarrow> True | Some w \<Rightarrow> clean MAX_SESSION_ID_CHARS w"
    by (cases "jget d ''session_id''") simp_all
  ultimately show ?thesis
    unfolding bounded_row_def accepted_record_def memory_record.simps
    by (simp add: clamp_num_range effective_stability_bounds clamp_keywords_bound)
qed

lemma accepted_deliverable:
  assumes "admits L d mid body ws repo hlc obs"
  shows "deliverable (accepted_record L d mid body ws repo hlc obs)"
proof -
  have "nonneg_mark (clamp_ts L v (lib_now L))" for v
    by (auto simp: nonneg_mark_def split: option.splits dest: clamp_ts_bounds)
  then show ?thesis
    using assms accepted_wf
    by (auto simp: deliverable_def admits_def pins_nonneg_def accepted_record_def)
qed

section \<open>Export and validation are inverse\<close>

lemma jget_Cons: "jget ((k, v) # d) k' = (if k = k' then v else jget d k')"
  by (auto simp: jget_def)

lemma jhas_Cons: "jhas ((k, v) # d) k' \<longleftrightarrow> k = k' \<or> jhas d k'"
  by (auto simp: jhas_def)

lemma exported_get:
  "jget (exported_row r obs) ''id'' = JStr (mem_id r)"
  "jget (exported_row r obs) ''content'' = JStr (content r)"
  "jget (exported_row r obs) ''workspace_id'' = opt_str (workspace_id r)"
  "jget (exported_row r obs) ''repo_id'' = opt_str (repo_id r)"
  "jget (exported_row r obs) ''session_id'' = opt_str (session_id r)"
  "jget (exported_row r obs) ''scope'' = JStr (scope_value (scope r))"
  "jget (exported_row r obs) ''mtype'' = JStr (mtype_value (mtype r))"
  "jget (exported_row r obs) ''title'' = JStr (title r)"
  "jget (exported_row r obs) ''summary'' = JStr (summary r)"
  "jget (exported_row r obs) ''keywords'' = JList (map JStr (mem_keywords r))"
  "jget (exported_row r obs) ''metadata'' = JObj (metadata r)"
  "jget (exported_row r obs) ''importance'' = JFloat (Fin (importance r))"
  "jget (exported_row r obs) ''surprise'' = JFloat (Fin (surprise r))"
  "jget (exported_row r obs) ''stability'' = JFloat (Fin (stability r))"
  "jget (exported_row r obs) ''confidence'' = JFloat (Fin (confidence r))"
  "jget (exported_row r obs) ''access_count'' = JInt (access_count r)"
  "jget (exported_row r obs) ''last_access'' = opt_float (last_access r)"
  "jget (exported_row r obs) ''valid_from'' = opt_float (valid_from r)"
  "jget (exported_row r obs) ''valid_to'' = opt_float (valid_to r)"
  "jget (exported_row r obs) ''valid_to_recorded_at'' = opt_float (valid_to_recorded_at r)"
  "jget (exported_row r obs) ''closure_observations'' = JList (map obs_json obs)"
  "jhas (exported_row r obs) ''closure_observations''"
  "jget (exported_row r obs) ''ingested_at'' = opt_float (ingested_at r)"
  "jget (exported_row r obs) ''expired_at'' = opt_float (expired_at r)"
  "jget (exported_row r obs) ''modified_hlc'' = JStr (modified_hlc r)"
  "jhas (exported_row r obs) ''modified_hlc''"
  "jget (exported_row r obs) ''pinned'' = JBool (pinned r)"
  "jget (exported_row r obs) ''sensitivity'' = JStr (sensitivity r)"
  "jget (exported_row r obs) ''pinned_at'' = opt_float (pinned_at r)"
  "jget (exported_row r obs) ''unpinned_at'' = opt_float (unpinned_at r)"
  "jget (exported_row r obs) ''subject_key'' = JStr (subject_key r)"
  "jget (exported_row r obs) ''claim_kind'' = JStr (claim_kind r)"
  "jget (exported_row r obs) ''provenance'' = JObj (provenance r)"
  unfolding exported_row_def by (simp_all add: jget_Cons jhas_Cons)

lemma clamp_str_id: "clean n s \<Longrightarrow> clamp_str L (JStr s) n = s"
  by (simp add: clamp_str_def clean_def strip_control_id)

lemma clamp_num_id: "lo \<le> x \<Longrightarrow> x \<le> hi \<Longrightarrow> clamp_num L (JFloat (Fin x)) lo hi d = x"
  by (simp add: clamp_num_def as_float_def)

lemma clamp_ts_id: "0 \<le> now + TS_FUTURE_SKEW \<Longrightarrow>
    (case t of None \<Rightarrow> True | Some x \<Rightarrow> 0 \<le> x \<and> x \<le> max 0 (now + TS_FUTURE_SKEW)) \<Longrightarrow>
    clamp_ts L (opt_float t) now = t"
  by (cases t) (auto simp: clamp_ts_def as_float_def opt_float_def)

lemma clamp_world_id: "world t \<Longrightarrow> clamp_world_ts L (opt_float t) = t"
  by (cases t) (auto simp: clamp_world_ts_def as_float_def opt_float_def world_def)

lemma scope_pointer_id:
  "(case p of None \<Rightarrow> True | Some w \<Rightarrow> w \<noteq> [] \<and> clean 128 w) \<Longrightarrow> scope_pointer L (opt_str p) = Some p"
  by (cases p) (auto simp: scope_pointer_def opt_str_def clamp_str_id)

lemma clamp_keywords_id:
  "length ks \<le> MAX_KEYWORDS \<Longrightarrow> list_all (clean MAX_KEYWORD_CHARS) ks \<Longrightarrow>
   clamp_keywords L (JList (map JStr ks)) = ks"
  by (auto simp: clamp_keywords_def or_empty_list_def list_all_iff clamp_str_id map_idI)

lemma safe_json_obj_id:
  "d = [] \<or> lib_dump_len L d \<le> MAX_JSON_CHARS \<Longrightarrow> safe_json_obj L (JObj d) = d"
  by (auto simp: safe_json_obj_def)

lemma observation_of_obs_json: "observation_of_json L (obs_json ob) = Inr ob"
  by (cases ob; cases "snd ob") (auto simp: obs_json_def opt_float_def finite_timestamp_def)

lemma rmap_obs_json: "rmap (observation_of_json L) (map obs_json obs) = Inr obs"
  by (induction obs) (simp_all add: observation_of_obs_json)

text \<open>The records a peer can send and have accepted unchanged.\<close>

definition secret_free :: "pylib \<Rightarrow> memory_record \<Rightarrow> bool" where
  "secret_free L r \<longleftrightarrow>
     reject_secrets L
       [(''title'', JStr (title r)), (''content'', JStr (content r)), (''summary'', JStr (summary r)),
        (''keywords'', JList (map JStr (mem_keywords r))), (''metadata'', JObj (metadata r)),
        (''provenance'', JObj (provenance r)), (''subject_key'', JStr (subject_key r)),
        (''claim_kind'', JStr (claim_kind r))] = None"

definition clock_admissible :: "pylib \<Rightarrow> memory_record \<Rightarrow> bool" where
  "clock_admissible L r \<longleftrightarrow>
     (case parse_modified_hlc True (modified_hlc r) of
        Inl _ \<Rightarrow> False
      | Inr (physical_ms, _, _) \<Rightarrow>
          modified_hlc r = [] \<or>
          physical_ms \<le> trunc_int ((lib_now L + TS_FUTURE_SKEW) * 1000) \<and>
          ingested_at r \<noteq> None \<and> valid_from r \<noteq> None)"

definition endpoint_admissible :: "memory_record \<Rightarrow> bool" where
  "endpoint_admissible r \<longleftrightarrow>
     (case valid_from r of None \<Rightarrow> True
      | Some f \<Rightarrow>
          (case closure_observations r of [] \<Rightarrow> True
           | ob # _ \<Rightarrow>
               f < fst ob \<or>
               (f = fst ob \<and> quarantined (assess_untrusted_payload (content r) (title r) JNull))))"

definition exportable :: "pylib \<Rightarrow> memory_record \<Rightarrow> bool" where
  "exportable L r \<longleftrightarrow>
     bounded_row L r \<and> wf_record r \<and> mem_id r \<noteq> [] \<and> content r \<noteq> [] \<and>
     secret_free L r \<and> clock_admissible L r \<and> endpoint_admissible r"

lemma accepted_exported:
  assumes "bounded_row L r" "0 \<le> lib_now L + TS_FUTURE_SKEW"
  shows "accepted_record L (exported_row r (closure_observations r)) (mem_id r) (content r)
    (workspace_id r) (repo_id r) (modified_hlc r) (closure_observations r) = r"
proof -
  note bounds = assms(1) [unfolded bounded_row_def past_def]
  have session: "(case opt_str (session_id r) of JStr s \<Rightarrow> Some (clamp_str L (JStr s) MAX_SESSION_ID_CHARS)
      | _ \<Rightarrow> None) = session_id r"
    using bounds by (cases "session_id r") (simp_all add: opt_str_def clamp_str_id)
  have types: "mtype_of_json L (JStr (mtype_value (mtype r))) = mtype r"
      "scope_of_json L (JStr (scope_value (scope r))) = scope r"
    by (simp_all add: mtype_of_json_def scope_of_json_def str_of_def)
  have "effective_access_count (JInt (access_count r)) = access_count r"
    using bounds by simp
  moreover have "clamp_sensitivity (JStr (sensitivity r)) = sensitivity r"
    using bounds by (simp add: clamp_sensitivity_def)
  ultimately show ?thesis
    using bounds assms(2) session types
    unfolding accepted_record_def exported_get
    by (simp add: clamp_str_id clamp_num_id clamp_ts_id clamp_world_id clamp_keywords_id
        safe_json_obj_id effective_stability_id)
qed

lemma admits_exported:
  assumes "exportable L r" "0 \<le> lib_now L + TS_FUTURE_SKEW"
  shows "admits L (exported_row r (closure_observations r)) (mem_id r) (content r)
    (workspace_id r) (repo_id r) (modified_hlc r) (closure_observations r)"
proof -
  let ?d = "exported_row r (closure_observations r)"
  have b: "bounded_row L r" and wf: "wf_record r" using assms(1) by (simp_all add: exportable_def)
  note bounds = b [unfolded bounded_row_def past_def]
  have ts: "clamp_ts L (opt_float (ingested_at r)) (lib_now L) = ingested_at r"
      "clamp_ts L (opt_float (last_access r)) (lib_now L) = last_access r"
      "clamp_ts L (opt_float (valid_to_recorded_at r)) (lib_now L) = valid_to_recorded_at r"
      "clamp_ts L (opt_float (expired_at r)) (lib_now L) = expired_at r"
      "clamp_ts L (opt_float (pinned_at r)) (lib_now L) = pinned_at r"
      "clamp_ts L (opt_float (unpinned_at r)) (lib_now L) = unpinned_at r"
    using bounds by (simp_all add: clamp_ts_id assms(2))
  have null: "opt_float t = JNull \<longleftrightarrow> t = None" for t
    by (cases t) (simp_all add: opt_float_def)
  have wts: "clamp_world_ts L (opt_float (valid_to r)) = valid_to r"
      "clamp_world_ts L (opt_float (valid_from r)) = valid_from r"
    using bounds by (simp_all add: clamp_world_id)
  have "normalize_closure_observations (closure_observations r) (valid_to r) (valid_to_recorded_at r) =
      Inr (closure_observations r)"
    using wf by (simp add: wf_record_def canonical_normalize)
  moreover have "\<not> is_bool (opt_float t)" for t by (cases t) (simp_all add: opt_float_def)
  ultimately have obs: "row_observations L ?d = Some (closure_observations r)"
    using bounds unfolding row_observations_def exported_get Let_def
    by (simp add: ts wts normalize_closure_json_def rmap_obs_json exported_get)
  have hlc: "incoming_hlc L ?d = Some (modified_hlc r)"
    and full: "modified_hlc r = [] \<or> ingested_at r \<noteq> None \<and> valid_from r \<noteq> None"
  proof -
    have c: "clock_admissible L r" using assms(1) by (simp only: exportable_def)
    then obtain p l n where p: "parse_modified_hlc True (modified_hlc r) = Inr (p, l, n)"
      unfolding clock_admissible_def by (auto split: sum.splits)
    show "incoming_hlc L ?d = Some (modified_hlc r)"
      using c unfolding incoming_hlc_def clock_admissible_def
      by (simp only: exported_get if_True json.case p sum.case prod.case) auto
    show "modified_hlc r = [] \<or> ingested_at r \<noteq> None \<and> valid_from r \<noteq> None"
      using c unfolding clock_admissible_def by (simp only: p sum.case prod.case) blast
  qed
  have clean: "clean MAX_CONTENT_CHARS (content r)" "clean MAX_TITLE_CHARS (title r)"
    using b by (simp_all only: bounded_row_def)
  have "endpoint_admissible r" using assms(1) by (simp only: exportable_def)
  then have edge: "\<not> endpoint_inadmissible L ?d (content r) (valid_from r) (closure_observations r)"
    unfolding endpoint_inadmissible_def endpoint_admissible_def exported_get
    by (auto simp: clean [THEN clamp_str_id] split: option.splits list.splits)
  have times: "\<forall>k \<in> set SYSTEM_TIME_FIELDS. jget ?d k = JNull \<or> clamp_ts L (jget ?d k) (lib_now L) \<noteq> None"
    unfolding SYSTEM_TIME_FIELDS_def by (auto simp: exported_get ts null)
  have fields: "map (\<lambda>k. (k, jget ?d k)) SECRET_FIELDS =
       [(''title'', JStr (title r)), (''content'', JStr (content r)), (''summary'', JStr (summary r)),
        (''keywords'', JList (map JStr (mem_keywords r))), (''metadata'', JObj (metadata r)),
        (''provenance'', JObj (provenance r)), (''subject_key'', JStr (subject_key r)),
        (''claim_kind'', JStr (claim_kind r))]"
    unfolding SECRET_FIELDS_def by (simp only: exported_get list.map)
  have secrets: "reject_secrets L (map (\<lambda>k. (k, jget ?d k)) SECRET_FIELDS) = None"
    using assms(1) unfolding fields exportable_def secret_free_def by blast
  have scopes: "scope_pointer L (opt_str (workspace_id r)) = Some (workspace_id r)"
      "scope_pointer L (opt_str (repo_id r)) = Some (repo_id r)"
    using b by (simp_all add: bounded_row_def scope_pointer_id)
  have nonempty: "mem_id r \<noteq> []" "content r \<noteq> []" using assms(1) by (simp_all add: exportable_def)
  show ?thesis
    unfolding admits_def
    by (intro conjI exported_get nonempty secrets obs hlc times
        scopes [folded exported_get(3,4) [of r "closure_observations r"]])
       (use edge full in \<open>simp_all only: exported_get ts wts simp_thms\<close>)
qed

section \<open>Properties\<close>

text \<open>
  F: Validating an untrusted bundle row never raises: whatever decoded JSON value a peer sends,
  the row is either turned into a record or dropped.
\<close>

theorem validation_total: "\<exists>x. dict_to_record L v = Inr x"
  by (cases "dict_to_record L v = Inr None") (auto elim!: dict_to_record_cases simp: dict_to_record_admits)


text \<open>
  C33: Exporting and validating are inverse: a record within the limits, free of secrets and with
  an admissible clock and history is serialised to a row that the peer accepts and turns back
  into exactly the same record.
\<close>

theorem export_import_roundtrip:
  assumes "exportable L r" "0 \<le> lib_now L + TS_FUTURE_SKEW"
  shows "\<exists>row. record_to_dict r = Inr row \<and> dict_to_record L (JObj row) = Inr (Some r)"
proof (intro exI conjI)
  have wf: "wf_record r" and b: "bounded_row L r" using assms(1) by (simp_all only: exportable_def)
  show "record_to_dict r = Inr (exported_row r (closure_observations r))"
    using wf_observations(1) [OF wf] by (simp add: record_to_dict_def)
  show "dict_to_record L (JObj (exported_row r (closure_observations r))) = Inr (Some r)"
    using dict_to_record_admits [OF admits_exported [OF assms]] accepted_exported [OF b assms(2)] by simp
qed

definition control_id_row :: obj where
  "control_id_row = [(''id'', JStr [CHR 0x01]), (''content'', JStr ''a'')]"

lemma reject_secrets_plain:
  "reject_secrets content_lib (map (\<lambda>k. (k, jget control_id_row k)) SECRET_FIELDS) = None"
proof -
  have "secret_kind content_lib JNull = None" "secret_kind content_lib (JStr ''a'') = None" by code_simp+
  then show ?thesis
    by (simp add: control_id_row_def SECRET_FIELDS_def jget_Cons reject_secrets_def) (simp add: jget_def)
qed

definition control_id_record :: memory_record where
  "control_id_record = accepted_record content_lib control_id_row [CHR 0x01] ''a'' None None [] []"

lemma control_id_row_accepted:
  "dict_to_record content_lib (JObj control_id_row) = Inr (Some control_id_record)"
proof -
  have [simp]: "jget [] k = JNull" for k by (simp add: jget_def)
  have "admits content_lib control_id_row [CHR 0x01] ''a'' None None [] []"
    unfolding admits_def
  proof (intro conjI)
    show "reject_secrets content_lib (map (\<lambda>k. (k, jget control_id_row k)) SECRET_FIELDS) = None"
      by (rule reject_secrets_plain)
    show "row_observations content_lib control_id_row = Some []"
      by (simp add: row_observations_def control_id_row_def jhas_Cons jget_Cons jhas_def
          clamp_world_ts_def as_float_def normalize_closure_json_def normalize_closure_observations_def)
    show "incoming_hlc content_lib control_id_row = Some []"
      by (simp add: incoming_hlc_def control_id_row_def jhas_Cons jhas_def parse_modified_hlc_def)
  qed (simp_all add: control_id_row_def jget_Cons scope_pointer_def SYSTEM_TIME_FIELDS_def
      endpoint_inadmissible_def split: option.split)
  from dict_to_record_admits [OF this]
  show "dict_to_record content_lib (JObj control_id_row) =
      Inr (Some control_id_record)" unfolding control_id_record_def .
qed



text \<open>
  F: A row whose identifier holds control characters only is accepted with an empty identifier,
  although a row without an identifier is unusable.
\<close>


theorem control_id_accepted:
  "\<exists>r. dict_to_record content_lib (JObj control_id_row) = Inr (Some r) \<and> mem_id r = []"
  using control_id_row_accepted
  by (auto simp: control_id_record_def accepted_record_def clamp_str_def strip_control_def control_char_def)

definition plain_record :: memory_record where
  "plain_record = blank_record\<lparr>mem_id := ''m'', content := ''a''\<rparr>"

lemma exportable_plain: "exportable content_lib plain_record"
proof -
  have "secret_kind content_lib (JStr []) = None" "secret_kind content_lib (JStr ''a'') = None"
    "secret_kind content_lib (JList []) = None" "secret_kind content_lib (JObj []) = None" by code_simp+
  then have "secret_free content_lib plain_record"
    by (simp add: secret_free_def plain_record_def blank_record_def reject_secrets_def)
  moreover have "bounded_row content_lib plain_record"
    by (simp add: bounded_row_def plain_record_def blank_record_def clean_def past_def world_def
        control_char_def MAX_CONTENT_CHARS_def stability_defs MAX_ACCESS_COUNT_def VALID_SENSITIVITY_def)
  moreover have "wf_record plain_record"
    by (simp add: wf_record_def plain_record_def blank_record_def canonical_def obs_set_def
        normalize_modified_hlc_def parse_modified_hlc_def)
  ultimately show ?thesis
    by (simp add: exportable_def plain_record_def blank_record_def clock_admissible_def
        endpoint_admissible_def parse_modified_hlc_def)
qed

theorem export_import_roundtrip_witness:
  "\<exists>row. record_to_dict plain_record = Inr row \<and>
     dict_to_record content_lib (JObj row) = Inr (Some plain_record)"
  by (rule export_import_roundtrip [OF exportable_plain]) (simp add: content_lib_def TS_FUTURE_SKEW_def)

end
