(* ===== verification/StoreRows.thy ===== *)
theory StoreRows
  imports SyncParse "HOL-Library.AList"
begin

text \<open>
  The memory rows of \<^verbatim>\<open>engraphis/core/store.py\<close> and the operations that write them: the insert
  or update at the persistence boundary (\<open>add_memory\<close>), the descriptive clock, the closing of a
  validity interval, pins, reinforcement, and the audit log they append to, with the full-text
  mirror kept beside the rows.

  A store is a record of tables. The rows and the closure table are one association list of
  records (a record carries its closure history, as \<open>_records_from_rows\<close> hydrates it), the
  full-text mirror a list of entries, the audit log a list in insertion order. An operation
  takes the store and returns the new one or an error; an error leaves the old store, which is
  what the savepoint of \<open>_write_operation\<close> does. One operation reads the clock once. Embeddings
  are not modelled: the store is used without an embedder, and a row's vector is only the
  presence of its identifier in the vector table.

  Lemmas: every operation keeps the store well formed, in particular the scalar closing time is
  the earliest of the history, the mirror holds exactly one entry per row with the row's text,
  and the delete that \<open>_fts_upsert\<close> skips for a new identifier would have removed nothing.
\<close>

section \<open>Tables\<close>

record tomb_row =
  tomb_deleted_at :: real
  tomb_device :: string
  tomb_workspace :: "string option"
  tomb_repo :: "string option"
  tomb_class :: string

record export_row =
  exp_workspace :: string
  exp_repo :: "string option"
  exp_first :: real
  exp_last :: real

record audit_row =
  au_ts :: real
  au_actor :: string
  au_action :: string
  au_target :: string
  au_detail :: string
  au_prev :: string

text \<open>A version of a relationship between two memories, in insertion order of the table.\<close>

record link_row =
  ln_a :: string
  ln_b :: string
  ln_relation :: string
  ln_layer :: graph_layer
  ln_reason :: string
  ln_created :: real
  ln_from :: "real option"
  ln_to :: "real option"
  ln_recorded :: "real option"
  ln_ingested :: "real option"
  ln_expired :: "real option"

record store =
  st_rows :: "(string \<times> memory_record) list"
  st_fts :: "(string \<times> string \<times> string \<times> string) list"
  st_orphans :: "string list option"
  st_vectors :: "string list"
  st_tombs :: "(string \<times> tomb_row) list"
  st_exports :: "(string \<times> export_row) list"
  st_audit :: "audit_row list"
  st_state :: "(string \<times> string) list"
  st_links :: "link_row list"
  st_minted :: nat

text \<open>
  The environment of an operation: the library with its clock, the serialisation \<open>_dumps\<close>,
  the durable device identity, the identifiers \<open>ids.new_id("memory")\<close> returns in order, and
  the workspace allow-list as the workspace ids it resolves to (\<open>None\<close>: unrestricted).
\<close>

record store_env =
  e_lib :: pylib
  e_dumps :: "json \<Rightarrow> string"
  e_device :: string
  e_mint :: "nat \<Rightarrow> string"
  e_allowed :: "string list option"

definition empty_store :: store where
  "empty_store = \<lparr>st_rows = [], st_fts = [], st_orphans = None, st_vectors = [], st_tombs = [],
     st_exports = [], st_audit = [], st_state = [], st_links = [], st_minted = 0\<rparr>"

definition get_memory :: "store \<Rightarrow> string \<Rightarrow> memory_record option" where
  "get_memory s mid = map_of (st_rows s) mid"

definition authorize_workspace_id :: "store_env \<Rightarrow> string option \<Rightarrow> unit result" where
  "authorize_workspace_id E ws =
     (case e_allowed E of None \<Rightarrow> Inr ()
      | Some allowed \<Rightarrow> (case ws of None \<Rightarrow> Inl ValueError
                         | Some w \<Rightarrow> if w \<in> set allowed then Inr () else Inl ValueError))"

text \<open>A read hides the rows of a workspace the instance is not bound to.\<close>

definition read_memory :: "store_env \<Rightarrow> store \<Rightarrow> string \<Rightarrow> memory_record option" where
  "read_memory E s mid =
     (case get_memory s mid of None \<Rightarrow> None
      | Some r \<Rightarrow> (case authorize_workspace_id E (workspace_id r) of Inl _ \<Rightarrow> None | Inr _ \<Rightarrow> Some r))"

section \<open>The audit log\<close>

definition AUDIT_ACTORS :: "string list" where
  "AUDIT_ACTORS = [''system'', ''user'', ''agent'', ''service'', ''migration'', ''v1_migration'',
     ''schema_migration'', ''consolidation'', ''resolver'', ''engine'', ''poisoning_policy'',
     ''retention'', ''human_review'', ''sync'', ''api'', ''admin'', ''owner'', ''dashboard'',
     ''dashboard_browser_session'', ''local_cli_operator'', ''local_store'', ''secure_erase'',
     ''background'', ''loop'', ''importer'', ''obsidian_import'', ''document_import'', ''test'', ''tester'']"

definition audit_actor_match :: "string \<Rightarrow> bool" where
  \<comment> \<open>\<^verbatim>\<open>^[A-Za-z0-9_][A-Za-z0-9_.:@/-]{0,127}$\<close>\<close>
  "audit_actor_match s \<longleftrightarrow>
     s \<noteq> [] \<and> length s \<le> 128 \<and> alnum_or ''_'' (hd s) \<and> list_all (alnum_or ''_.:@/-'') (tl s)"

definition validate_audit_actor :: "string \<Rightarrow> string result" where
  "validate_audit_actor actor =
     (if actor = [] then Inl ValueError
      else if actor \<in> set AUDIT_ACTORS then Inr actor
      else if audit_actor_match actor then Inr actor
      else Inl ValueError)"

definition audit_entry_hash :: "pylib \<Rightarrow> audit_row \<Rightarrow> string" where
  "audit_entry_hash L r =
     lib_sha256 L (join_with [CHR 0x1F]
       [au_prev r, lib_str L (JFloat (Fin (au_ts r))), au_actor r, au_action r, au_target r, au_detail r])"

text \<open>\<open>ORDER BY ts DESC, rowid DESC LIMIT 1\<close>.\<close>

fun latest_audit :: "audit_row list \<Rightarrow> audit_row option" where
  "latest_audit [] = None"
| "latest_audit (r # rs) =
     (case latest_audit rs of None \<Rightarrow> Some r
      | Some r' \<Rightarrow> if au_ts r > au_ts r' then Some r else Some r')"

definition audit :: "pylib \<Rightarrow> string \<Rightarrow> string \<Rightarrow> string \<Rightarrow> string \<Rightarrow> store \<Rightarrow> store result" where
  "audit L actor action target detail s =
     rbind (validate_audit_actor actor) (\<lambda>a.
       Inr (s\<lparr>st_audit := st_audit s @
         [\<lparr>au_ts = lib_now L, au_actor = a, au_action = action, au_target = target, au_detail = detail,
           au_prev = (case latest_audit (st_audit s) of None \<Rightarrow> [] | Some r \<Rightarrow> audit_entry_hash L r)\<rparr>]\<rparr>))"

section \<open>The full-text mirror\<close>

definition fts_entry :: "memory_record \<Rightarrow> string \<times> string \<times> string \<times> string" where
  "fts_entry r = (mem_id r, title r, content r, join_with '' '' (mem_keywords r))"

definition fts_orphans :: "store \<Rightarrow> string list" where
  "fts_orphans s = remdups (map fst (filter (\<lambda>f. map_of (st_rows s) (fst f) = None) (st_fts s)))"

definition fts_upsert :: "bool \<Rightarrow> memory_record \<Rightarrow> store \<Rightarrow> store" where
  "fts_upsert replace_existing r s =
     (if replace_existing then
        s\<lparr>st_orphans := (case st_orphans s of
              Some os \<Rightarrow> if map_of (st_rows s) (mem_id r) = None then Some (List.insert (mem_id r) os) else Some os
            | None \<Rightarrow> None),
          st_fts := filter (\<lambda>f. fst f \<noteq> mem_id r) (st_fts s) @ [fts_entry r]\<rparr>
      else s\<lparr>st_fts := st_fts s @ [fts_entry r]\<rparr>)"

section \<open>Writing a row\<close>

text \<open>
  The interval check runs twice, before and after the closure history is joined. The chain of
  \<open>.get\<close> calls raises on a nested value that is neither empty nor an object.
\<close>

definition dict_or_empty :: "json \<Rightarrow> obj result" where
  \<comment> \<open>\<open>(v or {})\<close> followed by \<open>.get\<close>\<close>
  "dict_or_empty v = (if \<not> py_truthy v then Inr [] else case v of JObj d \<Rightarrow> Inr d | _ \<Rightarrow> Inl AttributeError)"

definition quarantined_marker :: "memory_record \<Rightarrow> bool result" where
  "quarantined_marker r =
     (if jget (provenance r) ''quarantined'' = JBool True then Inr True
      else rbind (dict_or_empty (jget (metadata r) ''provenance'')) (\<lambda>p.
        if jget p ''quarantined'' = JBool True then Inr True
        else rbind (dict_or_empty (jget (metadata r) ''quarantine'')) (\<lambda>q.
          Inr (jget q ''state'' = JStr ''quarantined''))))"

definition check_interval :: "memory_record \<Rightarrow> unit result" where
  "check_interval r =
     (case (valid_from r, valid_to r) of
        (Some vf, Some vt) \<Rightarrow>
          if vt \<le> vf then
            rbind (quarantined_marker r) (\<lambda>q. if vt < vf \<or> \<not> q then Inl ValueError else Inr ())
          else Inr ()
      | _ \<Rightarrow> Inr ())"

definition setdefault :: "string \<Rightarrow> json \<Rightarrow> obj \<Rightarrow> obj" where
  "setdefault k v d = (if jhas d k then d else jset k v d)"

definition get_default :: "obj \<Rightarrow> string \<Rightarrow> json \<Rightarrow> json" where
  "get_default d k v = (if jhas d k then jget d k else v)"

text \<open>One canonical trust envelope, stored in the column and in the metadata.\<close>

definition canonical_envelope :: "memory_record \<Rightarrow> obj" where
  "canonical_envelope r =
     (let p0 = merge_provenance_envelopes (provenance r) (as_obj (jget (metadata r) ''provenance''));
          p1 = (if jhas p0 ''trusted'' then p0
                else jupdate [(''source'', get_default p0 ''source'' (JStr ''local_store'')),
                       (''trusted'', JBool True),
                       (''trust_origin'', get_default p0 ''trust_origin'' (JStr ''local_store''))] p0)
      in if jget p1 ''trusted'' = JBool True
         then setdefault ''review_state'' (JStr REVIEW_APPROVED) p1
         else setdefault ''review_state'' (JStr REVIEW_PENDING) p1)"

definition with_envelope :: "memory_record \<Rightarrow> memory_record" where
  "with_envelope r =
     (let p = canonical_envelope r
      in r\<lparr>provenance := p, metadata := jset ''provenance'' (JObj p) (metadata r)\<rparr>)"

definition canonical_retention :: "pylib \<Rightarrow> memory_record \<Rightarrow> memory_record" where
  "canonical_retention L r =
     r\<lparr>stability := effective_stability L (JFloat (Fin (stability r))),
       access_count := effective_access_count (JInt (access_count r))\<rparr>"

text \<open>Whether \<open>_memory_descriptive_state\<close> is the same tuple for two records.\<close>

definition same_descriptive_state :: "memory_record \<Rightarrow> memory_record \<Rightarrow> bool" where
  "same_descriptive_state a b \<longleftrightarrow>
     title a = title b \<and> content a = content b \<and> summary a = summary b \<and>
     sort (mem_keywords a) = sort (mem_keywords b) \<and>
     py_eq (JObj (metadata a)) (JObj (metadata b)) \<and> mtype a = mtype b \<and> scope a = scope b \<and>
     importance a = importance b \<and> surprise a = surprise b \<and> confidence a = confidence b \<and>
     sensitivity a = sensitivity b \<and> valid_from a = valid_from b \<and> ingested_at a = ingested_at b \<and>
     session_id a = session_id b \<and> py_eq (JObj (provenance a)) (JObj (provenance b)) \<and>
     subject_key a = subject_key b \<and> claim_kind a = claim_kind b"

definition now_ms :: "pylib \<Rightarrow> int" where
  "now_ms L = trunc_int (lib_now L * 1000)"

definition stamp_hlc :: "store_env \<Rightarrow> memory_record option \<Rightarrow> memory_record \<Rightarrow> memory_record result" where
  "stamp_hlc E existing r =
     (let previous = (case existing of None \<Rightarrow> [] | Some x \<Rightarrow> modified_hlc x);
          changed = (case existing of None \<Rightarrow> True | Some x \<Rightarrow> \<not> same_descriptive_state r x)
      in if changed \<and> (modified_hlc r = [] \<or> modified_hlc r \<le> previous) then
           rbind (advance_modified_hlc previous (modified_hlc r) (e_device E) (now_ms (e_lib E)))
             (\<lambda>h. Inr (r\<lparr>modified_hlc := h\<rparr>))
         else if \<not> changed \<and> modified_hlc r < previous then Inr (r\<lparr>modified_hlc := previous\<rparr>)
         else Inr r)"

definition secret_entries :: "memory_record \<Rightarrow> (string \<times> json) list" where
  "secret_entries r =
     [(''title'', JStr (title r)), (''content'', JStr (content r)), (''summary'', JStr (summary r)),
      (''keywords'', JList (map JStr (mem_keywords r))), (''metadata'', JObj (metadata r)),
      (''provenance'', JObj (provenance r)), (''subject_key'', JStr (subject_key r)),
      (''claim_kind'', JStr (claim_kind r))]"

text \<open>
  The row a write lands on. An empty identifier is minted; an identifier held by another
  workspace is left alone and a fresh one is minted instead, with an audit entry.
\<close>

definition mint_id :: "store_env \<Rightarrow> store \<Rightarrow> string \<times> store" where
  "mint_id E s = (e_mint E (st_minted s), s\<lparr>st_minted := st_minted s + 1\<rparr>)"

definition show_opt :: "string option \<Rightarrow> string" where
  "show_opt v = (case v of None \<Rightarrow> ''None'' | Some w \<Rightarrow> w)"

definition locate_row :: "store_env \<Rightarrow> bool \<Rightarrow> memory_record \<Rightarrow> store \<Rightarrow>
    (memory_record \<times> memory_record option \<times> store) result" where
  "locate_row E audited r s =
     (let (r, s) = (if mem_id r \<noteq> [] then (r, s)
                    else let (i, s) = mint_id E s in (r\<lparr>mem_id := i\<rparr>, s))
      in case get_memory s (mem_id r) of
           None \<Rightarrow> Inr (r, None, s)
         | Some x \<Rightarrow>
             if workspace_id x \<noteq> workspace_id r then
               rbind (audit (e_lib E) ''system'' ''cross_workspace_overwrite_blocked'' (mem_id r)
                   (''existing workspace='' @ show_opt (workspace_id x) @ '', incoming workspace='' @
                    show_opt (workspace_id r)) s) (\<lambda>s.
               let (i, s) = mint_id E s in Inr (r\<lparr>mem_id := i\<rparr>, None, s))
             else if audited then
               rbind (audit (e_lib E) ''system'' ''overwrite'' (mem_id r)
                   (''existing provenance='' @ e_dumps E (JObj (provenance x)) @ '', incoming provenance='' @
                    e_dumps E (JObj (provenance r))) s) (\<lambda>s. Inr (r, Some x, s))
             else Inr (r, Some x, s))"

definition join_history :: "memory_record option \<Rightarrow> memory_record \<Rightarrow> memory_record result" where
  "join_history existing r =
     rbind (normalize_closure_observations
         ((case existing of None \<Rightarrow> [] | Some x \<Rightarrow> closure_observations x) @ closure_observations r) None None)
       (\<lambda>obs. Inr (case obs of [] \<Rightarrow> r\<lparr>closure_observations := obs\<rparr>
                     | (e, ra) # _ \<Rightarrow> r\<lparr>closure_observations := obs, valid_to := Some e,
                                         valid_to_recorded_at := ra\<rparr>))"

definition default_time :: "real \<Rightarrow> real option \<Rightarrow> real option" where
  "default_time now t = (case t of None \<Rightarrow> Some now | Some _ \<Rightarrow> t)"

definition default_clocks :: "pylib \<Rightarrow> memory_record \<Rightarrow> memory_record" where
  "default_clocks L r =
     r\<lparr>ingested_at := default_time (lib_now L) (ingested_at r),
       valid_from := default_time (lib_now L) (valid_from r),
       last_access := default_time (lib_now L) (last_access r)\<rparr>"

definition store_row :: "memory_record option \<Rightarrow> memory_record \<Rightarrow> store \<Rightarrow> store" where
  "store_row existing r s =
     (let s = (if existing = None \<and> st_orphans s = None then s\<lparr>st_orphans := Some (fts_orphans s)\<rparr> else s);
          replace_existing = (existing \<noteq> None \<or> mem_id r \<in> set (the (st_orphans s)))
      in fts_upsert replace_existing r (s\<lparr>st_rows := AList.update (mem_id r) r (st_rows s)\<rparr>))"

definition add_memory_impl :: "store_env \<Rightarrow> bool \<Rightarrow> bool \<Rightarrow> memory_record \<Rightarrow> store \<Rightarrow>
    (memory_record \<times> store) result" where
  "add_memory_impl E audited preserve r s =
     rbind (normalize_modified_hlc True (modified_hlc r)) (\<lambda>_.
     rbind (record_closure_observations r) (\<lambda>obs.
     let r = r\<lparr>closure_observations := obs\<rparr>
     in rbind (check_interval r) (\<lambda>_.
        if reject_secrets (e_lib E) (secret_entries r) \<noteq> None then Inl SecretDetectedError
        else rbind (locate_row E audited (canonical_retention (e_lib E) (with_envelope r)) s) (\<lambda>(r, existing, s).
          rbind (join_history existing r) (\<lambda>r.
          let explicit = (valid_from r \<noteq> None); r = default_clocks (e_lib E) r
          in rbind (if preserve then Inr r else stamp_hlc E existing r) (\<lambda>r.
             rbind (if explicit then check_interval r else Inr ()) (\<lambda>_.
             rbind (if mem_id r \<noteq> [] then assert_id_kind (mem_id r) ''memory'' else Inr []) (\<lambda>_.
             Inr (r, store_row existing r s)))))))))"

definition add_memory :: "store_env \<Rightarrow> bool \<Rightarrow> bool \<Rightarrow> bool \<Rightarrow> memory_record \<Rightarrow> store \<Rightarrow>
    (memory_record \<times> store) result" where
  "add_memory E audited preserve allow_user r s =
     rbind (authorize_workspace_id E (workspace_id r)) (\<lambda>_.
       if scope r = USER \<and> \<not> allow_user then Inl ValueError else add_memory_impl E audited preserve r s)"

section \<open>Updates of one row\<close>

definition put_row :: "memory_record \<Rightarrow> store \<Rightarrow> store" where
  "put_row r s = s\<lparr>st_rows := AList.update (mem_id r) r (st_rows s)\<rparr>"

definition advance_memory_modified_hlc :: "store_env \<Rightarrow> string \<Rightarrow> string \<Rightarrow> store \<Rightarrow> (string \<times> store) result" where
  "advance_memory_modified_hlc E mid observed s =
     (if mid = [] then Inl ValueError
      else rbind (normalize_modified_hlc True observed) (\<lambda>observed.
        case get_memory s mid of None \<Rightarrow> Inl KeyError
        | Some r \<Rightarrow>
            rbind (normalize_modified_hlc True (modified_hlc r)) (\<lambda>current.
            rbind (advance_modified_hlc current observed (e_device E) (now_ms (e_lib E))) (\<lambda>h.
            Inr (h, put_row (r\<lparr>modified_hlc := h\<rparr>) s)))))"

definition close_validity :: "store_env \<Rightarrow> string \<Rightarrow> real option \<Rightarrow> string \<Rightarrow> string \<Rightarrow> store \<Rightarrow> store result" where
  "close_validity E mid end_at actor reason s =
     (let recorded = lib_now (e_lib E); endpoint = (case end_at of None \<Rightarrow> recorded | Some t \<Rightarrow> t)
      in rbind (case get_memory s mid of None \<Rightarrow> Inr s
                | Some r \<Rightarrow>
                    rbind (authorize_workspace_id E (workspace_id r)) (\<lambda>_.
                      if (case valid_from r of None \<Rightarrow> False | Some vf \<Rightarrow> endpoint < vf) then Inl ValueError
                      else
                        let held = closure_observations r; new = (endpoint, Some recorded)
                        in if new \<notin> set held \<and> length held \<ge> MAX_CLOSURE_OBSERVATIONS
                           then Inl ClosureObservationLimitError
                           else
                             let r = r\<lparr>closure_observations := sort_key obs_key (List.insert new held)\<rparr>
                             in Inr (put_row
                               (if (case valid_to r of None \<Rightarrow> True | Some vt \<Rightarrow> vt > endpoint)
                                then r\<lparr>valid_to := Some endpoint, valid_to_recorded_at := Some recorded\<rparr>
                                else r) s)))
         (audit (e_lib E) actor ''invalidate'' mid reason))"

definition set_pinned :: "store_env \<Rightarrow> string \<Rightarrow> bool \<Rightarrow> store \<Rightarrow> store result" where
  "set_pinned E mid p s =
     (case get_memory s mid of None \<Rightarrow> Inr s
      | Some r \<Rightarrow>
          rbind (authorize_workspace_id E (workspace_id r)) (\<lambda>_.
            Inr (if p then (if pinned r then s
                            else put_row (r\<lparr>pinned := True, pinned_at := Some (lib_now (e_lib E))\<rparr>) s)
                 else (if \<not> pinned r then s
                       else put_row (r\<lparr>pinned := False, unpinned_at := Some (lib_now (e_lib E))\<rparr>) s))))"

definition reinforce :: "store_env \<Rightarrow> string \<Rightarrow> real \<Rightarrow> real \<Rightarrow> store \<Rightarrow> store result" where
  "reinforce E mid alpha boost s =
     (case get_memory s mid of None \<Rightarrow> Inr s
      | Some r \<Rightarrow>
          rbind (authorize_workspace_id E (workspace_id r)) (\<lambda>_.
          rbind (reinforced_stability (e_lib E) (JFloat (Fin (stability r))) (JInt (access_count r))
                   (JFloat (Fin alpha)) (JFloat (Fin boost))) (\<lambda>(stab, uses).
            Inr (put_row (r\<lparr>stability := stab, access_count := uses,
                            last_access := Some (lib_now (e_lib E))\<rparr>) s))))"

section \<open>Objects with distinct keys\<close>

lemma jset_same: "map_of d k = Some v \<Longrightarrow> jset k v d = d"
  by (induction k v d rule: jset.induct) (auto split: if_splits)

lemma keys_jset: "set (map fst (jset k v d)) = insert k (set (map fst d))"
  by (induction k v d rule: jset.induct) auto

lemma distinct_jset: "distinct (map fst d) \<Longrightarrow> distinct (map fst (jset k v d))"
  by (induction k v d rule: jset.induct) (use keys_jset in \<open>force simp del: set_map\<close>)+

lemma distinct_jupdate: "distinct (map fst d) \<Longrightarrow> distinct (map fst (jupdate e d))"
  by (induction e arbitrary: d) (auto simp: jupdate_def distinct_jset split: prod.split)

lemma jupdate_Cons: "jupdate ((k, v) # e) d = jupdate e (jset k v d)"
  by (simp add: jupdate_def)

lemma jupdate_same: "(\<And>k v. (k, v) \<in> set e \<Longrightarrow> map_of d k = Some v) \<Longrightarrow> jupdate e d = d"
  by (induction e) (auto simp: jupdate_def jset_same split: prod.split)

lemma jhas_jupdate: "jhas (jupdate e d) k \<longleftrightarrow> jhas d k \<or> k \<in> fst ` set e"
proof (induction e arbitrary: d)
  case Nil
  then show ?case by (simp add: jupdate_def)
next
  case (Cons kv e)
  then show ?case by (cases kv) (auto simp: jupdate_Cons jhas_jset)
qed

section \<open>The canonical trust envelope\<close>

definition envelope_ok :: "memory_record \<Rightarrow> bool" where
  "envelope_ok r \<longleftrightarrow>
     distinct (map fst (provenance r)) \<and> jhas (provenance r) ''trusted'' \<and>
     jhas (provenance r) ''review_state'' \<and> jget (metadata r) ''provenance'' = JObj (provenance r)"

lemma distinct_merge:
  "distinct (map fst d) \<Longrightarrow> distinct (map fst (merge_provenance_envelopes d n))"
  by (simp add: merge_provenance_envelopes_def Let_def distinct_jset distinct_jupdate split: option.split)

lemma canonical_envelope_ok:
  assumes "distinct (map fst (provenance r))"
  shows "envelope_ok (with_envelope r)"
proof -
  have "distinct (map fst (canonical_envelope r))"
    by (simp add: canonical_envelope_def Let_def setdefault_def distinct_jset distinct_jupdate
        distinct_merge assms)
  moreover have "jhas (canonical_envelope r) ''trusted''" "jhas (canonical_envelope r) ''review_state''"
    by (simp_all add: canonical_envelope_def Let_def setdefault_def jhas_jset jhas_jupdate)
  ultimately show ?thesis by (simp add: envelope_ok_def with_envelope_def Let_def jget_jset)
qed

lemma merge_same:
  assumes "distinct (map fst p)" "jhas p ''review_state'' "
  shows "merge_provenance_envelopes p p = p"
proof -
  have "jupdate p p = p" by (rule jupdate_same) (simp add: assms(1))
  moreover have "jset ''trusted'' (JBool False) p = p" if "jget p ''trusted'' = JBool False"
    using that by (intro jset_same) (auto simp: jget_def split: option.splits)
  moreover have "jset ''quarantined'' (JBool True) p = p" if "jget p ''quarantined'' = JBool True"
    using that by (intro jset_same) (auto simp: jget_def split: option.splits)
  moreover have "jset ''review_state'' st p = p" if "restrictive_state p = Some st" for st
    using that assms(2)
    by (intro jset_same) (auto simp: restrictive_state_def jget_def jhas_def Let_def split: if_splits option.splits)
  ultimately show ?thesis
    by (simp add: merge_provenance_envelopes_def Let_def split: option.split)
qed

text \<open>A row that has passed the boundary once passes it unchanged.\<close>

lemma with_envelope_id:
  assumes "envelope_ok r"
  shows "with_envelope r = r"
proof -
  have "canonical_envelope r = provenance r"
    using assms by (simp add: canonical_envelope_def envelope_ok_def Let_def merge_same setdefault_def)
  moreover have "jset ''provenance'' (JObj (provenance r)) (metadata r) = metadata r"
    using assms by (intro jset_same) (auto simp: envelope_ok_def jget_def split: option.splits)
  ultimately show ?thesis by (simp add: with_envelope_def Let_def)
qed

section \<open>Well-formed stores\<close>

definition earliest_end :: "observation list \<Rightarrow> real option" where
  "earliest_end obs = (case obs of [] \<Rightarrow> None | ob # _ \<Rightarrow> Some (fst ob))"

definition row_ok :: "memory_record \<Rightarrow> bool" where
  "row_ok r \<longleftrightarrow>
     wf_record r \<and> envelope_ok r \<and> valid_to r = earliest_end (closure_observations r) \<and>
     MIN_STABILITY_DAYS \<le> stability r \<and> stability r \<le> MAX_STABILITY_DAYS \<and>
     0 \<le> access_count r \<and> access_count r \<le> MAX_ACCESS_COUNT \<and>
     ingested_at r \<noteq> None \<and> valid_from r \<noteq> None \<and> last_access r \<noteq> None"

definition mirror_exact :: "store \<Rightarrow> bool" where
  "mirror_exact s \<longleftrightarrow>
     distinct (map fst (st_fts s)) \<and>
     (\<forall>i. map_of (st_fts s) i = map_option (\<lambda>r. snd (fts_entry r)) (get_memory s i)) \<and>
     st_orphans s \<in> {None, Some []}"

definition store_ok :: "store \<Rightarrow> bool" where
  "store_ok s \<longleftrightarrow>
     distinct (map fst (st_rows s)) \<and>
     (\<forall>i r. get_memory s i = Some r \<longrightarrow> mem_id r = i \<and> row_ok r) \<and> mirror_exact s"

definition mint_fresh :: "store_env \<Rightarrow> store \<Rightarrow> bool" where
  \<comment> \<open>\<open>ids.new_id\<close> returns an identifier no row has\<close>
  "mint_fresh E s \<longleftrightarrow> (\<forall>n \<ge> st_minted s. get_memory s (e_mint E n) = None \<and> e_mint E n \<noteq> [])"

lemma get_put: "get_memory (put_row r s) i = (if i = mem_id r then Some r else get_memory s i)"
  by (simp add: get_memory_def put_row_def update_conv')

lemma put_row_mirror:
  assumes "mirror_exact s" "get_memory s (mem_id r) = Some x" "fts_entry r = fts_entry x"
  shows "mirror_exact (put_row r s)"
proof -
  have "st_fts (put_row r s) = st_fts s" "st_orphans (put_row r s) = st_orphans s"
    by (simp_all add: put_row_def)
  then show ?thesis using assms by (simp add: mirror_exact_def get_put)
qed

lemma put_row_ok:
  assumes "store_ok s" "get_memory s (mem_id r) = Some x" "row_ok r" "fts_entry r = fts_entry x"
  shows "store_ok (put_row r s)"
proof -
  have "distinct (map fst (st_rows (put_row r s)))"
    using assms(1) by (simp add: store_ok_def put_row_def distinct_update)
  then show ?thesis
    using assms put_row_mirror [OF _ assms(2,4)] by (simp add: store_ok_def get_put)
qed

lemma not_in_mirror:
  assumes "mirror_exact s" "get_memory s i = None" "f \<in> set (st_fts s)"
  shows "fst f \<noteq> i"
proof
  assume "fst f = i"
  then have "map_of (st_fts s) i \<noteq> None" using assms(3) by (auto simp: map_of_eq_None_iff)
  then show False using assms(1,2) by (simp add: mirror_exact_def)
qed

lemma no_orphans: "mirror_exact s \<Longrightarrow> fts_orphans s = []"
  using not_in_mirror unfolding fts_orphans_def get_memory_def by (metis (lifting) filter_False list.map(1) remdups.simps(1))

text \<open>The delete skipped for a new identifier would remove nothing.\<close>

lemma skipped_delete:
  assumes "mirror_exact s" "get_memory s (mem_id r) = None"
  shows "filter (\<lambda>f. fst f \<noteq> mem_id r) (st_fts s) = st_fts s"
  using not_in_mirror [OF assms] by (auto simp: filter_id_conv)

lemma store_row_tables:
  assumes "mirror_exact s" "existing = get_memory s (mem_id r)"
  shows "st_fts (store_row existing r s) = filter (\<lambda>f. fst f \<noteq> mem_id r) (st_fts s) @ [fts_entry r]"
    and "st_orphans (store_row existing r s) \<in> {None, Some []}"
    and "st_rows (store_row existing r s) = AList.update (mem_id r) r (st_rows s)"
proof -
  have o: "st_orphans s = None \<or> st_orphans s = Some []" using assms(1) by (auto simp: mirror_exact_def)
  have m: "map_of (AList.update (mem_id r) r (st_rows s)) (mem_id r) \<noteq> None" by (simp add: update_conv')
  show "st_fts (store_row existing r s) = filter (\<lambda>f. fst f \<noteq> mem_id r) (st_fts s) @ [fts_entry r]"
    "st_orphans (store_row existing r s) \<in> {None, Some []}"
    "st_rows (store_row existing r s) = AList.update (mem_id r) r (st_rows s)"
    using o m no_orphans [OF assms(1)] skipped_delete [OF assms(1), of r] assms(2)
    by (cases existing; force simp: store_row_def fts_upsert_def)+
qed

lemma store_row_ok:
  assumes "store_ok s" "existing = get_memory s (mem_id r)" "row_ok r"
  shows "store_ok (store_row existing r s)"
    and "get_memory (store_row existing r s) i = (if i = mem_id r then Some r else get_memory s i)"
proof -
  have m: "mirror_exact s" using assms(1) by (simp add: store_ok_def)
  note f = store_row_tables [OF m assms(2)]
  show g: "get_memory (store_row existing r s) i = (if i = mem_id r then Some r else get_memory s i)" for i
    by (simp add: get_memory_def f(3) update_conv')
  have "map_of (filter (\<lambda>f. fst f \<noteq> mem_id r) fs @ [fts_entry r]) i =
      (if i = mem_id r then Some (snd (fts_entry r)) else map_of fs i)" for i fs
    by (induction fs) (auto simp: fts_entry_def)
  moreover have "distinct (map fst (filter (\<lambda>f. fst f \<noteq> mem_id r) (st_fts s) @ [fts_entry r]))"
    using m by (auto simp: mirror_exact_def distinct_map_filter fts_entry_def)
  ultimately have "mirror_exact (store_row existing r s)"
    using m f(2) unfolding mirror_exact_def f(1) g by (simp del: map_of_append)
  moreover have "distinct (map fst (st_rows (store_row existing r s)))"
    using assms(1) by (simp add: store_ok_def f(3) distinct_update)
  ultimately show "store_ok (store_row existing r s)"
    using assms(1,3) g by (simp add: store_ok_def)
qed

section \<open>What a write establishes\<close>

lemma audit_tables:
  assumes "audit L actor action target detail s = Inr s'"
  shows "st_rows s' = st_rows s" "st_fts s' = st_fts s" "st_orphans s' = st_orphans s"
    "st_minted s' = st_minted s" "st_vectors s' = st_vectors s" "st_tombs s' = st_tombs s"
    "st_exports s' = st_exports s" "st_state s' = st_state s" "st_links s' = st_links s"
  using assms by (auto simp: audit_def rbind_eq_Inr_conv)

lemma audit_get: "audit L actor action target detail s = Inr s' \<Longrightarrow> get_memory s' i = get_memory s i"
  by (simp add: get_memory_def audit_tables)

lemma same_rows_ok:
  assumes "st_rows s' = st_rows s" "st_fts s' = st_fts s" "st_orphans s' = st_orphans s"
  shows "store_ok s' \<longleftrightarrow> store_ok s"
  using assms by (simp add: store_ok_def mirror_exact_def get_memory_def)

lemmas audit_ok = same_rows_ok [OF audit_tables(1-3)]

lemma locate_row_Inr:
  assumes "locate_row E audited r s = Inr (r', existing, s')" "store_ok s" "mint_fresh E s"
  shows "store_ok s'" "\<And>i. get_memory s' i = get_memory s i" "existing = get_memory s (mem_id r')"
    and "r' = r\<lparr>mem_id := mem_id r'\<rparr>" "mem_id r' = mem_id r \<or> get_memory s (mem_id r') = None"
    and "mem_id r' \<noteq> []" "\<And>x. existing = Some x \<Longrightarrow> workspace_id x = workspace_id r"
proof -
  define m where "m = (if mem_id r \<noteq> [] then (r, s)
      else let (i, s) = mint_id E s in (r\<lparr>mem_id := i\<rparr>, s))"
  obtain r1 s1 where m1: "m = (r1, s1)" by (cases m)
  have r1: "r1 = r\<lparr>mem_id := mem_id r1\<rparr>" "mem_id r1 \<noteq> []"
      "mem_id r1 = mem_id r \<or> get_memory s (mem_id r1) = None" "workspace_id r1 = workspace_id r"
    and s1: "st_rows s1 = st_rows s" "st_fts s1 = st_fts s" "st_orphans s1 = st_orphans s" "mint_fresh E s1"
    using m1 assms(3) by (auto simp: m_def mint_id_def mint_fresh_def get_memory_def split: if_splits)
  have ok1: "store_ok s1" "get_memory s1 i = get_memory s i" for i
    using same_rows_ok [OF s1(1-3)] assms(2) s1(1) by (simp_all add: get_memory_def)
  obtain d1 d2 where run: "(case get_memory s1 (mem_id r1) of
           None \<Rightarrow> Inr (r1, None, s1)
         | Some x \<Rightarrow>
             if workspace_id x \<noteq> workspace_id r1 then
               rbind (audit (e_lib E) ''system'' ''cross_workspace_overwrite_blocked'' (mem_id r1)
                   (d1 x) s1) (\<lambda>s.
               let (i, s) = mint_id E s in Inr (r1\<lparr>mem_id := i\<rparr>, None, s))
             else if audited then
               rbind (audit (e_lib E) ''system'' ''overwrite'' (mem_id r1)
                   (d2 x) s1) (\<lambda>s. Inr (r1, Some x, s))
             else Inr (r1, Some x, s1)) = Inr (r', existing, s')"
    using assms(1) m1 unfolding locate_row_def m_def by simp
  have all: "store_ok s' \<and> (\<forall>i. get_memory s' i = get_memory s i) \<and> existing = get_memory s (mem_id r') \<and>
      r' = r1\<lparr>mem_id := mem_id r'\<rparr> \<and> (mem_id r' = mem_id r \<or> get_memory s (mem_id r') = None) \<and>
      mem_id r' \<noteq> [] \<and> (\<forall>x. existing = Some x \<longrightarrow> workspace_id x = workspace_id r)"
  proof (cases "get_memory s1 (mem_id r1)")
    case None
    then show ?thesis using run ok1 r1 by auto
  next
    case (Some x)
    show ?thesis
    proof (cases "workspace_id x \<noteq> workspace_id r1")
      case True
      then obtain s2 where a: "audit (e_lib E) ''system'' ''cross_workspace_overwrite_blocked'' (mem_id r1)
                   (d1 x) s1 = Inr s2"
        and m2: "mint_id E s2 = (mem_id r', s')" "existing = None" "r' = r1\<lparr>mem_id := mem_id r'\<rparr>"
        using run Some by (auto simp: rbind_eq_Inr_conv mint_id_def)
      have "get_memory s1 (e_mint E (st_minted s2)) = None" "e_mint E (st_minted s2) \<noteq> []"
        using s1(4) audit_tables(4) [OF a] by (simp_all add: mint_fresh_def)
      moreover have "store_ok s2" "get_memory s2 i = get_memory s1 i" for i
        using audit_ok [OF a a a] ok1(1) audit_get [OF a] by simp_all
      moreover have "store_ok s' = store_ok s2"
        using m2(1) by (intro same_rows_ok) (auto simp: mint_id_def)
      ultimately show ?thesis
        using m2 ok1 by (auto simp: mint_id_def get_memory_def)
    next
      case False
      show ?thesis
      proof (cases audited)
        case True
        have "rbind (audit (e_lib E) ''system'' ''overwrite'' (mem_id r1) (d2 x) s1)
            (\<lambda>s. Inr (r1, Some x, s)) = Inr (r', existing, s')"
          using run Some False True by simp
        then obtain s2 where a: "audit (e_lib E) ''system'' ''overwrite'' (mem_id r1) (d2 x) s1 = Inr s2"
          and e: "r' = r1" "existing = Some x" "s' = s2"
          unfolding rbind_eq_Inr_conv by blast
        have "store_ok s2" "get_memory s2 i = get_memory s i" for i
          using audit_ok [OF a a a] audit_get [OF a] ok1 by simp_all
        then show ?thesis using e r1 ok1(2) Some False by simp
      next
        case n: False
        then show ?thesis using run Some False ok1 r1 by auto
      qed
    qed
  qed
  then show "store_ok s'" "\<And>i. get_memory s' i = get_memory s i" "existing = get_memory s (mem_id r')"
    "mem_id r' = mem_id r \<or> get_memory s (mem_id r') = None"
    "mem_id r' \<noteq> []" "\<And>x. existing = Some x \<Longrightarrow> workspace_id x = workspace_id r"
    by auto
  have e: "r' = r1\<lparr>mem_id := mem_id r'\<rparr>" using all by blast
  have "r1\<lparr>mem_id := i\<rparr> = r\<lparr>mem_id := i\<rparr>" for i by (subst r1(1)) simp
  then show "r' = r\<lparr>mem_id := mem_id r'\<rparr>" by (rule trans [OF e])
qed

lemma join_history_Inr:
  assumes "join_history existing r = Inr r'"
  shows "canonical (closure_observations r')"
    and "set (closure_observations r') = (case existing of None \<Rightarrow> {} | Some x \<Rightarrow> set (closure_observations x)) \<union>
      set (closure_observations r)"
    and "closure_observations r' \<noteq> [] \<Longrightarrow> valid_to r' = earliest_end (closure_observations r')"
    and "closure_observations r' = [] \<Longrightarrow> valid_to r' = valid_to r \<and> valid_to_recorded_at r' = valid_to_recorded_at r"
    and "closure_observations r' \<noteq> [] \<Longrightarrow> obs_set [] (valid_to r') (valid_to_recorded_at r') \<subseteq> set (closure_observations r')"
    and "r' = r\<lparr>closure_observations := closure_observations r', valid_to := valid_to r',
      valid_to_recorded_at := valid_to_recorded_at r'\<rparr>"
proof -
  obtain obs where n: "normalize_closure_observations
         ((case existing of None \<Rightarrow> [] | Some x \<Rightarrow> closure_observations x) @ closure_observations r) None None = Inr obs"
    and r': "r' = (case obs of [] \<Rightarrow> r\<lparr>closure_observations := obs\<rparr>
                     | (e, ra) # _ \<Rightarrow> r\<lparr>closure_observations := obs, valid_to := Some e,
                                         valid_to_recorded_at := ra\<rparr>)"
    using assms by (auto simp: join_history_def rbind_eq_Inr_conv)
  have obs: "closure_observations r' = obs" using r' by (auto split: list.splits)
  show "canonical (closure_observations r')"
    "set (closure_observations r') = (case existing of None \<Rightarrow> {} | Some x \<Rightarrow> set (closure_observations x)) \<union>
      set (closure_observations r)"
    using normalize_Inr [OF n] obs by (auto split: option.splits)
  show "closure_observations r' \<noteq> [] \<Longrightarrow> valid_to r' = earliest_end (closure_observations r')"
    "closure_observations r' = [] \<Longrightarrow> valid_to r' = valid_to r \<and> valid_to_recorded_at r' = valid_to_recorded_at r"
    "closure_observations r' \<noteq> [] \<Longrightarrow> obs_set [] (valid_to r') (valid_to_recorded_at r') \<subseteq> set (closure_observations r')"
    "r' = r\<lparr>closure_observations := closure_observations r', valid_to := valid_to r',
      valid_to_recorded_at := valid_to_recorded_at r'\<rparr>"
    using r' by (auto simp: earliest_end_def obs_set_def split: list.splits)
qed

lemma stamp_hlc_Inr:
  assumes "stamp_hlc E existing r = Inr r'"
    and "normalize_modified_hlc True (modified_hlc r) = Inr (modified_hlc r)"
    and "\<And>x. existing = Some x \<Longrightarrow> normalize_modified_hlc True (modified_hlc x) = Inr (modified_hlc x)"
  shows "r' = r\<lparr>modified_hlc := modified_hlc r'\<rparr>"
    and "normalize_modified_hlc True (modified_hlc r') = Inr (modified_hlc r')"
    and "\<And>x. existing = Some x \<Longrightarrow> modified_hlc x \<le> modified_hlc r'"
    and "\<And>x. existing = Some x \<Longrightarrow> \<not> same_descriptive_state r x \<Longrightarrow> modified_hlc x < modified_hlc r'"
proof -
  have "r' = r\<lparr>modified_hlc := modified_hlc r'\<rparr> \<and> normalize_modified_hlc True (modified_hlc r') = Inr (modified_hlc r') \<and>
    (\<forall>x. existing = Some x \<longrightarrow> modified_hlc x \<le> modified_hlc r' \<and>
      (\<not> same_descriptive_state r x \<longrightarrow> modified_hlc x < modified_hlc r'))"
    using assms advance_canonical
    by (cases existing)
      (force simp: stamp_hlc_def Let_def rbind_eq_Inr_conv not_le not_less less_imp_le split: if_splits)+
  then show "r' = r\<lparr>modified_hlc := modified_hlc r'\<rparr>"
    "normalize_modified_hlc True (modified_hlc r') = Inr (modified_hlc r')"
    "\<And>x. existing = Some x \<Longrightarrow> modified_hlc x \<le> modified_hlc r'"
    "\<And>x. existing = Some x \<Longrightarrow> \<not> same_descriptive_state r x \<Longrightarrow> modified_hlc x < modified_hlc r'"
    by blast+
qed

text \<open>The stages of a successful write.\<close>

lemma add_memory_impl_stages:
  assumes "add_memory_impl E audited preserve r s = Inr (r', s')"
  obtains obs r2 existing s1 r3 where
    "normalize_modified_hlc True (modified_hlc r) = Inr (modified_hlc r)"
    "record_closure_observations r = Inr obs"
    "locate_row E audited (canonical_retention (e_lib E) (with_envelope (r\<lparr>closure_observations := obs\<rparr>))) s =
      Inr (r2, existing, s1)"
    "join_history existing r2 = Inr r3"
    "(if preserve then Inr (default_clocks (e_lib E) r3)
      else stamp_hlc E existing (default_clocks (e_lib E) r3)) = Inr r'"
    "mem_id r' \<noteq> [] \<Longrightarrow> starts_with ''mem_'' (mem_id r')" "s' = store_row existing r' s1"
    "check_interval (r\<lparr>closure_observations := obs\<rparr>) = Inr ()"
    "valid_from r3 \<noteq> None \<Longrightarrow> check_interval r' = Inr ()"
proof -
  obtain h obs where 1: "normalize_modified_hlc True (modified_hlc r) = Inr h"
      "record_closure_observations r = Inr obs"
    and rest: "rbind (check_interval (r\<lparr>closure_observations := obs\<rparr>)) (\<lambda>_.
        if reject_secrets (e_lib E) (secret_entries (r\<lparr>closure_observations := obs\<rparr>)) \<noteq> None
        then Inl SecretDetectedError
        else rbind (locate_row E audited (canonical_retention (e_lib E)
              (with_envelope (r\<lparr>closure_observations := obs\<rparr>))) s) (\<lambda>(r, existing, s).
          rbind (join_history existing r) (\<lambda>r.
          let explicit = (valid_from r \<noteq> None); r = default_clocks (e_lib E) r
          in rbind (if preserve then Inr r else stamp_hlc E existing r) (\<lambda>r.
             rbind (if explicit then check_interval r else Inr ()) (\<lambda>_.
             rbind (if mem_id r \<noteq> [] then assert_id_kind (mem_id r) ''memory'' else Inr []) (\<lambda>_.
             Inr (r, store_row existing r s))))))) = Inr (r', s')"
    using assms unfolding add_memory_impl_def rbind_eq_Inr_conv [of "normalize_modified_hlc _ _"]
      rbind_eq_Inr_conv [of "record_closure_observations _"] Let_def by blast
  obtain u where 2: "check_interval (r\<lparr>closure_observations := obs\<rparr>) = Inr u"
    and rest: "rbind (locate_row E audited (canonical_retention (e_lib E)
              (with_envelope (r\<lparr>closure_observations := obs\<rparr>))) s) (\<lambda>(r, existing, s).
          rbind (join_history existing r) (\<lambda>r.
          let explicit = (valid_from r \<noteq> None); r = default_clocks (e_lib E) r
          in rbind (if preserve then Inr r else stamp_hlc E existing r) (\<lambda>r.
             rbind (if explicit then check_interval r else Inr ()) (\<lambda>_.
             rbind (if mem_id r \<noteq> [] then assert_id_kind (mem_id r) ''memory'' else Inr []) (\<lambda>_.
             Inr (r, store_row existing r s)))))) = Inr (r', s')"
    using rest unfolding rbind_eq_Inr_conv [of "check_interval _"] by (auto split: if_splits)
  obtain r2 existing s1 where 3: "locate_row E audited (canonical_retention (e_lib E)
       (with_envelope (r\<lparr>closure_observations := obs\<rparr>))) s = Inr (r2, existing, s1)"
    and rest: "rbind (join_history existing r2) (\<lambda>r.
          let explicit = (valid_from r \<noteq> None); r = default_clocks (e_lib E) r
          in rbind (if preserve then Inr r else stamp_hlc E existing r) (\<lambda>r.
             rbind (if explicit then check_interval r else Inr ()) (\<lambda>_.
             rbind (if mem_id r \<noteq> [] then assert_id_kind (mem_id r) ''memory'' else Inr []) (\<lambda>_.
             Inr (r, store_row existing r s1))))) = Inr (r', s')"
    using rest unfolding rbind_eq_Inr_conv [of "locate_row _ _ _ _"] by (auto split: prod.splits)
  obtain r3 r4 where 4: "join_history existing r2 = Inr r3"
    and 5: "(if preserve then Inr (default_clocks (e_lib E) r3)
      else stamp_hlc E existing (default_clocks (e_lib E) r3)) = Inr r4"
    and rest: "rbind (if valid_from r3 \<noteq> None then check_interval r4 else Inr ()) (\<lambda>_.
             rbind (if mem_id r4 \<noteq> [] then assert_id_kind (mem_id r4) ''memory'' else Inr []) (\<lambda>_.
             Inr (r4, store_row existing r4 s1))) = Inr (r', s')"
    using rest unfolding rbind_eq_Inr_conv [of "join_history _ _"] Let_def
      rbind_eq_Inr_conv [of "if _ then Inr _ else stamp_hlc _ _ _"] by blast
  have 6: "r4 = r'" "s' = store_row existing r4 s1" "valid_from r3 \<noteq> None \<Longrightarrow> check_interval r' = Inr ()"
    using rest by (auto simp: rbind_eq_Inr_conv split: if_splits)
  have "mem_id r4 \<noteq> [] \<Longrightarrow> \<exists>w. assert_id_kind (mem_id r4) ''memory'' = Inr w"
    using rest by (auto simp: rbind_eq_Inr_conv split: if_splits)
  then have "mem_id r4 \<noteq> [] \<Longrightarrow> starts_with ''mem_'' (mem_id r')"
    using 6(1) by (auto simp: assert_id_kind_def PREFIXES_def split: if_splits)
  moreover have "h = modified_hlc r" by (rule normalize_hlc_id [OF 1(1)])
  ultimately show ?thesis
    using that [OF _ 1(2) 3 4 _ _ _ _ 6(3)] 1(1) 2 5 6(1,2) by simp
qed

text \<open>
  What a successful write establishes: the store stays well formed, the written record is what a
  read returns, every other row is as before, and the record is the caller's up to its trust
  envelope, retention bounds, defaulted clocks, descriptive clock and joined closure history.
\<close>

lemma add_memory_result:
  assumes "add_memory_impl E audited preserve r s = Inr (r', s')" "store_ok s" "mint_fresh E s"
    and "distinct (map fst (provenance r))" "0 \<le> confidence r" "confidence r \<le> 1"
  shows "store_ok s'" "row_ok r'" "\<And>i. get_memory s' i = (if i = mem_id r' then Some r' else get_memory s i)"
    and "r' = (canonical_retention (e_lib E) (with_envelope r))\<lparr>mem_id := mem_id r',
      ingested_at := ingested_at r', valid_from := valid_from r', last_access := last_access r',
      modified_hlc := modified_hlc r', valid_to := valid_to r', valid_to_recorded_at := valid_to_recorded_at r',
      closure_observations := closure_observations r'\<rparr>"
    and "mem_id r' = mem_id r \<or> get_memory s (mem_id r') = None"
    and "starts_with ''mem_'' (mem_id r')"
    and "\<And>x. get_memory s (mem_id r') = Some x \<Longrightarrow> workspace_id x = workspace_id r \<and>
      set (closure_observations x) \<subseteq> set (closure_observations r') \<and>
      (\<not> preserve \<longrightarrow> modified_hlc x \<le> modified_hlc r')"
    and "record_obs r \<subseteq> set (closure_observations r')"
    and "preserve \<Longrightarrow> modified_hlc r' = modified_hlc r"
proof -
  obtain obs r2 existing s1 r3 where
    h: "normalize_modified_hlc True (modified_hlc r) = Inr (modified_hlc r)"
    and obs: "record_closure_observations r = Inr obs"
    and loc: "locate_row E audited (canonical_retention (e_lib E) (with_envelope (r\<lparr>closure_observations := obs\<rparr>))) s =
      Inr (r2, existing, s1)"
    and join: "join_history existing r2 = Inr r3"
    and stamp: "(if preserve then Inr (default_clocks (e_lib E) r3)
      else stamp_hlc E existing (default_clocks (e_lib E) r3)) = Inr r'"
    and kind: "mem_id r' \<noteq> [] \<Longrightarrow> starts_with ''mem_'' (mem_id r')" and s': "s' = store_row existing r' s1"
    using add_memory_impl_stages [OF assms(1)] by metis
  note l = locate_row_Inr [OF loc assms(2,3)] and j = join_history_Inr [OF join]
  define r1 where "r1 = canonical_retention (e_lib E) (with_envelope (r\<lparr>closure_observations := obs\<rparr>))"
  have r2: "r2 = r1\<lparr>mem_id := mem_id r2\<rparr>" using l(4) by (simp add: r1_def)
  have r1: "r1 = (canonical_retention (e_lib E) (with_envelope r))\<lparr>closure_observations := obs\<rparr>"
    by (simp add: r1_def canonical_retention_def with_envelope_def canonical_envelope_def Let_def)
  have r3: "r3 = r1\<lparr>mem_id := mem_id r2, closure_observations := closure_observations r3,
      valid_to := valid_to r3, valid_to_recorded_at := valid_to_recorded_at r3\<rparr>"
    using j(6) by (subst (asm) r2) simp
  let ?d = "default_clocks (e_lib E) r3"
  have ex: "existing = get_memory s (mem_id r2)" "existing = get_memory s1 (mem_id r2)"
    using l(2,3) by simp_all
  have ex_ok: "row_ok x" if "existing = Some x" for x
    using that ex assms(2) by (auto simp: store_ok_def)
  have hlc_d: "modified_hlc ?d = modified_hlc r"
    by (subst r3) (simp add: default_clocks_def r1 canonical_retention_def with_envelope_def Let_def)
  have st: "r' = ?d\<lparr>modified_hlc := modified_hlc r'\<rparr>"
      "normalize_modified_hlc True (modified_hlc r') = Inr (modified_hlc r')"
      "existing = Some x \<Longrightarrow> \<not> preserve \<Longrightarrow> modified_hlc x \<le> modified_hlc r'" for x
    using stamp h hlc_d ex_ok stamp_hlc_Inr [of E existing ?d r']
    by (auto simp: row_ok_def wf_record_def split: if_splits)
  have fields: "mem_id r' = mem_id r2" "closure_observations r' = closure_observations r3"
      "valid_to r' = valid_to r3" "valid_to_recorded_at r' = valid_to_recorded_at r3"
    using arg_cong [OF st(1), of mem_id] arg_cong [OF st(1), of closure_observations]
      arg_cong [OF st(1), of valid_to] arg_cong [OF st(1), of valid_to_recorded_at] arg_cong [OF r3, of mem_id]
    by (simp_all add: default_clocks_def)
  have whole: "r' = (canonical_retention (e_lib E) (with_envelope r))\<lparr>mem_id := mem_id r',
      ingested_at := ingested_at r', valid_from := valid_from r', last_access := last_access r',
      modified_hlc := modified_hlc r', valid_to := valid_to r', valid_to_recorded_at := valid_to_recorded_at r',
      closure_observations := closure_observations r'\<rparr>"
  proof -
    obtain i os vt vtr hh where e3: "r3 = r1\<lparr>mem_id := i, closure_observations := os, valid_to := vt,
        valid_to_recorded_at := vtr\<rparr>" and e': "r' = ?d\<lparr>modified_hlc := hh\<rparr>"
      using r3 st(1) by blast
    show ?thesis unfolding e' default_clocks_def e3 r1 by simp
  qed
  show "r' = (canonical_retention (e_lib E) (with_envelope r))\<lparr>mem_id := mem_id r',
      ingested_at := ingested_at r', valid_from := valid_from r', last_access := last_access r',
      modified_hlc := modified_hlc r', valid_to := valid_to r', valid_to_recorded_at := valid_to_recorded_at r',
      closure_observations := closure_observations r'\<rparr>" by (fact whole)
  have obs2: "closure_observations r2 = obs" by (subst r2) (simp add: r1)
  have set_obs: "set obs = record_obs r"
    using normalize_Inr [OF obs [unfolded record_closure_observations_def]] by (simp add: record_obs_def)
  have empty: "valid_to r3 = None" if "closure_observations r3 = []"
  proof -
    have "record_obs r = {}" using j(2) that obs2 set_obs by auto
    then have "valid_to r = None" by (auto simp: record_obs_def obs_set_def split: option.splits)
    moreover have "valid_to r2 = valid_to r"
      by (subst r2) (simp add: r1 canonical_retention_def with_envelope_def Let_def)
    ultimately show ?thesis using j(4) [OF that] by simp
  qed
  have vt: "valid_to r3 = earliest_end (closure_observations r3)"
    using j(3) empty by (cases "closure_observations r3") (auto simp: earliest_end_def)
  have "obs_set [] (earliest_end (closure_observations r3)) (valid_to_recorded_at r3) \<subseteq>
      set (closure_observations r3)"
    using j(5) vt by (cases "closure_observations r3 = []") (auto simp: earliest_end_def obs_set_def)
  moreover have env: "envelope_ok (with_envelope r)" by (rule canonical_envelope_ok [OF assms(4)])
  have "envelope_ok r'" "confidence r' = confidence r"
      "stability r' = effective_stability (e_lib E) (JFloat (Fin (stability r)))"
      "access_count r' = effective_access_count (JInt (access_count r))"
    using env by (subst whole; simp add: canonical_retention_def with_envelope_def Let_def envelope_ok_def)+
  moreover have "ingested_at r' \<noteq> None" "valid_from r' \<noteq> None" "last_access r' \<noteq> None"
    by (subst st(1); simp add: default_clocks_def default_time_def split: option.split)+
  ultimately show ok: "row_ok r'"
    using st(2) j(1) assms(5,6) effective_stability_bounds effective_access_bounds [of "JInt (access_count r)"]
    by (simp add: row_ok_def wf_record_def fields vt)
  have ex': "existing = get_memory s1 (mem_id r')" using ex by (simp add: fields)
  show "store_ok s'" unfolding s' by (rule store_row_ok(1) [OF l(1) ex' ok])
  show "get_memory s' i = (if i = mem_id r' then Some r' else get_memory s i)" for i
    unfolding s' by (simp add: store_row_ok(2) [OF l(1) ex' ok] l(2))
  have idr: "mem_id (canonical_retention (e_lib E) (with_envelope (r\<lparr>closure_observations := obs\<rparr>))) = mem_id r"
      "workspace_id (canonical_retention (e_lib E) (with_envelope (r\<lparr>closure_observations := obs\<rparr>))) = workspace_id r"
    by (simp_all add: canonical_retention_def with_envelope_def Let_def)
  show "mem_id r' = mem_id r \<or> get_memory s (mem_id r') = None"
    using l(5) idr(1) by (simp add: fields)
  show "starts_with ''mem_'' (mem_id r')" using kind l(6) by (simp add: fields)
  show "workspace_id x = workspace_id r \<and> set (closure_observations x) \<subseteq> set (closure_observations r') \<and>
      (\<not> preserve \<longrightarrow> modified_hlc x \<le> modified_hlc r')" if "get_memory s (mem_id r') = Some x" for x
    using that ex l(7) idr(2) j(2) st(3) by (auto simp: fields)
  show "record_obs r \<subseteq> set (closure_observations r')"
    using j(2) obs2 set_obs by (auto simp: fields)
  show "modified_hlc r' = modified_hlc r" if preserve
    using that stamp hlc_d by simp
qed

section \<open>The other operations\<close>

lemma canonical_insert:
  assumes "canonical os" "ob \<in> set os \<or> length os < MAX_CLOSURE_OBSERVATIONS"
  shows "canonical (sort_key obs_key (List.insert ob os))"
    "set (sort_key obs_key (List.insert ob os)) = insert ob (set os)"
  using assms by (auto simp: canonical_def List.insert_def insert_absorb)

lemma earliest_sorted:
  assumes "canonical os" "ob \<in> set os"
  shows "\<exists>e. earliest_end os = Some e \<and> e \<le> fst ob"
proof (cases os)
  case (Cons x xs)
  then have "obs_key x \<le> obs_key ob" using assms by (auto simp: canonical_def)
  then have "fst x \<le> fst ob" by (auto simp: obs_key_def less_eq_prod_def)
  then show ?thesis using Cons by (simp add: earliest_end_def)
qed (use assms in simp)

lemma earliest_insert:
  assumes "canonical os" "canonical os'" "set os' = insert ob (set os)"
  shows "earliest_end os' = (case earliest_end os of None \<Rightarrow> Some (fst ob) | Some e \<Rightarrow> Some (min e (fst ob)))"
proof -
  obtain e where e: "earliest_end os' = Some e" "e \<le> fst ob"
    using earliest_sorted [OF assms(2), of ob] assms(3) by auto
  then obtain w where w: "w \<in> set os'" "fst w = e"
    by (auto simp: earliest_end_def split: list.splits)
  show ?thesis
  proof (cases os)
    case Nil
    then show ?thesis using w assms(3) e by (simp add: earliest_end_def)
  next
    case (Cons x xs)
    then have x: "earliest_end os = Some (fst x)" "x \<in> set os'" using assms(3) by (auto simp: earliest_end_def)
    have "e \<le> fst x" using earliest_sorted [OF assms(2) x(2)] e(1) by simp
    moreover have "w = ob \<or> fst x \<le> fst w"
      using w assms(3) earliest_sorted [OF assms(1), of w] x(1) by auto
    ultimately show ?thesis using x e w by (auto simp: min_def)
  qed
qed

lemma get_ok: "store_ok s \<Longrightarrow> get_memory s i = Some r \<Longrightarrow> mem_id r = i \<and> row_ok r"
  by (simp add: store_ok_def)

lemma put_updated_ok:
  assumes "store_ok s" "get_memory s i = Some x" "mem_id r = i" "row_ok r" "fts_entry r = fts_entry x"
  shows "store_ok (put_row r s)"
  using put_row_ok [of s r x] assms by simp

lemma advance_memory_ok:
  assumes "advance_memory_modified_hlc E mid ob s = Inr (h, s')" "store_ok s"
  shows "store_ok s'"
proof -
  obtain r c ob' where r: "get_memory s mid = Some r" "s' = put_row (r\<lparr>modified_hlc := h\<rparr>) s"
    and a: "advance_modified_hlc c ob' (e_device E) (now_ms (e_lib E)) = Inr h"
    using assms(1) by (auto simp: advance_memory_modified_hlc_def rbind_eq_Inr_conv split: if_splits option.splits)
  have "normalize_modified_hlc True h = Inr h" by (rule advance_canonical(1) [OF a])
  then show ?thesis
    unfolding r(2) using get_ok [OF assms(2) r(1)]
    by (intro put_updated_ok [OF assms(2) r(1)]) (auto simp: row_ok_def wf_record_def envelope_ok_def fts_entry_def)
qed

lemma pin_fields [simp]:
  "row_ok (r\<lparr>pinned := p, pinned_at := t\<rparr>) = row_ok r" "row_ok (r\<lparr>pinned := p, unpinned_at := t\<rparr>) = row_ok r"
  "fts_entry (r\<lparr>pinned := p, pinned_at := t\<rparr>) = fts_entry r"
  "fts_entry (r\<lparr>pinned := p, unpinned_at := t\<rparr>) = fts_entry r"
  by (simp_all add: row_ok_def wf_record_def envelope_ok_def fts_entry_def)

lemma set_pinned_ok:
  assumes "set_pinned E mid p s = Inr s'" "store_ok s"
  shows "store_ok s'"
proof (cases "get_memory s mid")
  case None
  then show ?thesis using assms by (simp add: set_pinned_def)
next
  case (Some r)
  have "mem_id r = mid" "row_ok r" using get_ok [OF assms(2) Some] by simp_all
  then show ?thesis
    using assms Some put_updated_ok [OF assms(2) Some]
    by (auto simp: set_pinned_def rbind_eq_Inr_conv split: if_splits)
qed

lemma reinforce_ok:
  assumes "reinforce E mid alpha boost s = Inr s'" "store_ok s"
  shows "store_ok s'"
proof (cases "get_memory s mid")
  case None
  then show ?thesis using assms by (simp add: reinforce_def)
next
  case (Some r)
  then obtain stab uses where
    k: "reinforced_stability (e_lib E) (JFloat (Fin (stability r))) (JInt (access_count r))
      (JFloat (Fin alpha)) (JFloat (Fin boost)) = Inr (stab, uses)"
    and s': "s' = put_row (r\<lparr>stability := stab, access_count := uses, last_access := Some (lib_now (e_lib E))\<rparr>) s"
    using assms(1) by (auto simp: reinforce_def rbind_eq_Inr_conv)
  have b: "MIN_STABILITY_DAYS \<le> stab" "stab \<le> MAX_STABILITY_DAYS" "uses = min MAX_ACCESS_COUNT (access_count r + 1)"
    using reinforced_bounds [OF k] effective_stability_bounds(1) [of "e_lib E" "JFloat (Fin (stability r))"] by auto
  have "row_ok r" "mem_id r = mid" using get_ok [OF assms(2) Some] by simp_all
  moreover have "0 \<le> MAX_ACCESS_COUNT" by (simp add: MAX_ACCESS_COUNT_def)
  ultimately show ?thesis
    unfolding s' using b
    by (intro put_updated_ok [OF assms(2) Some]) (auto simp: row_ok_def wf_record_def envelope_ok_def fts_entry_def)
qed

text \<open>An update of one row that keeps its owner and its closure history.\<close>

definition row_update :: "store \<Rightarrow> store \<Rightarrow> bool" where
  "row_update s s' \<longleftrightarrow>
     s' = s \<or> (\<exists>x r. get_memory s (mem_id r) = Some x \<and> workspace_id r = workspace_id x \<and>
       set (closure_observations x) \<subseteq> set (closure_observations r) \<and> s' = put_row r s)"

lemma row_update_refl [simp]: "row_update s s"
  by (simp add: row_update_def)

lemma row_updates:
  assumes "store_ok s"
  shows "advance_memory_modified_hlc E mid ob s = Inr (h, s') \<Longrightarrow> row_update s s'"
    and "set_pinned E mid p s = Inr s' \<Longrightarrow> row_update s s'"
    and "reinforce E mid alpha boost s = Inr s' \<Longrightarrow> row_update s s'"
proof -
  have u: "row_update s (put_row r s)" if "get_memory s mid = Some x" "mem_id r = mem_id x"
    "workspace_id r = workspace_id x" "closure_observations r = closure_observations x" for r x
    using that get_ok [OF assms that(1)] unfolding row_update_def
    by (intro disjI2 exI [of _ x] exI [of _ r]) auto
  show "advance_memory_modified_hlc E mid ob s = Inr (h, s') \<Longrightarrow> row_update s s'"
    by (auto simp: advance_memory_modified_hlc_def rbind_eq_Inr_conv intro!: u split: if_splits option.splits)
  show "set_pinned E mid p s = Inr s' \<Longrightarrow> row_update s s'"
    using u by (auto simp: set_pinned_def rbind_eq_Inr_conv split: if_splits option.splits)
  show "reinforce E mid alpha boost s = Inr s' \<Longrightarrow> row_update s s'"
    by (auto simp: reinforce_def rbind_eq_Inr_conv intro!: u split: option.splits)
qed

lemma close_validity_stages:
  assumes "close_validity E mid end_at actor reason s = Inr s'" "store_ok s"
  obtains s1 where "audit (e_lib E) actor ''invalidate'' mid reason s1 = Inr s'" "store_ok s1" "row_update s s1"
proof -
  define new where "new = ((case end_at of None \<Rightarrow> lib_now (e_lib E) | Some t \<Rightarrow> t), Some (lib_now (e_lib E)))"
  obtain s1 where a: "audit (e_lib E) actor ''invalidate'' mid reason s1 = Inr s'"
    and s1: "s1 = s \<or> (\<exists>r r'. get_memory s mid = Some r \<and>
      (new \<in> set (closure_observations r) \<or> length (closure_observations r) < MAX_CLOSURE_OBSERVATIONS) \<and>
      r' = r\<lparr>closure_observations := sort_key obs_key (List.insert new (closure_observations r))\<rparr> \<and>
      s1 = put_row (if (case valid_to r of None \<Rightarrow> True | Some vt \<Rightarrow> vt > fst new)
                    then r'\<lparr>valid_to := Some (fst new), valid_to_recorded_at := snd new\<rparr> else r') s)"
    using assms(1)
    by (auto simp: close_validity_def rbind_eq_Inr_conv new_def Let_def not_le not_less
        split: option.splits if_splits) 
  have "store_ok s1 \<and> row_update s s1"
  proof (cases "s1 = s")
    case True
    then show ?thesis using assms(2) by (simp add: row_update_def)
  next
    case False
    then obtain r r' where r: "get_memory s mid = Some r"
      and room: "new \<in> set (closure_observations r) \<or> length (closure_observations r) < MAX_CLOSURE_OBSERVATIONS"
      and r': "r' = r\<lparr>closure_observations := sort_key obs_key (List.insert new (closure_observations r))\<rparr>"
      and s1: "s1 = put_row (if (case valid_to r of None \<Rightarrow> True | Some vt \<Rightarrow> vt > fst new)
                    then r'\<lparr>valid_to := Some (fst new), valid_to_recorded_at := snd new\<rparr> else r') s"
      using s1 by blast
    let ?r = "if (case valid_to r of None \<Rightarrow> True | Some vt \<Rightarrow> vt > fst new)
                    then r'\<lparr>valid_to := Some (fst new), valid_to_recorded_at := snd new\<rparr> else r'"
    have ok: "row_ok r" "mem_id r = mid" using get_ok [OF assms(2) r] by simp_all
    have can: "canonical (closure_observations r)" using ok by (simp add: row_ok_def wf_record_def)
    note ins = canonical_insert [OF can room]
    have early: "earliest_end (closure_observations r') =
        (case valid_to r of None \<Rightarrow> Some (fst new) | Some e \<Rightarrow> Some (min e (fst new)))"
      using earliest_insert [OF can ins(1) ins(2)] ok(1) by (simp add: r' row_ok_def)
    have "row_ok ?r"
      using ok(1) ins early
      by (auto simp: row_ok_def wf_record_def envelope_ok_def r' obs_set_def min_def split: option.splits)
    then have "store_ok s1"
      unfolding s1 using ok(2)
      by (intro put_updated_ok [OF assms(2) r]) (auto simp: r' fts_entry_def)
    moreover have "row_update s s1"
      unfolding row_update_def s1 using r ok(2) ins(2)
      by (intro disjI2 exI [of _ r] exI [of _ ?r]) (auto simp: r')
    ultimately show ?thesis by blast
  qed
  then show ?thesis using that [OF a] by blast
qed

end
