(* ===== verification/StoreSteps.thy ===== *)
theory StoreSteps
  imports StoreRows
begin

text \<open>
  Sequences of store operations. Every operation of \<^verbatim>\<open>engraphis/core/store.py\<close> modelled in
  \<open>StoreRows\<close> is one labelled step, a store is reachable when steps lead to it from the empty
  one, and the invariant follows by rule induction from the preservation lemmas. The environment
  (clock, device, identifiers) may change from step to step.
\<close>

section \<open>Steps\<close>

datatype store_op =
    Write bool bool memory_record
  | Stamp string string
  | Close string "real option" string string
  | Pin string bool
  | Reinforce string real real
  | Note string string string string

text \<open>A write takes a record its constructor has validated; an operation that raises has no step.\<close>

fun run_op :: "store_env \<Rightarrow> store_op \<Rightarrow> store \<Rightarrow> store result" where
  "run_op E (Write audited preserve r) s =
     rbind (post_init r) (\<lambda>r. rbind (add_memory E audited preserve False r s) (\<lambda>(_, s). Inr s))"
| "run_op E (Stamp mid observed) s = rbind (advance_memory_modified_hlc E mid observed s) (\<lambda>(_, s). Inr s)"
| "run_op E (Close mid end_at actor reason) s = close_validity E mid end_at actor reason s"
| "run_op E (Pin mid p) s = set_pinned E mid p s"
| "run_op E (Reinforce mid alpha boost) s = reinforce E mid alpha boost s"
| "run_op E (Note actor action target detail) s = audit (e_lib E) actor action target detail s"

fun op_wf :: "store_op \<Rightarrow> bool" where
  \<comment> \<open>the keys of a dictionary are distinct\<close>
  "op_wf (Write _ _ r) = distinct (map fst (provenance r))"
| "op_wf _ = True"

inductive reachable :: "store \<Rightarrow> bool" where
  reach_empty: "reachable empty_store"
| reach_step: "reachable s \<Longrightarrow> mint_fresh E s \<Longrightarrow> op_wf op \<Longrightarrow> run_op E op s = Inr s' \<Longrightarrow> reachable s'"

fun_cases run_opE: "run_op E op s = Inr s'"
inductive_cases reachableE: "reachable s"

lemma post_init_Inr:
  assumes "post_init r = Inr r'"
  shows "provenance r' = provenance r" "0 \<le> confidence r'" "confidence r' \<le> 1" "scope r' = scope r"
    "workspace_id r' = workspace_id r" "record_obs r' = record_obs r"
  using assms post_init_wf [OF assms]
  by (auto simp: post_init_def rbind_eq_Inr_conv wf_record_def record_obs_def obs_set_def
      dest!: normalize_Inr split: option.splits)

lemma write_step:
  assumes "run_op E (Write audited preserve r) s = Inr s'"
  obtains r1 r2 where "post_init r = Inr r1" "add_memory_impl E audited preserve r1 s = Inr (r2, s')"
    "scope r1 \<noteq> USER" "authorize_workspace_id E (workspace_id r1) = Inr ()"
  using assms by (auto simp: rbind_eq_Inr_conv add_memory_def split: if_splits)

lemma run_op_ok:
  assumes "run_op E op s = Inr s'" "store_ok s" "mint_fresh E s" "op_wf op"
  shows "store_ok s'"
proof (cases op)
  case (Write audited preserve r)
  obtain r1 r2 where w: "post_init r = Inr r1" "add_memory_impl E audited preserve r1 s = Inr (r2, s')"
    using assms(1) unfolding Write by (rule write_step)
  have "distinct (map fst (provenance r1))" using assms(4) post_init_Inr(1) [OF w(1)] Write by simp
  then show ?thesis
    using add_memory_result(1) [OF w(2) assms(2,3)] post_init_Inr(2,3) [OF w(1)] by simp
next
  case (Close mid end_at actor reason)
  obtain s1 where a: "audit (e_lib E) actor ''invalidate'' mid reason s1 = Inr s'" "store_ok s1"
    by (rule close_validity_stages [of E mid end_at actor reason s s']) (use assms(1,2) Close in auto)
  then show ?thesis using audit_ok [OF a(1) a(1) a(1)] by simp
next
  case (Note actor action target detail)
  then show ?thesis using assms(1,2) audit_ok [of "e_lib E" actor action target detail s s'] by simp
qed (use assms(1,2) in \<open>auto simp: rbind_eq_Inr_conv intro: advance_memory_ok set_pinned_ok reinforce_ok\<close>)

lemma empty_store_ok: "store_ok empty_store"
  by (simp add: store_ok_def empty_store_def get_memory_def mirror_exact_def)

lemma reachable_ok: "reachable s \<Longrightarrow> store_ok s"
  by (induction rule: reachable.induct) (auto intro: empty_store_ok run_op_ok)

section \<open>One step and a row\<close>

text \<open>How an operation may change a row that exists: the part of the contract that never depends
  on the operation.\<close>

definition row_grows :: "memory_record \<Rightarrow> memory_record \<Rightarrow> bool" where
  "row_grows r r' \<longleftrightarrow>
     mem_id r' = mem_id r \<and> workspace_id r' = workspace_id r \<and>
     set (closure_observations r) \<subseteq> set (closure_observations r') \<and>
     (\<forall>e. valid_to r = Some e \<longrightarrow> (\<exists>e'. valid_to r' = Some e' \<and> e' \<le> e))"

lemma earliest_mono:
  assumes "canonical os" "canonical os'" "set os \<subseteq> set os'" "earliest_end os = Some e"
  shows "\<exists>e'. earliest_end os' = Some e' \<and> e' \<le> e"
proof -
  obtain ob where "ob \<in> set os" "fst ob = e"
    using assms(4) by (auto simp: earliest_end_def split: list.splits)
  then show ?thesis using earliest_sorted [OF assms(2), of ob] assms(3) by auto
qed

lemma row_growsI:
  assumes "row_ok r" "row_ok r'" "mem_id r' = mem_id r" "workspace_id r' = workspace_id r"
    and "set (closure_observations r) \<subseteq> set (closure_observations r')"
  shows "row_grows r r'"
  using assms earliest_mono [of "closure_observations r" "closure_observations r'"]
  by (auto simp: row_grows_def row_ok_def wf_record_def)

lemma row_grows_refl: "row_grows r r"
  by (auto simp: row_grows_def)

lemma update_grows:
  assumes "store_ok s" "store_ok s'" "row_update s s'" "get_memory s i = Some y"
  shows "\<exists>y'. get_memory s' i = Some y' \<and> row_grows y y'"
proof (cases "s' = s")
  case True
  then show ?thesis using assms(4) row_grows_refl by blast
next
  case False
  then obtain x r where x: "get_memory s (mem_id r) = Some x" and ws: "workspace_id r = workspace_id x"
    and obs: "set (closure_observations x) \<subseteq> set (closure_observations r)" and s': "s' = put_row r s"
    using assms(3) by (auto simp: row_update_def)
  show ?thesis
  proof (cases "i = mem_id r")
    case True
    have "row_ok r" using get_ok [OF assms(2), of "mem_id r" r] by (simp add: s' get_put)
    then show ?thesis
      using True assms(4) x row_growsI [of x r] ws obs get_ok [OF assms(1) x] by (simp add: s' get_put)
  qed (use assms(4) row_grows_refl in \<open>simp add: s' get_put\<close>)
qed

lemma run_op_grows:
  assumes "run_op E op s = Inr s'" "store_ok s" "mint_fresh E s" "op_wf op" "get_memory s i = Some y"
  shows "\<exists>y'. get_memory s' i = Some y' \<and> row_grows y y'"
proof -
  have ok': "store_ok s'" by (rule run_op_ok [OF assms(1-4)])
  show ?thesis
  proof (cases op)
    case (Write audited preserve r)
    obtain r1 r2 where w: "post_init r = Inr r1" "add_memory_impl E audited preserve r1 s = Inr (r2, s')"
      using assms(1) unfolding Write by (rule write_step)
    have d: "distinct (map fst (provenance r1))" using assms(4) post_init_Inr(1) [OF w(1)] Write by simp
    note a = add_memory_result [OF w(2) assms(2,3) d post_init_Inr(2,3) [OF w(1)]]
    show ?thesis
    proof (cases "i = mem_id r2")
      case True
      have "row_ok y" "mem_id y = i" using get_ok [OF assms(2,5)] by simp_all
      moreover have "workspace_id r2 = workspace_id r1"
        by (subst a(4)) (simp add: canonical_retention_def with_envelope_def Let_def)
      ultimately have "row_grows y r2"
        using a(2) a(7) [of y] True assms(5) by (intro row_growsI) auto
      then show ?thesis using a(3) True by simp
    next
      case False
      then show ?thesis using a(3) assms(5) row_grows_refl by simp
    qed
  next
    case (Close mid end_at actor reason)
    obtain s1 where a: "audit (e_lib E) actor ''invalidate'' mid reason s1 = Inr s'" "store_ok s1" "row_update s s1"
      by (rule close_validity_stages [of E mid end_at actor reason s s']) (use assms(1,2) Close in auto)
    then show ?thesis using update_grows [OF assms(2) a(2,3) assms(5)] audit_get [OF a(1)] by simp
  next
    case (Note actor action target detail)
    then show ?thesis
      using assms(1,5) audit_get [of "e_lib E" actor action target detail s s'] row_grows_refl by simp
  qed (use assms(1) update_grows [OF assms(2) ok' _ assms(5)] row_updates [OF assms(2)] in
      \<open>auto simp: rbind_eq_Inr_conv\<close>)
qed

section \<open>A concrete run\<close>

definition demo_env :: store_env where
  "demo_env = \<lparr>e_lib = content_lib, e_dumps = (\<lambda>_. []), e_device = dev_a,
     e_mint = (\<lambda>n. ''mem_'' @ replicate (Suc n) (CHR ''0'')), e_allowed = None\<rparr>"

definition demo_record :: memory_record where
  "demo_record = plain_record\<lparr>mem_id := ''mem_a''\<rparr>"

lemma demo_post_init: "post_init demo_record = Inr demo_record"
  by (rule post_init_id) (simp add: wf_record_def demo_record_def plain_record_def blank_record_def
      canonical_def obs_set_def normalize_modified_hlc_def parse_modified_hlc_def)

lemma demo_secret_free: "reject_secrets content_lib (secret_entries demo_record) = None"
proof -
  have "secret_free content_lib plain_record" using exportable_plain by (simp only: exportable_def)
  then show ?thesis by (simp add: secret_entries_def secret_free_def demo_record_def)
qed

definition demo_row :: memory_record where
  "demo_row = default_clocks content_lib (canonical_retention content_lib (with_envelope demo_record))"

definition demo_store :: store where
  "demo_store = store_row None demo_row empty_store"

lemma demo_write: "run_op demo_env (Write False True demo_record) empty_store = Inr demo_store"
proof -
  define r where "r = canonical_retention content_lib (with_envelope demo_record)"
  have id: "mem_id r = ''mem_a''" "closure_observations r = []" "modified_hlc r = []"
    by (simp_all add: r_def canonical_retention_def with_envelope_def Let_def demo_record_def plain_record_def
        blank_record_def)
  have obs: "record_closure_observations demo_record = Inr []"
    by (simp add: record_closure_observations_def demo_record_def plain_record_def blank_record_def
        normalize_closure_observations_def)
  have same: "demo_record\<lparr>closure_observations := []\<rparr> = demo_record"
    by (simp add: demo_record_def plain_record_def blank_record_def)
  have loc: "locate_row demo_env False r empty_store = Inr (r, None, empty_store)"
    by (simp add: locate_row_def id get_memory_def empty_store_def)
  have join: "join_history None r = Inr r"
    by (simp add: join_history_def id normalize_closure_observations_def)
  have e: "valid_from r = None" "check_interval demo_record = Inr ()" "scope demo_record = REPO"
    by (simp_all add: r_def canonical_retention_def with_envelope_def Let_def demo_record_def plain_record_def
        blank_record_def check_interval_def)
  have hlc: "modified_hlc demo_record = []"
    by (simp add: demo_record_def plain_record_def blank_record_def)
  have lib: "e_lib demo_env = content_lib" "authorize_workspace_id demo_env w = Inr ()" for w
    by (simp_all add: demo_env_def authorize_workspace_id_def)
  have "add_memory_impl demo_env False True demo_record empty_store =
      Inr (default_clocks content_lib r, store_row None (default_clocks content_lib r) empty_store)"
    unfolding add_memory_impl_def obs rbind_simps Let_def same lib
    by (simp add: normalize_modified_hlc_def parse_modified_hlc_def hlc e demo_secret_free r_def [symmetric] loc join default_clocks_def id assert_id_kind_def PREFIXES_def
        starts_with_def) 
  then show ?thesis
    by (simp add: demo_post_init add_memory_def e lib demo_store_def demo_row_def r_def)
qed

lemma demo_store_tables:
  "st_rows demo_store = [(''mem_a'', demo_row)]" "st_tombs demo_store = []" "st_exports demo_store = []"
  "get_memory demo_store i = (if i = ''mem_a'' then Some demo_row else None)" "mem_id demo_row = ''mem_a''"
proof -
  show id: "mem_id demo_row = ''mem_a''"
    by (simp add: demo_row_def default_clocks_def canonical_retention_def with_envelope_def Let_def demo_record_def)
  show "st_rows demo_store = [(''mem_a'', demo_row)]" "st_tombs demo_store = []" "st_exports demo_store = []"
    by (simp_all add: demo_store_def store_row_def fts_upsert_def Let_def empty_store_def id)
  then show "get_memory demo_store i = (if i = ''mem_a'' then Some demo_row else None)"
    by (simp add: get_memory_def)
qed

lemma demo_fresh: "mint_fresh demo_env empty_store"
  by (simp add: mint_fresh_def get_memory_def empty_store_def demo_env_def)

lemma demo_wf: "op_wf (Write False True demo_record)"
  by (simp add: demo_record_def plain_record_def blank_record_def)

lemma demo_reachable: "reachable demo_store"
  by (rule reach_step [OF reach_empty demo_fresh demo_wf demo_write])

lemma demo_store_fresh: "mint_fresh demo_env demo_store"
proof -
  have "e_mint demo_env n \<noteq> ''mem_a''" "e_mint demo_env n \<noteq> []" for n by (simp_all add: demo_env_def)
  then show ?thesis by (simp add: mint_fresh_def demo_store_tables)
qed

section \<open>Properties\<close>

text \<open>
  C: Every store reachable from the empty one by writes, clock stamps, closings, pins,
  reinforcements and audit notes is well formed: identifiers are unique and carry the row's own
  identifier, every row has a canonical history whose scalar closing time is its earliest
  endpoint, one canonical trust envelope in both places, retention values in their bounds and
  its clocks set, and the full-text mirror holds exactly one entry per row with the row's text.
\<close>

theorem reachable_well_formed:
  assumes "reachable s"
  shows "store_ok s"
  by (rule reachable_ok [OF assms])

theorem reachable_well_formed_witness:
  "get_memory demo_store ''mem_a'' \<noteq> None \<and> store_ok demo_store"
  using reachable_well_formed [OF demo_reachable] by (simp add: demo_store_tables)

text \<open>
  F: No operation on a reachable store makes a row forget: a row that exists keeps its identifier
  and its workspace, keeps every closure observation it ever received, and once it has an end of
  validity that end can only move earlier.
\<close>

theorem history_append_only:
  assumes "reachable s" "run_op E op s = Inr s'" "mint_fresh E s" "op_wf op" "get_memory s i = Some r"
  shows "\<exists>r'. get_memory s' i = Some r' \<and> row_grows r r'"
  using assms reachable_ok run_op_grows by blast

theorem history_append_only_witness:
  "\<exists>s' r'. run_op demo_env (Pin ''mem_a'' True) demo_store = Inr s' \<and> get_memory s' ''mem_a'' = Some r' \<and>
     row_grows demo_row r'"
proof -
  have row: "get_memory demo_store ''mem_a'' = Some demo_row" by (simp add: demo_store_tables)
  have "\<exists>s'. run_op demo_env (Pin ''mem_a'' True) demo_store = Inr s'"
    using row by (simp add: set_pinned_def authorize_workspace_id_def demo_env_def)
  then obtain s' where s': "run_op demo_env (Pin ''mem_a'' True) demo_store = Inr s'" by blast
  show ?thesis
    using history_append_only [OF demo_reachable s' demo_store_fresh _ row] s' by auto
qed

text \<open>
  F: Skipping the delete for an identifier that is new and not in the one-time orphan inventory
  leaves the same full-text mirror as deleting first, on every reachable store.
\<close>

theorem skipped_delete_sound:
  assumes "reachable s"
  shows "st_fts (store_row (get_memory s (mem_id r)) r s) = st_fts (fts_upsert True r s)"
  using store_row_tables(1) [of s "get_memory s (mem_id r)" r] reachable_ok [OF assms]
  by (simp add: fts_upsert_def store_ok_def)

theorem skipped_delete_sound_witness:
  "st_fts (store_row (get_memory empty_store (mem_id demo_record)) demo_record empty_store) =
     st_fts (fts_upsert True demo_record empty_store)"
  by (rule skipped_delete_sound [OF reach_empty])

end
