(* ===== verification/MemLinks.thy ===== *)
theory MemLinks
  imports StoreSteps
begin

text \<open>
  Relationships between memories in \<^verbatim>\<open>engraphis/core/store.py\<close>: the ownership rule of an endpoint
  pair (\<open>_validate_memory_link_owner_rows\<close>, \<open>_validate_memory_link_endpoints\<close>), the insert or
  supersession of the live version of a link (\<open>add_link\<close>) and the exact version a peer sends
  (\<open>add_link_version\<close>).

  The link table is the list of its rows in rowid order; the largest rowid is the last one, so
  \<open>ORDER BY rowid DESC LIMIT 1\<close> is the last match. Timestamps are finite, so \<open>_finite_timestamp\<close>
  is the identity. A layer argument that is absent keeps the layer of the live version.

  Lemmas: both operations change nothing but the link table, keep it referentially closed (both
  endpoints are rows of one workspace), never remove a version, and a repeated version is a no-op.
\<close>

section \<open>Ownership\<close>

definition scope_rank :: "scope \<Rightarrow> nat" where
  "scope_rank c = (case c of SESSION \<Rightarrow> 0 | REPO \<Rightarrow> 1 | WORKSPACE \<Rightarrow> 2 | USER \<Rightarrow> 3)"

text \<open>What the wider row of a governed pair cites as its sources.\<close>

definition lineage_evidence :: "string \<Rightarrow> memory_record \<Rightarrow> json" where
  "lineage_evidence relation first =
     (if relation = ''promotes'' then jget (metadata first) ''promoted_from''
      else
        let nested = as_obj (jget (metadata first) ''provenance'')
        in if py_truthy (jget (provenance first) ''merges'') then jget (provenance first) ''merges''
           else if py_truthy (jget nested ''merges'') then jget nested ''merges''
           else or_empty_list (jget (metadata first) ''supersedes''))"

definition cites :: "json \<Rightarrow> string \<Rightarrow> bool" where
  "cites evidence mid = (case evidence of JList xs \<Rightarrow> JStr mid \<in> set xs | _ \<Rightarrow> False)"

definition link_owner :: "memory_record \<Rightarrow> string option \<times> string option \<times> scope" where
  "link_owner r = (repo_id r, session_id r, scope r)"

definition GOVERNED_RELATIONS :: "string list" where
  "GOVERNED_RELATIONS = [''promotes'', ''merges'']"

definition validate_link_owner_rows :: "memory_record \<Rightarrow> memory_record \<Rightarrow> string \<Rightarrow> bool \<Rightarrow> unit result" where
  "validate_link_owner_rows first second relation allow_scope_transition =
     (if workspace_id first \<noteq> workspace_id second then Inl ValueError
      else if link_owner first = link_owner second \<or> relation \<notin> set GOVERNED_RELATIONS then Inr ()
      else if \<not> allow_scope_transition then Inl ValueError
      else if scope_rank (scope first) < scope_rank (scope second) then Inl ValueError
      else if \<not> cites (lineage_evidence relation first) (mem_id second) then Inl ValueError
      else Inr ())"

definition validate_link_endpoints :: "store \<Rightarrow> string \<Rightarrow> string \<Rightarrow> string \<Rightarrow> bool \<Rightarrow> unit result" where
  "validate_link_endpoints s a b relation allow_scope_transition =
     (case (get_memory s a, get_memory s b) of
        (Some x, Some y) \<Rightarrow> validate_link_owner_rows x y relation allow_scope_transition
      | _ \<Rightarrow> Inl ValueError)"

section \<open>Versions\<close>

text \<open>The columns of a version but its creation time; a pair is undirected.\<close>

definition same_pair :: "string \<Rightarrow> string \<Rightarrow> link_row \<Rightarrow> bool" where
  "same_pair a b l \<longleftrightarrow> ln_a l = a \<and> ln_b l = b \<or> ln_a l = b \<and> ln_b l = a"

definition same_version :: "link_row \<Rightarrow> link_row \<Rightarrow> bool" where
  "same_version x l \<longleftrightarrow>
     same_pair (ln_a x) (ln_b x) l \<and> ln_relation l = ln_relation x \<and> ln_layer l = ln_layer x \<and>
     ln_reason l = ln_reason x \<and> ln_from l = ln_from x \<and> ln_to l = ln_to x \<and>
     ln_recorded l = ln_recorded x \<and> ln_ingested l = ln_ingested x \<and> ln_expired l = ln_expired x"

definition live_link :: "string \<Rightarrow> string \<Rightarrow> string \<Rightarrow> link_row \<Rightarrow> bool" where
  "live_link a b relation l \<longleftrightarrow>
     same_pair a b l \<and> ln_relation l = relation \<and> ln_to l = None \<and> ln_expired l = None"

fun last_index :: "('a \<Rightarrow> bool) \<Rightarrow> 'a list \<Rightarrow> nat option" where
  \<comment> \<open>the row with the largest rowid that matches\<close>
  "last_index P [] = None"
| "last_index P (x # xs) =
     (case last_index P xs of Some i \<Rightarrow> Some (Suc i) | None \<Rightarrow> if P x then Some 0 else None)"

definition interval_reversed :: "real \<Rightarrow> real option \<Rightarrow> bool" where
  "interval_reversed start end_at = (case end_at of None \<Rightarrow> False | Some t \<Rightarrow> t \<le> start)"

text \<open>The temporal columns of a call, each possibly absent.\<close>

record link_times =
  lt_from :: "real option"
  lt_to :: "real option"
  lt_recorded :: "real option"
  lt_ingested :: "real option"
  lt_expired :: "real option"

definition no_times :: link_times where
  "no_times = \<lparr>lt_from = None, lt_to = None, lt_recorded = None, lt_ingested = None, lt_expired = None\<rparr>"

definition link_version :: "string \<Rightarrow> string \<Rightarrow> string \<Rightarrow> graph_layer \<Rightarrow> string \<Rightarrow> real \<Rightarrow> link_times \<Rightarrow> link_row" where
  "link_version a b relation layer reason stamp t =
     \<lparr>ln_a = a, ln_b = b, ln_relation = relation, ln_layer = layer, ln_reason = reason, ln_created = stamp,
      ln_from = lt_from t, ln_to = lt_to t, ln_recorded = lt_recorded t, ln_ingested = lt_ingested t,
      ln_expired = lt_expired t\<rparr>"

definition default_times :: "real \<Rightarrow> link_times \<Rightarrow> link_times" where
  "default_times stamp t =
     t\<lparr>lt_from := Some (case lt_from t of None \<Rightarrow> stamp | Some x \<Rightarrow> x),
       lt_ingested := Some (case lt_ingested t of None \<Rightarrow> stamp | Some x \<Rightarrow> x)\<rparr>"

definition append_link :: "link_row \<Rightarrow> store \<Rightarrow> store" where
  "append_link l s = s\<lparr>st_links := st_links s @ [l]\<rparr>"

section \<open>Operations\<close>

text \<open>The live version is retired in system time and a replacement opened over its world interval.\<close>

definition supersede_link :: "pylib \<Rightarrow> nat \<Rightarrow> graph_layer \<Rightarrow> string \<Rightarrow> store \<Rightarrow> store" where
  "supersede_link L i layer reason s =
     (let old = st_links s ! i;
          stamp = (case ln_ingested old of None \<Rightarrow> lib_now L | Some t \<Rightarrow> max (lib_now L) t)
      in s\<lparr>st_links := (st_links s)[i := old\<lparr>ln_expired := Some stamp\<rparr>] @
            [old\<lparr>ln_layer := layer, ln_reason := reason, ln_created := stamp, ln_ingested := Some stamp,
               ln_expired := None\<rparr>]\<rparr>)"

definition add_link :: "pylib \<Rightarrow> string \<Rightarrow> string \<Rightarrow> string \<Rightarrow> layer_arg option \<Rightarrow> string \<Rightarrow> link_times \<Rightarrow> bool \<Rightarrow>
    store \<Rightarrow> store result" where
  "add_link L a b relation layer reason t allow_scope_transition s =
     (if reject_secrets L [(''link reason'', JStr reason)] \<noteq> None then Inl SecretDetectedError
      else
        let requested = map_option (\<lambda>l. normalize_graph_layer L l relation) layer;
            graph_layer = (case requested of Some l \<Rightarrow> l | None \<Rightarrow> normalize_graph_layer L (Raw JNull) relation);
            stamp = lib_now L; full = default_times stamp t
        in if interval_reversed (the (lt_from full)) (lt_to t) then Inl ValueError
           else rbind (validate_link_endpoints s a b relation allow_scope_transition) (\<lambda>_.
             if list_ex (same_version (link_version a b relation graph_layer reason stamp t)) (st_links s) then Inr s
             else case last_index (live_link a b relation) (st_links s) of
               Some i \<Rightarrow>
                 let old = st_links s ! i; layer = (case requested of Some l \<Rightarrow> l | None \<Rightarrow> ln_layer old);
                     reason = (if reason \<noteq> [] then reason else ln_reason old)
                 in if layer \<noteq> ln_layer old \<or> reason \<noteq> ln_reason old
                    then Inr (supersede_link L i layer reason s) else Inr s
             | None \<Rightarrow> Inr (append_link (link_version a b relation graph_layer reason stamp full) s)))"

definition add_link_version :: "pylib \<Rightarrow> string \<Rightarrow> string \<Rightarrow> string \<Rightarrow> layer_arg \<Rightarrow> string \<Rightarrow> link_times \<Rightarrow> bool \<Rightarrow>
    store \<Rightarrow> (bool \<times> store) result" where
  "add_link_version L a b relation layer reason t allow_scope_transition s =
     (if reject_secrets L [(''link reason'', JStr reason)] \<noteq> None then Inl SecretDetectedError
      else
        let graph_layer = normalize_graph_layer L layer relation; stamp = lib_now L; full = default_times stamp t;
            version = link_version a b relation graph_layer reason stamp full
        in if interval_reversed (the (lt_from full)) (lt_to t) then Inl ValueError
           else rbind (validate_link_endpoints s a b relation allow_scope_transition) (\<lambda>_.
             if list_ex (same_version version) (st_links s) then Inr (False, s)
             else Inr (True, append_link version s)))"

section \<open>Only the table of links changes\<close>

definition only_links :: "store \<Rightarrow> store \<Rightarrow> bool" where
  "only_links s s' \<longleftrightarrow> s' = s\<lparr>st_links := st_links s'\<rparr>"

lemma only_links_tables:
  assumes "only_links s s'"
  shows "st_rows s' = st_rows s" "st_fts s' = st_fts s" "st_orphans s' = st_orphans s" "st_vectors s' = st_vectors s"
    "st_tombs s' = st_tombs s" "st_exports s' = st_exports s" "st_audit s' = st_audit s" "st_minted s' = st_minted s"
    "get_memory s' i = get_memory s i" "store_ok s' = store_ok s"
proof -
  obtain ls where s': "s' = s\<lparr>st_links := ls\<rparr>" using assms unfolding only_links_def by blast
  show t: "st_rows s' = st_rows s" "st_fts s' = st_fts s" "st_orphans s' = st_orphans s" "st_vectors s' = st_vectors s"
    "st_tombs s' = st_tombs s" "st_exports s' = st_exports s" "st_audit s' = st_audit s" "st_minted s' = st_minted s"
    by (simp_all add: s')
  show "get_memory s' i = get_memory s i" by (simp add: get_memory_def t(1))
  show "store_ok s' = store_ok s" by (rule same_rows_ok [OF t(1-3)])
qed

text \<open>Both endpoints of every version are rows of one workspace.\<close>

definition linked :: "store \<Rightarrow> string \<Rightarrow> string \<Rightarrow> bool" where
  "linked s a b \<longleftrightarrow> (\<exists>x y. get_memory s a = Some x \<and> get_memory s b = Some y \<and> workspace_id x = workspace_id y)"

definition links_ok :: "store \<Rightarrow> bool" where
  "links_ok s \<longleftrightarrow> (\<forall>l \<in> set (st_links s). linked s (ln_a l) (ln_b l) \<and> ln_from l \<noteq> None \<and> ln_ingested l \<noteq> None)"

lemma validated_linked: "validate_link_endpoints s a b relation w = Inr u \<Longrightarrow> linked s a b"
  by (auto simp: validate_link_endpoints_def validate_link_owner_rows_def linked_def split: option.splits if_splits)

lemma last_index_Some: "last_index P xs = Some i \<Longrightarrow> i < length xs \<and> P (xs ! i)"
  by (induction xs arbitrary: i) (auto split: option.splits if_splits)

lemma last_index_None: "last_index P xs = None \<longleftrightarrow> (\<forall>x \<in> set xs. \<not> P x)"
  by (induction xs) (auto split: option.splits)

text \<open>A version that is on record stays; only its system end may be filled in.\<close>

definition link_kept :: "link_row \<Rightarrow> link_row \<Rightarrow> bool" where
  "link_kept l l' \<longleftrightarrow> l' = l \<or> ln_expired l = None \<and> (\<exists>t. l' = l\<lparr>ln_expired := Some t\<rparr> \<and>
     (\<forall>u. ln_ingested l = Some u \<longrightarrow> u \<le> t))"

definition links_grow :: "link_row list \<Rightarrow> link_row list \<Rightarrow> bool" where
  "links_grow ls ls' \<longleftrightarrow> length ls \<le> length ls' \<and> (\<forall>i < length ls. link_kept (ls ! i) (ls' ! i))"

lemma links_grow_refl: "links_grow ls ls"
  by (simp add: links_grow_def link_kept_def)

lemma links_grow_append: "links_grow ls (ls @ ks)"
  by (simp add: links_grow_def link_kept_def nth_append)

lemma supersede_grows:
  assumes "i < length (st_links s)" "ln_expired (st_links s ! i) = None"
  shows "links_grow (st_links s) (st_links (supersede_link L i layer reason s))"
  unfolding links_grow_def
proof (intro conjI allI impI)
  show "length (st_links s) \<le> length (st_links (supersede_link L i layer reason s))"
    by (simp add: supersede_link_def Let_def)
  fix j assume j: "j < length (st_links s)"
  show "link_kept (st_links s ! j) (st_links (supersede_link L i layer reason s) ! j)"
  proof (cases "j = i")
    case True
    let ?old = "st_links s ! i"
    let ?stamp = "case ln_ingested ?old of None \<Rightarrow> lib_now L | Some t \<Rightarrow> max (lib_now L) t"
    have "st_links (supersede_link L i layer reason s) ! i = ?old\<lparr>ln_expired := Some ?stamp\<rparr>"
      using assms(1) by (simp add: supersede_link_def Let_def nth_append)
    moreover have "\<forall>u. ln_ingested ?old = Some u \<longrightarrow> u \<le> ?stamp" by simp
    ultimately show ?thesis using assms(2) True unfolding link_kept_def by blast
  next
    case False
    then show ?thesis using j by (simp add: supersede_link_def Let_def link_kept_def nth_append)
  qed
qed

lemma append_links_ok:
  assumes "links_ok s" "linked s (ln_a l) (ln_b l)" "ln_from l \<noteq> None" "ln_ingested l \<noteq> None"
  shows "links_ok (append_link l s)"
  using assms by (auto simp: links_ok_def append_link_def linked_def get_memory_def)

lemma supersede_links_ok:
  assumes "links_ok s" "i < length (st_links s)"
  shows "links_ok (supersede_link L i layer reason s)"
proof -
  have m: "st_links s ! i \<in> set (st_links s)" using assms(2) by simp
  have g: "get_memory (supersede_link L i layer reason s) j = get_memory s j" for j
    by (simp add: supersede_link_def Let_def get_memory_def)
  show ?thesis
    using assms(1) m
    by (auto simp: links_ok_def linked_def g)
      (auto simp: supersede_link_def Let_def dest!: set_update_subset_insert [THEN subsetD])
qed

definition links_step :: "store \<Rightarrow> store \<Rightarrow> bool" where
  "links_step s s' \<longleftrightarrow> only_links s s' \<and> links_grow (st_links s) (st_links s') \<and> (links_ok s \<longrightarrow> links_ok s')"

lemma links_step_refl: "links_step s s"
  by (simp add: links_step_def only_links_def links_grow_refl)

lemma links_step_append:
  assumes "linked s (ln_a l) (ln_b l)" "ln_from l \<noteq> None" "ln_ingested l \<noteq> None"
  shows "links_step s (append_link l s)"
  using append_links_ok [OF _ assms] by (simp add: links_step_def only_links_def links_grow_append append_link_def)

lemma links_step_supersede:
  assumes "i < length (st_links s)" "ln_expired (st_links s ! i) = None"
  shows "links_step s (supersede_link L i layer reason s)"
  using supersede_grows [OF assms] supersede_links_ok [OF _ assms(1)]
  by (simp add: links_step_def) (simp add: only_links_def supersede_link_def Let_def)

lemma add_link_step:
  assumes "add_link L a b relation layer reason t w s = Inr s'"
  shows "links_step s s'"
proof -
  have l: "linked s a b"
    using assms by (auto simp: add_link_def Let_def rbind_eq_Inr_conv split: if_splits intro: validated_linked)
  have live: "i < length (st_links s) \<and> ln_expired (st_links s ! i) = None"
    if "last_index (live_link a b relation) (st_links s) = Some i" for i
    using last_index_Some [OF that] by (simp add: live_link_def)
  show ?thesis
    using assms l live
    by (auto simp: add_link_def Let_def rbind_eq_Inr_conv link_version_def default_times_def
        intro!: links_step_refl links_step_append links_step_supersede split: if_splits option.splits)
qed

lemma add_link_version_step:
  assumes "add_link_version L a b relation layer reason t w s = Inr (new, s')"
  shows "links_step s s'"
proof -
  have l: "linked s a b"
    using assms by (auto simp: add_link_version_def Let_def rbind_eq_Inr_conv split: if_splits intro: validated_linked)
  then show ?thesis
    using assms
    by (auto simp: add_link_version_def Let_def rbind_eq_Inr_conv link_version_def default_times_def
        intro!: links_step_refl links_step_append split: if_splits)
qed

text \<open>A repeated version is recognised in either direction.\<close>

lemma version_replay:
  assumes "add_link_version L a b relation layer reason t w s = Inr (new, s')"
    and "validate_link_endpoints s' b a relation w = Inr u" "lt_from t \<noteq> None" "lt_ingested t \<noteq> None"
  shows "add_link_version L b a relation layer reason t w s' = Inr (False, s')"
  using assms
  by (auto simp: add_link_version_def Let_def rbind_eq_Inr_conv append_link_def link_version_def default_times_def
      same_version_def same_pair_def list_ex_iff split: if_splits)

end
