(* ===== verification/Erasure.thy ===== *)
theory Erasure
  imports MemLinks
begin

text \<open>
  Erasure in \<^verbatim>\<open>engraphis/core/store.py\<close>: the durable deletion markers and their merge, the proofs of
  exported rows, the lineage of conflict successors a secure erase covers, the erase itself on the
  modelled tables, and the life of a store under all of these operations.

  Lemmas: markers only move down a lattice (earlier, wider, never reclassified), the lineage loop
  terminates and returns exactly the successors reachable from the erased row, a secure erase
  leaves no trace of its targets beyond a content-free marker.
\<close>

section \<open>Deletion markers\<close>

definition TOMBSTONE_NEVER_EXPORT :: string where "TOMBSTONE_NEVER_EXPORT = ''never_export''"
definition TOMBSTONE_REMOTE_ERASURE :: string where "TOMBSTONE_REMOTE_ERASURE = ''remote_erasure''"

definition TOMBSTONE_EXPORT_CLASSES :: "string list" where
  "TOMBSTONE_EXPORT_CLASSES = [TOMBSTONE_NEVER_EXPORT, TOMBSTONE_REMOTE_ERASURE]"

text \<open>Two known scopes conflict when they differ; an unknown one widens the marker.\<close>

definition scope_conflict :: "string option \<Rightarrow> string option \<Rightarrow> bool" where
  "scope_conflict a b \<longleftrightarrow> a \<noteq> None \<and> b \<noteq> None \<and> a \<noteq> b"

definition merge_marker :: "tomb_row \<Rightarrow> tomb_row \<Rightarrow> tomb_row result" where
  "merge_marker existing new =
     (if scope_conflict (tomb_workspace existing) (tomb_workspace new) then Inl ValueError
      else if scope_conflict (tomb_repo existing) (tomb_repo new) then Inl ValueError
      else
        let earlier = tomb_deleted_at new < tomb_deleted_at existing;
            ws = (if tomb_workspace existing = None \<or> tomb_workspace new = None then None
                  else if earlier then tomb_workspace new else tomb_workspace existing);
            repo = (if tomb_repo existing = None \<or> tomb_repo new = None then None else tomb_repo existing)
        in if tomb_class existing = TOMBSTONE_NEVER_EXPORT \<and> tomb_class new = TOMBSTONE_REMOTE_ERASURE
           then Inl ValueError
           else Inr \<lparr>tomb_deleted_at = (if earlier then tomb_deleted_at new else tomb_deleted_at existing),
                     tomb_device = (if earlier then tomb_device new else tomb_device existing),
                     tomb_workspace = ws, tomb_repo = repo,
                     tomb_class = (if tomb_class existing = TOMBSTONE_REMOTE_ERASURE \<or>
                                      tomb_class new = TOMBSTONE_REMOTE_ERASURE
                                   then TOMBSTONE_REMOTE_ERASURE else TOMBSTONE_NEVER_EXPORT)\<rparr>)"

definition add_memory_tombstone :: "store_env \<Rightarrow> string \<Rightarrow> real option \<Rightarrow> string \<Rightarrow> string option \<Rightarrow>
    string option \<Rightarrow> string \<Rightarrow> store \<Rightarrow> store result" where
  "add_memory_tombstone E mid deleted_at device ws repo export_class s =
     (if export_class \<notin> set TOMBSTONE_EXPORT_CLASSES then Inl ValueError
      else
        let new = \<lparr>tomb_deleted_at = (case deleted_at of None \<Rightarrow> lib_now (e_lib E) | Some t \<Rightarrow> t),
              tomb_device = (if device = [] then e_device E else device),
              tomb_workspace = ws, tomb_repo = repo, tomb_class = export_class\<rparr>
        in case map_of (st_tombs s) mid of
             None \<Rightarrow> Inr (s\<lparr>st_tombs := st_tombs s @ [(mid, new)]\<rparr>)
           | Some existing \<Rightarrow> rbind (merge_marker existing new) (\<lambda>m.
               Inr (s\<lparr>st_tombs := AList.update mid m (st_tombs s)\<rparr>)))"

definition list_memory_tombstones :: "store \<Rightarrow> string option \<Rightarrow> string option \<Rightarrow> (string \<times> tomb_row) list result" where
  "list_memory_tombstones s ws repo =
     (if ws = None \<and> repo \<noteq> None then Inl ValueError
      else Inr (sort_key fst (filter (\<lambda>(_, t).
             (ws = None \<or> tomb_workspace t = ws) \<and>
             (repo = None \<or> tomb_repo t = repo \<or> tomb_repo t = None)) (st_tombs s))))"

section \<open>Export proof\<close>

definition IN_CLAUSE_CHUNK :: nat where "IN_CLAUSE_CHUNK = 500"

text \<open>One row's marker; the row must be shareable and owned by the exporting workspace.\<close>

definition mark_one_export :: "string \<Rightarrow> real \<Rightarrow> string \<Rightarrow> store \<Rightarrow> store result" where
  "mark_one_export ws ts mid s =
     (case get_memory s mid of None \<Rightarrow> Inl ValueError
      | Some r \<Rightarrow>
          if workspace_id r \<noteq> Some ws then Inl ValueError
          else if scope r \<notin> {WORKSPACE, REPO} \<or> sensitivity r \<notin> {''normal'', ''sensitive''} then Inl ValueError
          else if scope r = REPO \<and> (case repo_id r of None \<Rightarrow> True | Some x \<Rightarrow> x = []) then Inl ValueError
          else
            let repo = (if scope r = REPO then repo_id r else None)
            in case map_of (st_exports s) mid of
                 None \<Rightarrow> Inr (s\<lparr>st_exports := AList.update mid
                   \<lparr>exp_workspace = ws, exp_repo = repo, exp_first = ts, exp_last = ts\<rparr> (st_exports s)\<rparr>)
               | Some e \<Rightarrow>
                   if exp_workspace e \<noteq> ws then Inl ValueError
                   else if scope_conflict (exp_repo e) repo then Inl ValueError
                   else if exp_last e < exp_first e then Inl RuntimeError
                   else Inr (s\<lparr>st_exports := AList.update mid
                     \<lparr>exp_workspace = ws, exp_repo = (if exp_repo e = None \<or> repo = None then None else repo),
                      exp_first = min (exp_first e) ts, exp_last = max (exp_last e) ts\<rparr> (st_exports s)\<rparr>))"

definition mark_memories_sync_exported :: "store_env \<Rightarrow> string list \<Rightarrow> string \<Rightarrow> real option \<Rightarrow> store \<Rightarrow>
    (nat \<times> store) result" where
  "mark_memories_sync_exported E mids ws exported_at s =
     (if ws = [] then Inl ValueError
      else if [] \<in> set mids \<or> card (set mids) > IN_CLAUSE_CHUNK then Inl ValueError
      else
        let unique = rev (remdups (rev mids));
            ts = (case exported_at of None \<Rightarrow> lib_now (e_lib E) | Some t \<Rightarrow> t)
        in if \<exists>mid \<in> set unique. get_memory s mid = None then Inl ValueError
           else rbind (rfold (mark_one_export ws ts) unique s) (\<lambda>s. Inr (length unique, s)))"

section \<open>Conflict lineage\<close>

text \<open>The parent a row claims; a claim that is not hashable makes the set display raise.\<close>

fun hashable :: "json \<Rightarrow> bool" where
  "hashable (JList _) = False"
| "hashable (JObj _) = False"
| "hashable _ = True"

definition claimed_parents :: "pylib \<Rightarrow> memory_record \<Rightarrow> string list result" where
  "claimed_parents L r =
     (let provenance_parent = jget (provenance r) ''conflict_of'';
          metadata_parent = jget (as_obj (jget (metadata r) ''sync_conflict'')) ''memory_id''
      in if py_truthy provenance_parent \<and> py_truthy metadata_parent \<and> \<not> py_eq provenance_parent metadata_parent
         then Inr []
         else if \<not> hashable provenance_parent \<or> \<not> hashable metadata_parent then Inl TypeError
         else Inr (filter (\<lambda>p. p \<noteq> []) [str_or_empty L provenance_parent, str_or_empty L metadata_parent]))"

text \<open>Children by parent, restricted to the rows of one workspace and repository.\<close>

definition lineage_rows :: "store \<Rightarrow> memory_record \<Rightarrow> memory_record list" where
  "lineage_rows s primary =
     filter (\<lambda>r. workspace_id r = workspace_id primary \<and> repo_id r = repo_id primary) (map snd (st_rows s))"

definition lineage_edges :: "pylib \<Rightarrow> memory_record list \<Rightarrow> (string \<times> string) list result" where
  "lineage_edges L rows =
     rbind (rmap (claimed_parents L) rows) (\<lambda>claims.
       Inr (concat (map (\<lambda>(r, ps). map (\<lambda>p. (p, mem_id r)) (filter (\<lambda>p. p \<in> mem_id ` set rows) ps))
              (zip rows claims))))"

definition children :: "(string \<times> string) list \<Rightarrow> string \<Rightarrow> string list" where
  "children edges p = sorted_list_of_set (set (map snd (filter (\<lambda>e. fst e = p) edges)))"

text \<open>
  The loop \<open>for parent in targets\<close> over the list it appends to: the prefix already visited and
  the rest of the list.
\<close>

function erase_loop :: "(string \<times> string) list \<Rightarrow> string list \<Rightarrow> string list \<Rightarrow> string list" where
  "erase_loop edges visited [] = visited"
| "erase_loop edges visited (p # queue) =
     erase_loop edges (visited @ [p])
       (queue @ filter (\<lambda>c. c \<notin> set (visited @ p # queue)) (children edges p))"
  by pat_completeness auto
termination
proof (relation "(\<lambda>(edges, visited, queue).
    card (snd ` set edges - set (visited @ queue))) <*mlex*> measure (\<lambda>(edges, visited, queue). length queue)")
  show "wf ((\<lambda>(edges, visited, queue). card (snd ` set edges - set (visited @ queue))) <*mlex*>
      measure (\<lambda>(edges :: (string \<times> string) list, visited :: string list, queue :: string list). length queue))"
    by (rule wf_mlex) simp
  fix edges :: "(string \<times> string) list" and visited queue and p
  let ?new = "filter (\<lambda>c. c \<notin> set (visited @ p # queue)) (children edges p)"
  let ?left = "\<lambda>xs. snd ` set edges - set xs"
  show "((edges, visited @ [p], queue @ ?new), edges, visited, p # queue) \<in>
      (\<lambda>(edges, visited, queue). card (snd ` set edges - set (visited @ queue))) <*mlex*>
      measure (\<lambda>(edges, visited, queue). length queue)"
  proof (cases "?new")
    case Nil
    then show ?thesis by (intro mlex_leq) (simp_all add: insert_commute)
  next
    case (Cons c cs)
    then have "c \<in> set ?new" by simp
    then have "c \<in> snd ` set edges" "c \<notin> set (visited @ p # queue)"
      by (auto simp: children_def)
    moreover have "?left ((visited @ [p]) @ queue @ ?new) \<subseteq> ?left (visited @ p # queue) - {c}"
      using \<open>c \<in> set ?new\<close> by auto
    ultimately have "card (?left ((visited @ [p]) @ queue @ ?new)) < card (?left (visited @ p # queue))"
      by (intro psubset_card_mono) auto
    then show ?thesis by (intro mlex_less) simp
  qed
qed

definition secure_erase_targets :: "pylib \<Rightarrow> store \<Rightarrow> string \<Rightarrow> string list result" where
  "secure_erase_targets L s mid =
     (case get_memory s mid of None \<Rightarrow> Inr [mid]
      | Some primary \<Rightarrow>
          rbind (lineage_edges L (lineage_rows s primary)) (\<lambda>edges. Inr (erase_loop edges [] [mid])))"

section \<open>The erase\<close>

definition erase_memory_rows :: "store_env \<Rightarrow> string \<Rightarrow> string \<Rightarrow> store \<Rightarrow> memory_record option \<times> store" where
  \<comment> \<open>the erased row, when one was present\<close>
  "erase_memory_rows E actor mid s =
     (case get_memory s mid of None \<Rightarrow> (None, s)
      | Some r \<Rightarrow>
          let a = (case validate_audit_actor actor of Inl _ \<Rightarrow> ''user'' | Inr a \<Rightarrow> a);
              log = filter (\<lambda>x. au_target x \<noteq> mid) (st_audit s);
              marker = \<lparr>au_ts = lib_now (e_lib E), au_actor = a, au_action = ''secure_erase'', au_target = mid,
                au_detail = ''per-memory secure erasure completed; content intentionally omitted'',
                au_prev = (case latest_audit log of None \<Rightarrow> [] | Some x \<Rightarrow> audit_entry_hash (e_lib E) x)\<rparr>
          in (Some r, s\<lparr>st_rows := AList.delete mid (st_rows s),
                st_fts := filter (\<lambda>f. fst f \<noteq> mid) (st_fts s),
                st_vectors := filter (\<lambda>v. v \<noteq> mid) (st_vectors s),
                st_audit := log @ [marker],
                st_links := filter (\<lambda>l. ln_a l \<noteq> mid \<and> ln_b l \<noteq> mid) (st_links s)\<rparr>))"

text \<open>The marker an erased row leaves: a remote erasure only with proof that the row was exported.\<close>

definition erase_marker :: "store_env \<Rightarrow> string \<times> memory_record \<times> export_row option \<Rightarrow> store \<Rightarrow> store result" where
  "erase_marker E target s =
     (case target of (mid, r, exported) \<Rightarrow>
        (case exported of
           Some e \<Rightarrow>
             if Some (exp_workspace e) = workspace_id r
             then add_memory_tombstone E mid None (e_device E) (Some (exp_workspace e)) (exp_repo e)
                    TOMBSTONE_REMOTE_ERASURE s
             else add_memory_tombstone E mid None (e_device E) (workspace_id r) (repo_id r)
                    TOMBSTONE_NEVER_EXPORT s
         | None \<Rightarrow> add_memory_tombstone E mid None (e_device E) (workspace_id r) (repo_id r)
                    TOMBSTONE_NEVER_EXPORT s))"

fun erase_all :: "store_env \<Rightarrow> string \<Rightarrow> string list \<Rightarrow> store \<Rightarrow>
    (string \<times> memory_record \<times> export_row option) list \<times> store" where
  "erase_all E actor [] s = ([], s)"
| "erase_all E actor (mid # rest) s =
     (let exported = map_of (st_exports s) mid; (erased, s) = erase_memory_rows E actor mid s;
          (more, s) = erase_all E actor rest s
      in (case erased of None \<Rightarrow> more | Some r \<Rightarrow> (mid, r, exported) # more, s))"

definition secure_erase_memory :: "store_env \<Rightarrow> string \<Rightarrow> string \<Rightarrow> store \<Rightarrow> store result" where
  "secure_erase_memory E actor mid s =
     rbind (secure_erase_targets (e_lib E) s mid) (\<lambda>targets.
       let (erased, s) = erase_all E actor targets s
       in if mid \<notin> fst ` set erased then Inl KeyError else rfold (erase_marker E) erased s)"

section \<open>The marker lattice\<close>

text \<open>What may happen to a marker: earlier, wider, and never of another class.\<close>

definition marker_below :: "tomb_row \<Rightarrow> tomb_row \<Rightarrow> bool" where
  "marker_below new old \<longleftrightarrow>
     tomb_deleted_at new \<le> tomb_deleted_at old \<and>
     (tomb_workspace new = tomb_workspace old \<or> tomb_workspace new = None) \<and>
     (tomb_repo new = tomb_repo old \<or> tomb_repo new = None) \<and>
     tomb_class new = tomb_class old"

lemma marker_below_refl: "marker_below t t"
  by (simp add: marker_below_def)

lemma marker_below_trans: "marker_below a b \<Longrightarrow> marker_below b c \<Longrightarrow> marker_below a c"
  by (auto simp: marker_below_def)

lemma classes: "set TOMBSTONE_EXPORT_CLASSES = {TOMBSTONE_NEVER_EXPORT, TOMBSTONE_REMOTE_ERASURE}"
  "TOMBSTONE_NEVER_EXPORT \<noteq> TOMBSTONE_REMOTE_ERASURE"
  by (simp_all add: TOMBSTONE_EXPORT_CLASSES_def TOMBSTONE_NEVER_EXPORT_def TOMBSTONE_REMOTE_ERASURE_def)

text \<open>
  A successful merge is the pointwise meet: the earlier deletion, and the scope both agree on.
  The class is the one of the stored marker, as a reclassification to a remote erasure raises.
\<close>

lemma merge_marker_result:
  assumes "merge_marker old new = Inr m" "tomb_class old \<in> set TOMBSTONE_EXPORT_CLASSES"
    "tomb_class new \<in> set TOMBSTONE_EXPORT_CLASSES"
  shows "tomb_deleted_at m = min (tomb_deleted_at old) (tomb_deleted_at new)"
    and "tomb_workspace m = (if tomb_workspace old = tomb_workspace new then tomb_workspace old else None)"
    and "tomb_repo m = (if tomb_repo old = tomb_repo new then tomb_repo old else None)"
    and "tomb_class m = tomb_class old"
proof -
  have c: "\<not> scope_conflict (tomb_workspace old) (tomb_workspace new)"
    "\<not> scope_conflict (tomb_repo old) (tomb_repo new)"
    "\<not> (tomb_class old = TOMBSTONE_NEVER_EXPORT \<and> tomb_class new = TOMBSTONE_REMOTE_ERASURE)"
    using assms(1) by (auto simp: merge_marker_def Let_def split: if_splits)
  note m = assms(1) [symmetric, unfolded merge_marker_def Let_def if_not_P [OF c(1)] if_not_P [OF c(2)]
      if_not_P [OF c(3)] sum.inject]
  show "tomb_deleted_at m = min (tomb_deleted_at old) (tomb_deleted_at new)"
    by (simp add: m)
  show "tomb_workspace m = (if tomb_workspace old = tomb_workspace new then tomb_workspace old else None)"
    using c(1) by (auto simp: m scope_conflict_def)
  show "tomb_repo m = (if tomb_repo old = tomb_repo new then tomb_repo old else None)"
    using c(2) by (auto simp: m scope_conflict_def)
  show "tomb_class m = tomb_class old"
    using c(3) assms(2,3) by (auto simp: m classes)
qed

lemma merge_marker_below:
  assumes "merge_marker old new = Inr m" "tomb_class old \<in> set TOMBSTONE_EXPORT_CLASSES"
    "tomb_class new \<in> set TOMBSTONE_EXPORT_CLASSES"
  shows "marker_below m old"
  using merge_marker_result [OF assms] by (simp add: marker_below_def)

definition tombs_ok :: "store \<Rightarrow> bool" where
  "tombs_ok s \<longleftrightarrow> (\<forall>i t. map_of (st_tombs s) i = Some t \<longrightarrow> tomb_class t \<in> set TOMBSTONE_EXPORT_CLASSES)"

lemma add_tombstone_frame:
  assumes "add_memory_tombstone E mid end_at dev ws repo cls s = Inr s'"
  shows "st_rows s' = st_rows s" "st_fts s' = st_fts s" "st_orphans s' = st_orphans s"
    "st_vectors s' = st_vectors s" "st_audit s' = st_audit s" "st_exports s' = st_exports s"
    "st_minted s' = st_minted s" "st_state s' = st_state s" "st_links s' = st_links s"
  using assms by (auto simp: add_memory_tombstone_def Let_def rbind_eq_Inr_conv split: if_splits option.splits)

lemma add_tombstone_get:
  assumes "add_memory_tombstone E mid end_at dev ws repo cls s = Inr s'" "tombs_ok s"
  shows "tombs_ok s'" "map_of (st_tombs s') mid \<noteq> None"
    and "map_of (st_tombs s) i = Some t \<Longrightarrow> \<exists>t'. map_of (st_tombs s') i = Some t' \<and> marker_below t' t"
proof -
  define new where "new = \<lparr>tomb_deleted_at = (case end_at of None \<Rightarrow> lib_now (e_lib E) | Some t \<Rightarrow> t),
      tomb_device = (if dev = [] then e_device E else dev), tomb_workspace = ws, tomb_repo = repo,
      tomb_class = cls\<rparr>"
  have cls: "cls \<in> set TOMBSTONE_EXPORT_CLASSES" "tomb_class new = cls"
    using assms(1) by (auto simp: add_memory_tombstone_def new_def split: if_splits)
  have run: "(case map_of (st_tombs s) mid of
             None \<Rightarrow> Inr (s\<lparr>st_tombs := st_tombs s @ [(mid, new)]\<rparr>)
           | Some existing \<Rightarrow> rbind (merge_marker existing new) (\<lambda>m.
               Inr (s\<lparr>st_tombs := AList.update mid m (st_tombs s)\<rparr>))) = Inr s'"
    using assms(1) cls(1) by (simp add: add_memory_tombstone_def new_def [symmetric])
  have "tombs_ok s' \<and> map_of (st_tombs s') mid \<noteq> None \<and>
    (\<forall>i t. map_of (st_tombs s) i = Some t \<longrightarrow> (\<exists>t'. map_of (st_tombs s') i = Some t' \<and> marker_below t' t))"
  proof (cases "map_of (st_tombs s) mid")
    case None
    then have "map_of (st_tombs s') = (map_of (st_tombs s))(mid \<mapsto> new)"
      using run by (auto simp: map_add_def fun_eq_iff split: option.splits)
    then show ?thesis using assms(2) cls None marker_below_refl by (auto simp: tombs_ok_def)
  next
    case (Some old)
    then obtain m where m: "merge_marker old new = Inr m" and s': "st_tombs s' = AList.update mid m (st_tombs s)"
      using run by (auto simp: rbind_eq_Inr_conv)
    have b: "marker_below m old" using merge_marker_below [OF m] Some assms(2) cls by (auto simp: tombs_ok_def)
    then have "tomb_class m \<in> set TOMBSTONE_EXPORT_CLASSES"
      using Some assms(2) by (auto simp: tombs_ok_def marker_below_def)
    then show ?thesis
      using assms(2) Some b marker_below_refl by (auto simp: tombs_ok_def s' update_conv')
  qed
  then show "tombs_ok s'" "map_of (st_tombs s') mid \<noteq> None"
    "map_of (st_tombs s) i = Some t \<Longrightarrow> \<exists>t'. map_of (st_tombs s') i = Some t' \<and> marker_below t' t"
    by blast+
qed

section \<open>The lineage loop\<close>

lemma children_set [simp]: "set (children edges p) = {c. (p, c) \<in> set edges}"
  by (force simp: children_def)

lemma children_distinct [simp]: "distinct (children edges p)"
  by (simp add: children_def)

lemma erase_loop_inv:
  assumes "distinct (visited @ queue)"
    and "\<And>p c. p \<in> set visited \<Longrightarrow> (p, c) \<in> set edges \<Longrightarrow> c \<in> set (visited @ queue)"
    and "\<And>x. x \<in> set (visited @ queue) \<Longrightarrow> (m, x) \<in> (set edges)\<^sup>*"
  shows "distinct (erase_loop edges visited queue) \<and>
    set (visited @ queue) \<subseteq> set (erase_loop edges visited queue) \<and>
    (\<forall>p c. p \<in> set (erase_loop edges visited queue) \<longrightarrow> (p, c) \<in> set edges \<longrightarrow>
      c \<in> set (erase_loop edges visited queue)) \<and>
    (\<forall>x \<in> set (erase_loop edges visited queue). (m, x) \<in> (set edges)\<^sup>*)"
  using assms
proof (induction edges visited queue rule: erase_loop.induct)
  case (1 edges visited)
  then show ?case by auto
next
  case (2 edges visited p queue)
  let ?new = "filter (\<lambda>c. c \<notin> set (visited @ p # queue)) (children edges p)"
  have "distinct ((visited @ [p]) @ queue @ ?new)" using 2(2) by auto
  moreover have "c \<in> set ((visited @ [p]) @ queue @ ?new)"
    if "q \<in> set (visited @ [p])" "(q, c) \<in> set edges" for q c
    using that 2(3) [of q c] by (cases "q = p") auto
  moreover have "(m, x) \<in> (set edges)\<^sup>*" if "x \<in> set ((visited @ [p]) @ queue @ ?new)" for x
    using that 2(4) [of x] 2(4) [of p] by (auto intro: rtrancl.rtrancl_into_rtrancl)
  ultimately have "distinct (erase_loop edges (visited @ [p]) (queue @ ?new)) \<and>
    set ((visited @ [p]) @ queue @ ?new) \<subseteq> set (erase_loop edges (visited @ [p]) (queue @ ?new)) \<and>
    (\<forall>q c. q \<in> set (erase_loop edges (visited @ [p]) (queue @ ?new)) \<longrightarrow> (q, c) \<in> set edges \<longrightarrow>
      c \<in> set (erase_loop edges (visited @ [p]) (queue @ ?new))) \<and>
    (\<forall>x \<in> set (erase_loop edges (visited @ [p]) (queue @ ?new)). (m, x) \<in> (set edges)\<^sup>*)"
    by (rule 2(1))
  then show ?case by simp
qed

lemma erase_loop_exact:
  "distinct (erase_loop edges [] [m]) \<and> set (erase_loop edges [] [m]) = {x. (m, x) \<in> (set edges)\<^sup>*}"
proof -
  let ?r = "erase_loop edges [] [m]"
  have inv: "distinct ?r" "m \<in> set ?r" "\<And>p c. p \<in> set ?r \<Longrightarrow> (p, c) \<in> set edges \<Longrightarrow> c \<in> set ?r"
    "\<And>x. x \<in> set ?r \<Longrightarrow> (m, x) \<in> (set edges)\<^sup>*"
    using erase_loop_inv [of "[]" "[m]" edges m] by auto
  have "x \<in> set ?r" if "(m, x) \<in> (set edges)\<^sup>*" for x
    using that
  proof induction
    case base
    show ?case by (rule inv(2))
  next
    case (step y z)
    then show ?case using inv(3) by blast
  qed
  then show ?thesis using inv by blast
qed

section \<open>What an erase removes\<close>

definition gone :: "store \<Rightarrow> string \<Rightarrow> bool" where
  \<comment> \<open>no row, mirror entry, vector or link, and no audit entry but the erasure marker\<close>
  "gone s mid \<longleftrightarrow>
     get_memory s mid = None \<and> mid \<notin> fst ` set (st_fts s) \<and> mid \<notin> set (st_vectors s) \<and>
     (\<forall>l \<in> set (st_links s). ln_a l \<noteq> mid \<and> ln_b l \<noteq> mid) \<and>
     (\<forall>x \<in> set (st_audit s). au_target x = mid \<longrightarrow> au_action x = ''secure_erase'')"

lemma erase_rows_effect:
  assumes "erase_memory_rows E actor mid s = (erased, s')" "store_ok s"
  shows "store_ok s'" "erased = get_memory s mid"
    and "get_memory s' i = (if i = mid then None else get_memory s i)"
    and "erased \<noteq> None \<Longrightarrow> gone s' mid" "gone s i \<Longrightarrow> gone s' i"
    and "st_tombs s' = st_tombs s" "st_exports s' = st_exports s" "st_minted s' = st_minted s"
proof -
  have "store_ok s' \<and> erased = get_memory s mid \<and>
      (\<forall>i. get_memory s' i = (if i = mid then None else get_memory s i)) \<and>
      (erased \<noteq> None \<longrightarrow> gone s' mid) \<and> (\<forall>i. gone s i \<longrightarrow> gone s' i) \<and>
      st_tombs s' = st_tombs s \<and> st_exports s' = st_exports s \<and> st_minted s' = st_minted s"
  proof (cases "get_memory s mid")
    case None
    then show ?thesis using assms by (auto simp: erase_memory_rows_def)
  next
    case (Some r)
    define x where "x = \<lparr>au_ts = lib_now (e_lib E),
      au_actor = (case validate_audit_actor actor of Inl _ \<Rightarrow> ''user'' | Inr a \<Rightarrow> a),
      au_action = ''secure_erase'', au_target = mid,
      au_detail = ''per-memory secure erasure completed; content intentionally omitted'',
      au_prev = (case latest_audit (filter (\<lambda>x. au_target x \<noteq> mid) (st_audit s)) of
        None \<Rightarrow> [] | Some x \<Rightarrow> audit_entry_hash (e_lib E) x)\<rparr>"
    have s': "s' = s\<lparr>st_rows := AList.delete mid (st_rows s),
        st_fts := filter (\<lambda>f. fst f \<noteq> mid) (st_fts s), st_vectors := filter (\<lambda>v. v \<noteq> mid) (st_vectors s),
        st_audit := filter (\<lambda>x. au_target x \<noteq> mid) (st_audit s) @ [x],
        st_links := filter (\<lambda>l. ln_a l \<noteq> mid \<and> ln_b l \<noteq> mid) (st_links s)\<rparr>" and e: "erased = Some r"
      using assms(1) Some by (simp_all add: erase_memory_rows_def x_def Let_def)
    have get: "get_memory s' i = (if i = mid then None else get_memory s i)" for i
      by (simp add: get_memory_def s' delete_conv')
    have fts: "map_of (filter (\<lambda>f. fst f \<noteq> mid) fs) i = (if i = mid then None else map_of fs i)"
      for fs :: "(string \<times> string \<times> string \<times> string) list" and i
      by (induction fs) auto
    have x: "au_target x = mid" "au_action x = ''secure_erase''" by (simp_all add: x_def)
    have ok: "store_ok s'"
      using assms(2) unfolding store_ok_def mirror_exact_def get
      by (simp add: s' distinct_delete distinct_map_filter fts)
    have "gone s' mid" "\<forall>i. gone s i \<longrightarrow> gone s' i"
      unfolding gone_def get by (auto simp: s' x image_iff)
    then show ?thesis using ok get e Some by (simp add: s')
  qed
  then show "store_ok s'" "erased = get_memory s mid"
    "get_memory s' i = (if i = mid then None else get_memory s i)"
    "erased \<noteq> None \<Longrightarrow> gone s' mid" "gone s i \<Longrightarrow> gone s' i"
    "st_tombs s' = st_tombs s" "st_exports s' = st_exports s" "st_minted s' = st_minted s"
    by blast+
qed

text \<open>All targets in order: which rows were there, and that nothing else changes.\<close>

lemma erase_all_effect:
  assumes "erase_all E actor ts s = (erased, s')" "store_ok s" "distinct ts"
  shows "store_ok s'" "erased = map (\<lambda>t. (t, the (get_memory s t), map_of (st_exports s) t))
      (filter (\<lambda>t. get_memory s t \<noteq> None) ts)"
    and "get_memory s' i = (if i \<in> set ts then None else get_memory s i)"
    and "i \<in> set ts \<Longrightarrow> get_memory s i \<noteq> None \<Longrightarrow> gone s' i" "gone s i \<Longrightarrow> gone s' i"
    and "st_tombs s' = st_tombs s" "st_exports s' = st_exports s" "st_minted s' = st_minted s"
proof -
  have "store_ok s' \<and> erased = map (\<lambda>t. (t, the (get_memory s t), map_of (st_exports s) t))
      (filter (\<lambda>t. get_memory s t \<noteq> None) ts) \<and>
    (\<forall>i. get_memory s' i = (if i \<in> set ts then None else get_memory s i)) \<and>
    (\<forall>i. i \<in> set ts \<longrightarrow> get_memory s i \<noteq> None \<longrightarrow> gone s' i) \<and> (\<forall>i. gone s i \<longrightarrow> gone s' i) \<and>
    st_tombs s' = st_tombs s \<and> st_exports s' = st_exports s \<and> st_minted s' = st_minted s"
    using assms
  proof (induction ts arbitrary: s erased)
    case Nil
    then show ?case by simp
  next
    case (Cons mid rest)
    obtain one s1 more where one: "erase_memory_rows E actor mid s = (one, s1)"
      and more: "erase_all E actor rest s1 = (more, s')"
      and res: "erased = (case one of None \<Rightarrow> more | Some r \<Rightarrow> (mid, r, map_of (st_exports s) mid) # more)"
      using Cons.prems(1) by (auto simp: Let_def split: prod.splits)
    note f = erase_rows_effect [OF one Cons.prems(2)]
    have d: "distinct rest" "mid \<notin> set rest" using Cons.prems(3) by simp_all
    note ih = Cons.IH [OF more f(1) d(1)]
    have same: "get_memory s1 t = get_memory s t" if "t \<in> set rest" for t
      using f(3) [of t] that d(2) by auto
    then have "filter (\<lambda>t. get_memory s1 t \<noteq> None) rest = filter (\<lambda>t. get_memory s t \<noteq> None) rest"
      by (intro filter_cong) simp_all
    then have "more = map (\<lambda>t. (t, the (get_memory s t), map_of (st_exports s) t))
        (filter (\<lambda>t. get_memory s t \<noteq> None) rest)"
      using ih same f(7) by simp
    then have "erased = map (\<lambda>t. (t, the (get_memory s t), map_of (st_exports s) t))
        (filter (\<lambda>t. get_memory s t \<noteq> None) (mid # rest))"
      using res f(2) by (auto split: option.splits)
    then show ?case using ih f same by auto
  qed
  then show "store_ok s'" "erased = map (\<lambda>t. (t, the (get_memory s t), map_of (st_exports s) t))
      (filter (\<lambda>t. get_memory s t \<noteq> None) ts)"
    "get_memory s' i = (if i \<in> set ts then None else get_memory s i)"
    "i \<in> set ts \<Longrightarrow> get_memory s i \<noteq> None \<Longrightarrow> gone s' i" "gone s i \<Longrightarrow> gone s' i"
    "st_tombs s' = st_tombs s" "st_exports s' = st_exports s" "st_minted s' = st_minted s"
    by blast+
qed

definition tables_kept :: "store \<Rightarrow> store \<Rightarrow> bool" where
  \<comment> \<open>every table but the markers is unchanged\<close>
  "tables_kept s s' \<longleftrightarrow> s' = s\<lparr>st_tombs := st_tombs s'\<rparr>"

lemma tables_kept_facts:
  assumes "tables_kept s s'"
  shows "get_memory s' i = get_memory s i" "store_ok s' = store_ok s" "gone s' i = gone s i"
    "st_exports s' = st_exports s" "links_ok s' = links_ok s"
proof -
  obtain ts where s': "s' = s\<lparr>st_tombs := ts\<rparr>" using assms unfolding tables_kept_def by blast
  have e: "st_rows s' = st_rows s" "st_fts s' = st_fts s" "st_orphans s' = st_orphans s"
    "st_vectors s' = st_vectors s" "st_audit s' = st_audit s" "st_exports s' = st_exports s"
    "st_links s' = st_links s" by (simp_all add: s')
  then show g: "get_memory s' i = get_memory s i" "st_exports s' = st_exports s" for i
    by (simp_all add: get_memory_def)
  show "links_ok s' = links_ok s" by (simp add: links_ok_def linked_def g(1) e)
  show "store_ok s' = store_ok s" by (rule same_rows_ok) (use e in simp_all)
  show "gone s' i = gone s i" by (simp add: gone_def get_memory_def e)
qed

lemma add_tombstone_kept:
  assumes "add_memory_tombstone E mid end_at dev ws repo cls s = Inr s'"
  shows "tables_kept s s'"
  using assms by (auto simp: tables_kept_def add_memory_tombstone_def Let_def rbind_eq_Inr_conv
      split: if_splits option.splits)

lemma erase_marker_effect:
  assumes "erase_marker E (mid, r, exported) s = Inr s'" "tombs_ok s"
  shows "tables_kept s s'" "tombs_ok s'" "map_of (st_tombs s') mid \<noteq> None"
    and "map_of (st_tombs s) i = Some t \<Longrightarrow> \<exists>t'. map_of (st_tombs s') i = Some t' \<and> marker_below t' t"
proof -
  obtain ws repo cls where run: "add_memory_tombstone E mid None (e_device E) ws repo cls s = Inr s'"
    using assms(1) by (auto simp: erase_marker_def split: option.splits if_splits)
  show "tables_kept s s'" by (rule add_tombstone_kept [OF run])
  show "tombs_ok s'" "map_of (st_tombs s') mid \<noteq> None"
    "map_of (st_tombs s) i = Some t \<Longrightarrow> \<exists>t'. map_of (st_tombs s') i = Some t' \<and> marker_below t' t"
    using add_tombstone_get [OF run assms(2)] by blast+
qed

lemma erase_markers_effect:
  assumes "rfold (erase_marker E) targets s = Inr s'" "tombs_ok s"
  shows "tables_kept s s' \<and> tombs_ok s' \<and> (\<forall>t \<in> fst ` set targets. map_of (st_tombs s') t \<noteq> None) \<and>
    (\<forall>i t. map_of (st_tombs s) i = Some t \<longrightarrow> (\<exists>t'. map_of (st_tombs s') i = Some t' \<and> marker_below t' t))"
  using assms
proof (induction targets arbitrary: s)
  case Nil
  then show ?case by (auto simp: tables_kept_def intro: marker_below_refl)
next
  case (Cons x targets)
  obtain mid r exported where x: "x = (mid, r, exported)" by (cases x)
  obtain s1 where one: "erase_marker E (mid, r, exported) s = Inr s1" and
    rest: "rfold (erase_marker E) targets s1 = Inr s'"
    using Cons.prems(1) x by (auto simp: rbind_eq_Inr_conv)
  note f = erase_marker_effect [OF one Cons.prems(2)]
  note ih = Cons.IH [OF rest f(2)]
  have "tables_kept s s'"
    using ih f(1) unfolding tables_kept_def by (metis store.surjective store.update_convs(5))
  moreover have "map_of (st_tombs s') mid \<noteq> None" using f(3) ih by fastforce
  moreover have "\<exists>t'. map_of (st_tombs s') i = Some t' \<and> marker_below t' t"
    if "map_of (st_tombs s) i = Some t" for i t
    using f(4) [OF that] ih marker_below_trans by blast
  ultimately show ?case using ih x by auto
qed

text \<open>An erase takes the links of the row with it, so the table stays referentially closed.\<close>

lemma erase_rows_links:
  assumes "erase_memory_rows E actor mid s = (erased, s')" "links_ok s"
  shows "links_ok s'"
proof (cases "get_memory s mid")
  case None
  then show ?thesis using assms by (simp add: erase_memory_rows_def)
next
  case (Some r)
  have "st_links s' = filter (\<lambda>l. ln_a l \<noteq> mid \<and> ln_b l \<noteq> mid) (st_links s)"
    "st_rows s' = AList.delete mid (st_rows s)"
    using assms(1) Some by (auto simp: erase_memory_rows_def Let_def)
  then show ?thesis using assms(2) by (auto simp: links_ok_def linked_def get_memory_def delete_conv')
qed

lemma erase_all_links: "erase_all E actor ts s = (erased, s') \<Longrightarrow> links_ok s \<Longrightarrow> links_ok s'"
proof (induction ts arbitrary: s erased)
  case (Cons mid rest)
  obtain one s1 more where "erase_memory_rows E actor mid s = (one, s1)" "erase_all E actor rest s1 = (more, s')"
    using Cons.prems(1) by (auto simp: Let_def split: prod.splits)
  then show ?case using Cons.IH erase_rows_links Cons.prems(2) by blast
qed simp

lemma erase_all_tombs: "erase_all E actor ts s = (erased, s') \<Longrightarrow> st_tombs s' = st_tombs s"
proof (induction ts arbitrary: s erased)
  case (Cons mid rest)
  obtain one s1 more where "erase_memory_rows E actor mid s = (one, s1)" "erase_all E actor rest s1 = (more, s')"
    using Cons.prems(1) by (auto simp: Let_def split: prod.splits)
  moreover have "st_tombs s1 = st_tombs s"
    using calculation(1) by (auto simp: erase_memory_rows_def Let_def split: option.splits)
  ultimately show ?case using Cons.IH by simp
qed simp

lemma secure_erase_links:
  assumes "secure_erase_memory E actor mid s = Inr s'" "links_ok s" "tombs_ok s"
  shows "links_ok s'"
proof -
  obtain targets where t: "secure_erase_targets (e_lib E) s mid = Inr targets"
    and run: "(let (erased, s) = erase_all E actor targets s
       in if mid \<notin> fst ` set erased then Inl KeyError else rfold (erase_marker E) erased s) = Inr s'"
    using assms(1) unfolding secure_erase_memory_def rbind_eq_Inr_conv by blast
  obtain erased s1 where e: "erase_all E actor targets s = (erased, s1)"
    by (cases "erase_all E actor targets s")
  have m: "rfold (erase_marker E) erased s1 = Inr s'" using run e by (auto split: if_splits)
  have "st_tombs s1 = st_tombs s" using e by (rule erase_all_tombs)
  then have "tombs_ok s1" using assms(3) by (simp add: tombs_ok_def)
  then have "tables_kept s1 s'" using erase_markers_effect [OF m] by blast
  then show ?thesis using tables_kept_facts(5) erase_all_links [OF e assms(2)] by blast
qed

section \<open>The lineage\<close>

text \<open>What the edge list means: a row of the same workspace and repository claims the parent.\<close>

definition lineage_claims :: "pylib \<Rightarrow> store \<Rightarrow> memory_record \<Rightarrow> (string \<times> string) set" where
  "lineage_claims L s primary =
     {(p, mem_id r) | p r ps. r \<in> set (lineage_rows s primary) \<and> claimed_parents L r = Inr ps \<and> p \<in> set ps \<and>
        p \<in> mem_id ` set (lineage_rows s primary)}"

lemma lineage_edges_claims:
  assumes "lineage_edges L (lineage_rows s primary) = Inr edges"
  shows "set edges = lineage_claims L s primary"
proof -
  let ?rows = "lineage_rows s primary"
  obtain claims where c: "rmap (claimed_parents L) ?rows = Inr claims"
    and e: "edges = concat (map (\<lambda>(r, ps). map (\<lambda>p. (p, mem_id r)) (filter (\<lambda>p. p \<in> mem_id ` set ?rows) ps))
              (zip ?rows claims))"
    using assms by (auto simp: lineage_edges_def rbind_eq_Inr_conv)
  have "set (zip xs cs) = {(r, ps). r \<in> set xs \<and> claimed_parents L r = Inr ps}"
    if "rmap (claimed_parents L) xs = Inr cs" for xs cs
    using that by (induction xs arbitrary: cs) (auto simp: rbind_eq_Inr_conv)
  from this [OF c] show ?thesis unfolding e lineage_claims_def by auto
qed

lemma secure_targets_exact:
  assumes "secure_erase_targets L s mid = Inr ts"
  shows "distinct ts" "get_memory s mid = Some primary \<Longrightarrow> set ts = {t. (mid, t) \<in> (lineage_claims L s primary)\<^sup>*}"
    "mid \<in> set ts"
proof -
  have "distinct ts \<and> (\<forall>primary. get_memory s mid = Some primary \<longrightarrow>
      set ts = {t. (mid, t) \<in> (lineage_claims L s primary)\<^sup>*}) \<and> mid \<in> set ts"
  proof (cases "get_memory s mid")
    case None
    then show ?thesis using assms by (auto simp: secure_erase_targets_def)
  next
    case (Some r)
    then obtain edges where "lineage_edges L (lineage_rows s r) = Inr edges" "ts = erase_loop edges [] [mid]"
      using assms by (auto simp: secure_erase_targets_def rbind_eq_Inr_conv)
    then show ?thesis using erase_loop_exact [of edges mid] lineage_edges_claims Some by auto
  qed
  then show "distinct ts" "get_memory s mid = Some primary \<Longrightarrow> set ts = {t. (mid, t) \<in> (lineage_claims L s primary)\<^sup>*}"
    "mid \<in> set ts" by blast+
qed

lemma lineage_row:
  assumes "(mid, t) \<in> (lineage_claims L s primary)\<^sup>*" "store_ok s" "get_memory s mid = Some primary"
  shows "\<exists>r. get_memory s t = Some r \<and> workspace_id r = workspace_id primary \<and> repo_id r = repo_id primary"
  using assms(1)
proof (cases rule: rtranclE)
  case base
  then show ?thesis using assms(3) by simp
next
  case (step y)
  then obtain r where r: "r \<in> set (lineage_rows s primary)" "t = mem_id r"
    by (auto simp: lineage_claims_def)
  then obtain i where "(i, r) \<in> set (st_rows s)" by (auto simp: lineage_rows_def)
  then have "get_memory s i = Some r" using assms(2) by (simp add: store_ok_def get_memory_def)
  moreover have "mem_id r = i" using assms(2) calculation by (simp add: store_ok_def)
  ultimately show ?thesis using r by (auto simp: lineage_rows_def)
qed

section \<open>The marker of an erased row\<close>

definition erasure_marker :: "store_env \<Rightarrow> memory_record \<Rightarrow> export_row option \<Rightarrow> tomb_row" where
  "erasure_marker E r exported =
     (let shared = (exported \<noteq> None \<and> Some (exp_workspace (the exported)) = workspace_id r)
      in \<lparr>tomb_deleted_at = lib_now (e_lib E), tomb_device = e_device E, tomb_workspace = workspace_id r,
          tomb_repo = (if shared then exp_repo (the exported) else repo_id r),
          tomb_class = (if shared then TOMBSTONE_REMOTE_ERASURE else TOMBSTONE_NEVER_EXPORT)\<rparr>)"

lemma erase_marker_fresh:
  assumes "map_of (st_tombs s) mid = None"
  shows "erase_marker E (mid, r, exported) s =
    Inr (s\<lparr>st_tombs := st_tombs s @ [(mid, erasure_marker E r exported)]\<rparr>)"
  using assms
  by (cases exported) (auto simp: erase_marker_def add_memory_tombstone_def erasure_marker_def Let_def classes)

lemma add_tombstone_other:
  assumes "add_memory_tombstone E mid end_at dev ws repo cls s = Inr s'" "i \<noteq> mid"
  shows "map_of (st_tombs s') i = map_of (st_tombs s) i"
  using assms
  by (auto simp: add_memory_tombstone_def Let_def rbind_eq_Inr_conv update_conv' map_add_def
      split: if_splits option.splits)

lemma erase_marker_other:
  assumes "erase_marker E (mid, r, exported) s = Inr s'" "i \<noteq> mid"
  shows "map_of (st_tombs s') i = map_of (st_tombs s) i"
  using assms add_tombstone_other by (auto simp: erase_marker_def split: option.splits if_splits)

lemma erase_markers_exact:
  assumes "rfold (erase_marker E) targets s = Inr s'" "distinct (map fst targets)"
  shows "(i \<notin> fst ` set targets \<longrightarrow> map_of (st_tombs s') i = map_of (st_tombs s) i) \<and>
    ((t, r, e) \<in> set targets \<longrightarrow> map_of (st_tombs s) t = None \<longrightarrow>
      map_of (st_tombs s') t = Some (erasure_marker E r e))"
  using assms
proof (induction targets arbitrary: s i)
  case Nil
  then show ?case by simp
next
  case (Cons x targets)
  obtain mid q exported where x: "x = (mid, q, exported)" by (cases x)
  obtain s1 where one: "erase_marker E (mid, q, exported) s = Inr s1" and
    rest: "rfold (erase_marker E) targets s1 = Inr s'"
    using Cons.prems(1) x by (auto simp: rbind_eq_Inr_conv)
  have d: "distinct (map fst targets)" "mid \<notin> fst ` set targets" using Cons.prems(2) x by auto
  note ih = Cons.IH [OF rest d(1)]
  have "map_of (st_tombs s') mid = Some (erasure_marker E q exported)" if "map_of (st_tombs s) mid = None"
  proof -
    have "s1 = s\<lparr>st_tombs := st_tombs s @ [(mid, erasure_marker E q exported)]\<rparr>"
      using erase_marker_fresh [OF that, of E q exported] one by simp
    then have "map_of (st_tombs s1) mid = Some (erasure_marker E q exported)"
      using that by (simp add: map_add_def)
    then show ?thesis using ih [of mid] d(2) by simp
  qed
  moreover have "(t, r, e) \<in> set targets \<Longrightarrow> t \<noteq> mid" using d(2) by force
  ultimately show ?case
    using ih erase_marker_other [OF one] x by auto
qed

section \<open>The whole erase\<close>

lemma secure_erase_result:
  assumes "secure_erase_memory E actor mid s = Inr s'" "store_ok s" "tombs_ok s"
    and "get_memory s mid = Some primary"
    and "ts = {t. (mid, t) \<in> (lineage_claims (e_lib E) s primary)\<^sup>*}"
  shows "store_ok s'" "tombs_ok s'" "get_memory s' i = (if i \<in> ts then None else get_memory s i)"
    and "t \<in> ts \<Longrightarrow> gone s' t \<and> map_of (st_tombs s') t \<noteq> None"
    and "t \<in> ts \<Longrightarrow> map_of (st_tombs s) t = None \<Longrightarrow>
      map_of (st_tombs s') t = Some (erasure_marker E (the (get_memory s t)) (map_of (st_exports s) t))"
    and "i \<notin> ts \<Longrightarrow> map_of (st_tombs s') i = map_of (st_tombs s) i"
    and "map_of (st_tombs s) i = Some m \<Longrightarrow> \<exists>m'. map_of (st_tombs s') i = Some m' \<and> marker_below m' m"
    and "st_exports s' = st_exports s"
proof -
  obtain targets s1 erased where t: "secure_erase_targets (e_lib E) s mid = Inr targets"
    and all: "erase_all E actor targets s = (erased, s1)" and mark: "rfold (erase_marker E) erased s1 = Inr s'"
  proof -
    obtain targets where t: "secure_erase_targets (e_lib E) s mid = Inr targets"
      and run: "(let (erased, s1) = erase_all E actor targets s
        in if mid \<notin> fst ` set erased then Inl KeyError else rfold (erase_marker E) erased s1) = Inr s'"
      using assms(1) unfolding secure_erase_memory_def rbind_eq_Inr_conv by blast
    obtain erased s1 where e: "erase_all E actor targets s = (erased, s1)"
      by (cases "erase_all E actor targets s")
    show thesis by (rule that [OF t e]) (use run e in \<open>auto split: if_splits\<close>)
  qed
  have ts: "distinct targets" "set targets = ts"
    using secure_targets_exact(1,2) [OF t] assms(4,5) by auto
  have rows: "get_memory s x \<noteq> None" if "x \<in> ts" for x
    using lineage_row [OF _ assms(2,4), of x] that assms(5) by auto
  note a = erase_all_effect [OF all assms(2) ts(1)]
  have "filter (\<lambda>t. get_memory s t \<noteq> None) targets = targets"
    using rows ts(2) by (auto simp: filter_id_conv)
  then have er: "erased = map (\<lambda>t. (t, the (get_memory s t), map_of (st_exports s) t)) targets" using a(2) by simp
  then have ids: "fst ` set erased = ts" "distinct (map fst erased)" using ts by (force simp: comp_def)+
  have to1: "tombs_ok s1" using assms(3) a(6) by (simp add: tombs_ok_def)
  note m = erase_markers_effect [OF mark to1] and x = erase_markers_exact [OF mark ids(2)]
  have k: "tables_kept s1 s'" using m by blast
  note k = tables_kept_facts [OF k]
  show "store_ok s'" "tombs_ok s'" "get_memory s' i = (if i \<in> ts then None else get_memory s i)"
    using a m k ts by auto
  show "t \<in> ts \<Longrightarrow> gone s' t \<and> map_of (st_tombs s') t \<noteq> None"
    using a(4) rows m ids(1) k(3) ts(2) by blast
  show "map_of (st_tombs s') t = Some (erasure_marker E (the (get_memory s t)) (map_of (st_exports s) t))"
    if "t \<in> ts" "map_of (st_tombs s) t = None"
    using x [of _ t "the (get_memory s t)" "map_of (st_exports s) t"] that er ts(2) a(6) by auto
  show "i \<notin> ts \<Longrightarrow> map_of (st_tombs s') i = map_of (st_tombs s) i" using x ids(1) a(6) by auto
  show "map_of (st_tombs s) i = Some m \<Longrightarrow> \<exists>m'. map_of (st_tombs s') i = Some m' \<and> marker_below m' m"
    using m a(6) by auto
  show "st_exports s' = st_exports s" using a(7) k(4) by simp
qed

section \<open>The life of a store\<close>

text \<open>Writes, deletion markers, export proofs, erases and links, each one step.\<close>

datatype life_op =
    Basic store_op
  | Tombstone string "real option" string "string option" "string option" string
  | Export "string list" string "real option"
  | Erase string string
  | Link string string string "layer_arg option" string link_times bool
  | Link_version string string string layer_arg string link_times bool

fun run_life :: "store_env \<Rightarrow> life_op \<Rightarrow> store \<Rightarrow> store result" where
  "run_life E (Basic op) s = run_op E op s"
| "run_life E (Tombstone mid deleted dev ws repo cls) s = add_memory_tombstone E mid deleted dev ws repo cls s"
| "run_life E (Export mids ws t) s = rbind (mark_memories_sync_exported E mids ws t s) (\<lambda>(_, s). Inr s)"
| "run_life E (Erase actor mid) s = secure_erase_memory E actor mid s"
| "run_life E (Link a b relation layer reason t w) s = add_link (e_lib E) a b relation layer reason t w s"
| "run_life E (Link_version a b relation layer reason t w) s =
     rbind (add_link_version (e_lib E) a b relation layer reason t w s) (\<lambda>(_, s). Inr s)"

fun life_wf :: "life_op \<Rightarrow> bool" where
  "life_wf (Basic op) = op_wf op"
| "life_wf _ = True"

inductive live :: "store \<Rightarrow> bool" where
  live_empty: "live empty_store"
| live_step: "live s \<Longrightarrow> mint_fresh E s \<Longrightarrow> life_wf op \<Longrightarrow> run_life E op s = Inr s' \<Longrightarrow> live s'"

inductive_cases liveE: "live s"

definition exports_ok :: "store \<Rightarrow> bool" where
  "exports_ok s \<longleftrightarrow> (\<forall>i e. map_of (st_exports s) i = Some e \<longrightarrow> exp_first e \<le> exp_last e)"

definition same_markers :: "store \<Rightarrow> store \<Rightarrow> bool" where
  "same_markers s s' \<longleftrightarrow> st_tombs s' = st_tombs s \<and> st_exports s' = st_exports s \<and> st_links s' = st_links s"

lemma locate_markers:
  assumes "locate_row E audited r s = Inr y"
  shows "same_markers s (snd (snd y))"
  using assms
  by (auto simp: locate_row_def mint_id_def Let_def rbind_eq_Inr_conv same_markers_def audit_tables
      split: if_splits option.splits)

lemma add_impl_markers:
  assumes "add_memory_impl E audited preserve r s = Inr (r', s')"
  shows "same_markers s s'"
proof -
  obtain q y where l: "locate_row E audited q s = Inr y" and s': "s' = store_row (fst (snd y)) r' (snd (snd y))"
    using assms unfolding add_memory_impl_def Let_def rbind_eq_Inr_conv split_def
    by (auto simp: rbind_eq_Inr_conv split: if_splits)
  show ?thesis
    using locate_markers [OF l] by (simp add: s' same_markers_def store_row_def fts_upsert_def Let_def)
qed

lemma row_update_markers: "row_update s s' \<Longrightarrow> same_markers s s'"
  by (auto simp: row_update_def same_markers_def put_row_def)

lemma run_op_markers:
  assumes "run_op E op s = Inr s'" "store_ok s"
  shows "same_markers s s'"
proof (cases op)
  case (Write audited preserve r)
  obtain r1 r2 where "add_memory_impl E audited preserve r1 s = Inr (r2, s')"
    using assms(1) unfolding Write by (rule write_step)
  then show ?thesis by (rule add_impl_markers)
next
  case (Close mid end_at actor reason)
  obtain s1 where "audit (e_lib E) actor ''invalidate'' mid reason s1 = Inr s'" "row_update s s1"
    by (rule close_validity_stages [of E mid end_at actor reason s s']) (use assms Close in auto)
  then show ?thesis using audit_tables row_update_markers by (simp add: same_markers_def)
next
  case (Note actor action target detail)
  then show ?thesis using assms audit_tables by (simp add: same_markers_def)
qed (use assms in \<open>auto simp: rbind_eq_Inr_conv intro!: row_update_markers intro: row_updates\<close>)

definition only_exports :: "store \<Rightarrow> store \<Rightarrow> bool" where
  "only_exports s s' \<longleftrightarrow> s' = s\<lparr>st_exports := st_exports s'\<rparr>"

lemma only_exports_facts:
  assumes "only_exports s s'"
  shows "get_memory s' i = get_memory s i" "store_ok s' = store_ok s" "st_tombs s' = st_tombs s"
    "tombs_ok s' = tombs_ok s" "links_ok s' = links_ok s"
proof -
  obtain es where s': "s' = s\<lparr>st_exports := es\<rparr>" using assms unfolding only_exports_def by blast
  have e: "st_rows s' = st_rows s" "st_fts s' = st_fts s" "st_orphans s' = st_orphans s" "st_tombs s' = st_tombs s"
    "st_links s' = st_links s" by (simp_all add: s')
  then show g: "get_memory s' i = get_memory s i" "st_tombs s' = st_tombs s" "tombs_ok s' = tombs_ok s" for i
    by (simp_all add: get_memory_def tombs_ok_def)
  show "links_ok s' = links_ok s" by (simp add: links_ok_def linked_def g(1) e)
  show "store_ok s' = store_ok s" by (rule same_rows_ok) (use e in simp_all)
qed

lemma only_exports_trans: "only_exports a b \<Longrightarrow> only_exports b c \<Longrightarrow> only_exports a c"
  unfolding only_exports_def by (metis store.surjective store.update_convs(6))

lemma exports_ok_update:
  "exports_ok s \<Longrightarrow> exp_first e \<le> exp_last e \<Longrightarrow>
    exports_ok (s\<lparr>st_exports := AList.update mid e (st_exports s)\<rparr>)"
  by (auto simp: exports_ok_def update_conv')

lemma mark_one_effect:
  assumes "mark_one_export ws ts mid s = Inr s'" "exports_ok s"
  shows "exports_ok s' \<and> only_exports s s'"
  using assms
  by (auto simp: mark_one_export_def Let_def only_exports_def intro!: exports_ok_update
      split: if_splits option.splits)

lemma mark_exports_effect:
  assumes "mark_memories_sync_exported E mids ws t s = Inr (n, s')" "exports_ok s"
  shows "exports_ok s' \<and> only_exports s s'"
proof -
  obtain xs ts where run: "rfold (mark_one_export ws ts) xs s = Inr s'"
    using assms(1) unfolding mark_memories_sync_exported_def Let_def
    by (auto simp: rbind_eq_Inr_conv split: if_splits)
  show ?thesis
  proof (rule rfold_invariant [OF run])
    show "exports_ok s \<and> only_exports s s" using assms(2) by (simp add: only_exports_def)
  next
    fix x u v
    assume "exports_ok u \<and> only_exports s u" "mark_one_export ws ts x u = Inr v"
    then show "exports_ok v \<and> only_exports s v" using mark_one_effect only_exports_trans by blast
  qed
qed

lemma erase_needs_row:
  assumes "secure_erase_memory E actor mid s = Inr s'"
  shows "get_memory s mid \<noteq> None"
proof
  assume "get_memory s mid = None"
  then have "erase_all E actor [mid] s = ([], s)" "secure_erase_targets (e_lib E) s mid = Inr [mid]"
    by (simp_all add: erase_memory_rows_def secure_erase_targets_def)
  then show False using assms by (simp add: secure_erase_memory_def del: erase_all.simps)
qed

definition life_ok :: "store \<Rightarrow> bool" where
  "life_ok s \<longleftrightarrow> store_ok s \<and> tombs_ok s \<and> exports_ok s \<and> links_ok s"

lemma run_op_links:
  assumes "run_op E op s = Inr s'" "store_ok s" "mint_fresh E s" "op_wf op" "links_ok s" "same_markers s s'"
  shows "links_ok s'"
proof -
  have "linked s' a b" if l: "linked s a b" for a b
  proof -
    obtain x y where x: "get_memory s a = Some x" and y: "get_memory s b = Some y"
      and ws: "workspace_id x = workspace_id y" using l unfolding linked_def by blast
    obtain x' y' where "get_memory s' a = Some x'" "row_grows x x'" "get_memory s' b = Some y'" "row_grows y y'"
      using run_op_grows [OF assms(1-4) x] run_op_grows [OF assms(1-4) y] by blast
    then show ?thesis using ws by (simp add: linked_def row_grows_def)
  qed
  then show ?thesis using assms(5,6) by (simp add: links_ok_def same_markers_def)
qed

lemma links_step_ok:
  assumes "links_step s s'" "life_ok s"
  shows "life_ok s'" "st_tombs s' = st_tombs s"
proof -
  have o: "only_links s s'" "links_ok s'" using assms by (simp_all add: links_step_def life_ok_def)
  show "st_tombs s' = st_tombs s" using only_links_tables(5) [OF o(1)] .
  show "life_ok s'"
    using assms(2) o(2) only_links_tables(5,6,10) [OF o(1)] by (simp add: life_ok_def tombs_ok_def exports_ok_def)
qed

lemma run_life_ok:
  assumes "run_life E op s = Inr s'" "life_ok s" "mint_fresh E s" "life_wf op"
  shows "life_ok s' \<and>
    (\<forall>i t. map_of (st_tombs s) i = Some t \<longrightarrow> (\<exists>t'. map_of (st_tombs s') i = Some t' \<and> marker_below t' t))"
proof (cases op)
  case (Basic op)
  then have r: "run_op E op s = Inr s'" using assms(1) by simp
  have "store_ok s'" using run_op_ok [OF r] assms Basic by (simp add: life_ok_def)
  moreover have m: "same_markers s s'" using run_op_markers [OF r] assms(2) by (simp add: life_ok_def)
  moreover have "links_ok s'" by (rule run_op_links [OF r]) (use assms Basic m in \<open>simp_all add: life_ok_def\<close>)
  ultimately show ?thesis
    using assms(2) marker_below_refl by (auto simp: same_markers_def life_ok_def tombs_ok_def exports_ok_def)
next
  case (Tombstone mid deleted dev ws repo cls)
  then have r: "add_memory_tombstone E mid deleted dev ws repo cls s = Inr s'" using assms(1) by simp
  have ok: "tombs_ok s" using assms(2) by (simp add: life_ok_def)
  note k = tables_kept_facts [OF add_tombstone_kept [OF r]]
  show ?thesis
    using add_tombstone_get [OF r ok] k assms(2) by (auto simp: life_ok_def exports_ok_def)
next
  case (Export mids ws t)
  then obtain n where r: "mark_memories_sync_exported E mids ws t s = Inr (n, s')"
    using assms(1) by (auto simp: rbind_eq_Inr_conv)
  have "exports_ok s'" "only_exports s s'" using mark_exports_effect [OF r] assms(2) by (simp_all add: life_ok_def)
  then show ?thesis using only_exports_facts assms(2) marker_below_refl by (auto simp: life_ok_def)
next
  case (Erase actor mid)
  then have r: "secure_erase_memory E actor mid s = Inr s'" using assms(1) by simp
  obtain p where p: "get_memory s mid = Some p" using erase_needs_row [OF r] by blast
  have ok: "store_ok s" "tombs_ok s" using assms(2) by (simp_all add: life_ok_def)
  show ?thesis
    using secure_erase_result(1,2,7,8) [OF r ok p refl] secure_erase_links [OF r _ ok(2)] assms(2)
    by (simp add: life_ok_def exports_ok_def)
next
  case (Link a b relation layer reason t w)
  then have "links_step s s'" using assms(1) add_link_step by simp
  then show ?thesis using links_step_ok assms(2) marker_below_refl by simp
next
  case (Link_version a b relation layer reason t w)
  then have "links_step s s'" using assms(1) by (auto simp: rbind_eq_Inr_conv intro: add_link_version_step)
  then show ?thesis using links_step_ok assms(2) marker_below_refl by simp
qed

lemma live_ok: "live s \<Longrightarrow> life_ok s"
proof (induction rule: live.induct)
  case live_empty
  then show ?case
    using empty_store_ok by (simp add: life_ok_def tombs_ok_def exports_ok_def links_ok_def) (simp add: empty_store_def)
qed (use run_life_ok in blast)

section \<open>A concrete erase\<close>

lemma merge_empty: "merge_provenance_envelopes [] [] = []"
  by (simp add: merge_provenance_envelopes_def restrictive_state_def jupdate_def jget_def)

lemma demo_envelope: "provenance demo_row = canonical_envelope demo_record"
    "metadata demo_row = [(''provenance'', JObj (canonical_envelope demo_record))]"
  by (simp_all add: demo_row_def default_clocks_def canonical_retention_def with_envelope_def Let_def
      demo_record_def plain_record_def blank_record_def)

lemma demo_no_parent: "jget (canonical_envelope demo_record) ''conflict_of'' = JNull"
proof -
  have e: "provenance demo_record = []" "as_obj (jget (metadata demo_record) ''provenance'') = []"
    by (simp_all add: demo_record_def plain_record_def blank_record_def jget_def)
  show ?thesis
    by (simp only: canonical_envelope_def e merge_empty Let_def setdefault_def)
      (simp add: jget_jset jget_def jupdate_def)
qed

lemma demo_claims: "claimed_parents content_lib demo_row = Inr []"
  unfolding claimed_parents_def demo_envelope demo_no_parent Let_def
  by (simp add: jget_def str_or_empty_def)
lemma demo_live: "live demo_store"
  by (rule live_step [OF live_empty demo_fresh, of "Basic (Write False True demo_record)"])
    (simp_all only: life_wf.simps demo_wf run_life.simps demo_write)

lemma demo_targets: "secure_erase_targets content_lib demo_store ''mem_a'' = Inr [''mem_a'']"
proof -
  have "lineage_rows demo_store demo_row = [demo_row]" by (simp add: lineage_rows_def demo_store_tables)
  then have "lineage_edges content_lib (lineage_rows demo_store demo_row) = Inr []"
    by (simp add: lineage_edges_def demo_claims)
  then show ?thesis by (simp add: secure_erase_targets_def demo_store_tables children_def)
qed

lemma demo_erase: "\<exists>s'. secure_erase_memory demo_env ''user'' ''mem_a'' demo_store = Inr s'"
proof -
  have lib: "e_lib demo_env = content_lib" by (simp add: demo_env_def)
  obtain s1 where a: "erase_all demo_env ''user'' [''mem_a''] demo_store = ([(''mem_a'', demo_row, None)], s1)"
    by (simp add: erase_memory_rows_def demo_store_tables Let_def)
  then have "st_tombs s1 = []"
    using erase_all_effect(6) [OF a reachable_ok [OF demo_reachable]] by (simp add: demo_store_tables)
  then show ?thesis
    by (simp add: secure_erase_memory_def lib demo_targets a erase_marker_fresh del: erase_all.simps)
qed

lemma rbind_eq_Inl_conv:
  "rbind m f = Inl e \<longleftrightarrow> m = Inl e \<or> (\<exists>x. m = Inr x \<and> f x = Inl e)"
  by (cases m) auto

lemma claimed_error: "claimed_parents L r = Inl e \<Longrightarrow> e = TypeError"
  by (auto simp: claimed_parents_def Let_def split: if_splits)

lemma lineage_edges_error: "lineage_edges L rows = Inl e \<Longrightarrow> e = TypeError"
proof -
  have "e = TypeError" if "rmap (claimed_parents L) xs = Inl e" for xs
    using that by (induction xs) (auto simp: rbind_eq_Inl_conv dest: claimed_error)
  then show "lineage_edges L rows = Inl e \<Longrightarrow> e = TypeError"
    by (auto simp: lineage_edges_def rbind_eq_Inl_conv)
qed

section \<open>Properties of erasure\<close>

text \<open>
  C27: Every store that writes, clock stamps, closings, pins, reinforcements, audit notes, deletion
  markers, export proofs, secure erases and links lead to is well formed: the rows and their
  full-text mirror as before, every marker of a known class, every export proof with an ordered
  interval, and every version of a link between two rows of one workspace.
\<close>

theorem lifetime_well_formed:
  assumes "live s"
  shows "store_ok s \<and> tombs_ok s \<and> exports_ok s \<and> links_ok s"
  using live_ok [OF assms] by (simp add: life_ok_def)

theorem lifetime_well_formed_witness:
  "store_ok demo_store \<and> tombs_ok demo_store \<and> exports_ok demo_store \<and> links_ok demo_store"
  by (rule lifetime_well_formed [OF demo_live])

text \<open>
  C28: The lineage of a secure erase always ends with a finite duplicate-free list, unless a row
  makes an unhashable claim: it is exactly the rows reachable from the erased one through the
  claims of conflict successors, and every one of them is a row of the same workspace and
  repository.
\<close>

theorem erase_lineage_exact:
  assumes "live s" "get_memory s mid = Some primary"
    and "\<forall>r \<in> set (lineage_rows s primary). claimed_parents L r \<noteq> Inl TypeError"
  shows "\<exists>ts. secure_erase_targets L s mid = Inr ts \<and> distinct ts \<and>
    set ts = {t. (mid, t) \<in> (lineage_claims L s primary)\<^sup>*} \<and>
    (\<forall>t \<in> set ts. \<exists>r. get_memory s t = Some r \<and> workspace_id r = workspace_id primary \<and> repo_id r = repo_id primary)"
proof -
  have ok: "store_ok s" using live_ok [OF assms(1)] by (simp add: life_ok_def)
  have total: "\<exists>cs. rmap (claimed_parents L) xs = Inr cs"
    if "\<forall>r \<in> set xs. claimed_parents L r \<noteq> Inl TypeError" for xs
    using that
  proof (induction xs)
    case (Cons x xs)
    then obtain c cs where "claimed_parents L x = Inr c" "rmap (claimed_parents L) xs = Inr cs"
      using claimed_error by (cases "claimed_parents L x") auto
    then show ?case by simp
  qed simp
  from total [OF assms(3)] obtain edges where "lineage_edges L (lineage_rows s primary) = Inr edges"
    by (auto simp: lineage_edges_def)
  then have t: "secure_erase_targets L s mid = Inr (erase_loop edges [] [mid])"
    by (simp add: secure_erase_targets_def assms(2))
  show ?thesis
    using t secure_targets_exact(1,2) [OF t] assms(2) lineage_row [OF _ ok assms(2)] by auto
qed

theorem erase_lineage_exact_witness:
  "\<exists>ts. secure_erase_targets content_lib demo_store ''mem_a'' = Inr ts \<and> distinct ts"
proof -
  have "lineage_rows demo_store demo_row = [demo_row]" by (simp add: lineage_rows_def demo_store_tables)
  then show ?thesis
    using erase_lineage_exact [OF demo_live, of "''mem_a''" demo_row content_lib]
    by (auto simp: demo_store_tables demo_claims)
qed



text \<open>
  C30: A deletion marker is never lost, reclassified or narrowed: whatever happens to a store, the
  marker of an identifier stays, its deletion time only moves earlier, and its workspace and
  repository stay as they are or widen to unknown.
\<close>

theorem markers_only_widen:
  assumes "live s" "mint_fresh E s" "life_wf op" "run_life E op s = Inr s'" "map_of (st_tombs s) i = Some t"
  shows "\<exists>t'. map_of (st_tombs s') i = Some t' \<and> tomb_deleted_at t' \<le> tomb_deleted_at t \<and>
    tomb_class t' = tomb_class t \<and> tomb_workspace t' \<in> {tomb_workspace t, None} \<and>
    tomb_repo t' \<in> {tomb_repo t, None}"
  using run_life_ok [OF assms(4) live_ok [OF assms(1)] assms(2,3)] assms(5)
  by (fastforce simp: marker_below_def)

theorem markers_only_widen_witness:
  "\<exists>s s' t'. run_life demo_env (Tombstone ''mem_a'' (Some 7) dev_a None None TOMBSTONE_NEVER_EXPORT) demo_store = Inr s \<and>
     run_life demo_env (Tombstone ''mem_a'' (Some 5) dev_a (Some ''w'') None TOMBSTONE_NEVER_EXPORT) s = Inr s' \<and>
     map_of (st_tombs s') ''mem_a'' = Some t' \<and> tomb_deleted_at t' \<le> 7 \<and> tomb_workspace t' = None"
proof -
  let ?t = "\<lparr>tomb_deleted_at = 7, tomb_device = dev_a, tomb_workspace = None, tomb_repo = None,
    tomb_class = TOMBSTONE_NEVER_EXPORT\<rparr>"
  have d: "dev_a \<noteq> []" by (simp add: dev_a_def)
  define s where "s = demo_store\<lparr>st_tombs := [(''mem_a'', ?t)]\<rparr>"
  have one: "run_life demo_env (Tombstone ''mem_a'' (Some 7) dev_a None None TOMBSTONE_NEVER_EXPORT) demo_store = Inr s"
    using d by (simp add: add_memory_tombstone_def classes demo_store_tables Let_def s_def)
  have "live s" by (rule live_step [OF demo_live demo_store_fresh _ one]) simp
  moreover have "mint_fresh demo_env s"
    using demo_store_fresh by (simp add: mint_fresh_def s_def get_memory_def)
  moreover have "\<exists>s'. run_life demo_env (Tombstone ''mem_a'' (Some 5) dev_a (Some ''w'') None TOMBSTONE_NEVER_EXPORT) s = Inr s'"
    using d by (simp add: add_memory_tombstone_def classes s_def Let_def merge_marker_def scope_conflict_def)
  moreover have "map_of (st_tombs s) ''mem_a'' = Some ?t" by (simp add: s_def)
  ultimately show ?thesis
    using markers_only_widen [where E = demo_env and s = s and i = "''mem_a''" and t = ?t and
        op = "Tombstone ''mem_a'' (Some 5) dev_a (Some ''w'') None TOMBSTONE_NEVER_EXPORT"] one
    by fastforce
qed

text \<open>
  F: One row of the same workspace and repository whose metadata claims a list as its conflict
  parent makes the secure erase of any row raise a type error, with nothing erased.
\<close>

theorem planted_claim_blocks_erase:
  assumes "get_memory s mid = Some primary" "r \<in> set (lineage_rows s primary)"
    and "jget (provenance r) ''conflict_of'' = JNull"
    and "jget (as_obj (jget (metadata r) ''sync_conflict'')) ''memory_id'' = JList xs"
  shows "secure_erase_memory E actor mid s = Inl TypeError"
proof -
  have c: "claimed_parents (e_lib E) r = Inl TypeError"
    using assms(3,4) by (simp add: claimed_parents_def)
  have "\<not> (\<exists>cs. rmap (claimed_parents (e_lib E)) (lineage_rows s primary) = Inr cs)"
    using c assms(2) by (auto simp: rmap_Inr_conv list_all2_conv_all_nth in_set_conv_nth)
  then obtain e where "lineage_edges (e_lib E) (lineage_rows s primary) = Inl e"
    by (cases "lineage_edges (e_lib E) (lineage_rows s primary)")
      (auto simp: lineage_edges_def rbind_eq_Inr_conv)
  then show ?thesis
    using lineage_edges_error by (simp add: secure_erase_memory_def secure_erase_targets_def assms(1))
qed

definition planted_row :: memory_record where
  "planted_row = blank_record\<lparr>mem_id := ''mem_a'', metadata := [(''sync_conflict'', JObj [(''memory_id'', JList [])])]\<rparr>"

theorem planted_claim_blocks_erase_witness:
  "secure_erase_memory demo_env ''user'' ''mem_a'' (empty_store\<lparr>st_rows := [(''mem_a'', planted_row)]\<rparr>) = Inl TypeError"
  by (rule planted_claim_blocks_erase [where r = planted_row and primary = planted_row and xs = "[]"])
    (simp_all add: get_memory_def lineage_rows_def planted_row_def blank_record_def jget_def)

end
