(* ===== verification/SyncConvergence.thy ===== *)
theory SyncConvergence
  imports SyncMerge
begin

text \<open>
  What the merge of \<^verbatim>\<open>engraphis/core/sync.py\<close> promises: replay, commutativity on the synced
  state, convergence of replicas, the pin and closure joins, the peer budget and the conflict
  identifiers. The docstring of \<open>merge_record\<close> claims commutativity without reservation; the
  last theorem shows where that fails.
\<close>

section \<open>Example records\<close>

definition open_record :: memory_record where
  "open_record = blank_record\<lparr>mem_id := ''mem_x'', content := ''alpha'', ingested_at := Some 1\<rparr>"

definition closed_record :: memory_record where
  "closed_record = blank_record\<lparr>mem_id := ''mem_x'', content := ''beta'', ingested_at := Some 2,
     valid_to := Some 9, valid_to_recorded_at := Some 10, closure_observations := [(9, Some 10)],
     pinned := True, pinned_at := Some 4, access_count := 3\<rparr>"

lemma examples_deliverable [simp]: "deliverable open_record" "deliverable closed_record"
  by (simp_all add: open_record_def closed_record_def blank_record_def deliverable_def wf_record_def
      normalize_modified_hlc_def parse_modified_hlc_def canonical_def obs_set_def pins_nonneg_def
      nonneg_mark_def MAX_CLOSURE_OBSERVATIONS_def)

lemma examples_obs [simp]: "record_obs open_record = {}" "record_obs closed_record = {(9, Some 10)}"
  by (simp_all add: record_obs_def obs_set_def open_record_def closed_record_def blank_record_def)

lemma examples_version: "version_key L open_record < version_key L closed_record"
  by (simp add: version_key_def open_record_def closed_record_def blank_record_def)

lemma examples_merge: "\<exists>m. merge_record L open_record closed_record = Inr m"
proof (cases "merge_record L open_record closed_record")
  case (Inl e)
  have "wf_record open_record" "wf_record closed_record"
    using examples_deliverable by (simp_all add: deliverable_def)
  then show ?thesis using Inl by (simp add: merge_record_Inl MAX_CLOSURE_OBSERVATIONS_def)
qed simp

lemma examples_distinct_labels: "label_tuple L open_record \<noteq> label_tuple L closed_record"
  by (simp add: label_tuple_def open_record_def closed_record_def blank_record_def)

section \<open>Replay and commutativity\<close>

text \<open>
  F: replaying what has been merged changes nothing at all. Merging either side again into the
  result returns the result itself, every field included, so the write path sees a no-op.
\<close>

theorem merge_replay_noop:
  assumes "deliverable a" "deliverable b" "merge_record L a b = Inr m"
  shows "merge_record L m b = Inr m \<and> merge_record L m a = Inr m \<and> merge_record L m m = Inr m"
proof -
  note step = merge_step [OF assms]
  have m: "lattice_state L m = lattice_join (lattice_state L a) (lattice_state L b)"
    using step by blast
  have "lattice_join (lattice_state L m) (lattice_state L w) = lattice_state L m" if "w \<in> {a, b, m}" for w
    using that unfolding m
    by (metis insertE m singletonD states.join_assoc states.join_commute states.join_idem)
  moreover have "deliverable w" if "w \<in> {a, b, m}" for w using that assms step by blast
  ultimately have "merge_record L m w = Inr m" if "w \<in> {a, b, m}" for w
    using merge_absorbs [of m w L] step that by blast
  then show ?thesis by blast
qed

theorem merge_replay_noop_witness:
  "\<exists>m. merge_record content_lib open_record closed_record = Inr m \<and>
     merge_record content_lib m closed_record = Inr m"
  using examples_merge merge_replay_noop [of open_record closed_record] by fastforce

text \<open>
  C5: two peers that merge each other's versions agree on everything the protocol carries (the
  payload label with its version, closures, retirement, reinforcement and pin state) and fail
  alike, unless the content hash collides on the two payloads.
\<close>

theorem merge_commutes:
  assumes "deliverable a" "deliverable b" "merge_record L a b = Inr m"
    and "lib_stable_hash L (JList (label_tuple L a)) = lib_stable_hash L (JList (label_tuple L b)) \<Longrightarrow>
         label_tuple L a = label_tuple L b"
  shows "\<exists>n. merge_record L b a = Inr n \<and> label_tuple L n = label_tuple L m \<and>
    modified_hlc n = modified_hlc m \<and> lattice_state L n = lattice_state L m \<and>
    closure_observations n = closure_observations m \<and>
    (pinned n, pinned_at n, unpinned_at n) = (pinned m, pinned_at m, unpinned_at m) \<and>
    (valid_to n, valid_to_recorded_at n) = (valid_to m, valid_to_recorded_at m)"
proof -
  have wf: "wf_record a" "wf_record b" using assms by (simp_all add: deliverable_def)
  have "merge_record L b a \<noteq> Inl e" for e
    using merge_record_Inl [OF wf, of L e] merge_record_Inl [OF wf(2,1), of L e] assms(3)
    by (auto simp: Un_commute)
  then obtain n where n: "merge_record L b a = Inr n" by (cases "merge_record L b a") auto
  note sm = merge_step [OF assms(1,2,3)] and sn = merge_step [OF assms(2,1) n]
  have lat: "lattice_state L n = lattice_state L m"
    using sm sn states.join_commute by (metis (no_types, lifting))
  then have v: "version_key L n = version_key L m" and o: "record_obs n = record_obs m"
    and p: "pin_marks n = pin_marks m" by (simp_all add: lattice_state_def)
  have hash: "lib_stable_hash L (JList (label_tuple L n)) = lib_stable_hash L (JList (label_tuple L m))"
    and hlc: "modified_hlc n = modified_hlc m"
    using v by (auto simp: version_key_def Let_def split: if_splits)
  have "label_tuple L n = label_tuple L m"
    using sm sn hash assms(4) by (metis insertE singletonD)
  moreover have "closure_observations n = closure_observations m"
    using sm sn o wf_observations(2) canonical_unique
    by (metis deliverable_def wf_record_def)
  ultimately show ?thesis using n lat hlc sm sn p by (metis (no_types, lifting))
qed

lemma content_lib_separates:
  "lib_stable_hash content_lib (JList (label_tuple content_lib open_record)) \<noteq>
   lib_stable_hash content_lib (JList (label_tuple content_lib closed_record))"
  by (simp add: content_lib_def label_tuple_def open_record_def closed_record_def blank_record_def)

theorem merge_commutes_witness:
  "\<exists>m n. merge_record content_lib open_record closed_record = Inr m \<and>
     merge_record content_lib closed_record open_record = Inr n \<and>
     label_tuple content_lib n = label_tuple content_lib m \<and> pinned n = pinned m"
proof -
  obtain m where m: "merge_record content_lib open_record closed_record = Inr m"
    using examples_merge by blast
  show ?thesis
    using merge_commutes [OF examples_deliverable m] content_lib_separates m by auto
qed

text \<open>
  C1: convergence. Two replicas that hold the same record and receive the same updates, in any
  order and any number of times, both succeed (as long as the union of the closure histories
  fits the bound) and end with the same synced state, unless the content hash collides on two of
  the payloads.
\<close>

theorem replicas_converge:
  assumes "deliverable r" "\<forall>u \<in> set us. deliverable u" "set us = set vs"
    and "card (record_obs r \<union> (\<Union>u \<in> set us. record_obs u)) \<le> MAX_CLOSURE_OBSERVATIONS"
    and "\<forall>a \<in> insert r (set us). \<forall>b \<in> insert r (set us).
      lib_stable_hash L (JList (label_tuple L a)) = lib_stable_hash L (JList (label_tuple L b)) \<longrightarrow>
      label_tuple L a = label_tuple L b"
  shows "\<exists>m n. replay L r us = Inr m \<and> replay L r vs = Inr n \<and>
    lattice_state L n = lattice_state L m \<and> label_tuple L n = label_tuple L m \<and>
    modified_hlc n = modified_hlc m \<and> closure_observations n = closure_observations m"
proof -
  have dv: "\<forall>u \<in> set vs. deliverable u" using assms by simp
  obtain m where m: "replay L r us = Inr m"
    using replay_total [OF assms(1,2,4)] by blast
  obtain n where n: "replay L r vs = Inr n"
    using replay_total [OF assms(1) dv] assms(3,4) by auto
  note sm = replay_state [OF m assms(1,2)] and sn = replay_state [OF n assms(1) dv]
  have "states.receive (lattice_state L r) (map (lattice_state L) us) =
      states.receive (lattice_state L r) (map (lattice_state L) vs)"
    by (rule states.receive_converges) (simp_all add: assms(3))
  then have lat: "lattice_state L n = lattice_state L m" using sm sn by simp
  then have v: "version_key L n = version_key L m" and o: "record_obs n = record_obs m"
    by (simp_all add: lattice_state_def)
  have hash: "lib_stable_hash L (JList (label_tuple L n)) = lib_stable_hash L (JList (label_tuple L m))"
    and hlc: "modified_hlc n = modified_hlc m"
    using v by (auto simp: version_key_def Let_def split: if_splits)
  have "label_tuple L n = label_tuple L m"
    using sm sn hash assms(3,5) by metis
  moreover have "closure_observations n = closure_observations m"
    using sm sn o wf_observations(2) canonical_unique
    by (metis deliverable_def wf_record_def)
  ultimately show ?thesis using m n lat hlc by blast
qed

theorem replicas_converge_witness:
  "\<exists>m n. replay content_lib open_record [open_record, closed_record] = Inr m \<and>
     replay content_lib open_record [closed_record, closed_record, open_record] = Inr n \<and>
     label_tuple content_lib n = label_tuple content_lib m"
proof -
  have sep: "\<forall>a \<in> insert open_record (set [open_record, closed_record]).
      \<forall>b \<in> insert open_record (set [open_record, closed_record]).
      lib_stable_hash content_lib (JList (label_tuple content_lib a)) =
      lib_stable_hash content_lib (JList (label_tuple content_lib b)) \<longrightarrow>
      label_tuple content_lib a = label_tuple content_lib b"
    using content_lib_separates by auto
  have "card (record_obs open_record \<union> (\<Union>u \<in> set [open_record, closed_record]. record_obs u))
      \<le> MAX_CLOSURE_OBSERVATIONS"
    by (simp add: MAX_CLOSURE_OBSERVATIONS_def)
  from replicas_converge [OF examples_deliverable(1) _ _ this sep,
      of "[closed_record, closed_record, open_record]"]
  show ?thesis by auto
qed

text \<open>
  F: commutativity does not extend to the local policy envelope. Two copies that differ only in
  their provenance have the same version, so each peer keeps its own.
\<close>

theorem merge_keeps_own_provenance:
  "\<exists>m n. merge_record L (open_record\<lparr>provenance := approved_provenance\<rparr>) open_record = Inr m \<and>
     merge_record L open_record (open_record\<lparr>provenance := approved_provenance\<rparr>) = Inr n \<and>
     provenance m = approved_provenance \<and> provenance n = []"
proof -
  let ?a = "open_record\<lparr>provenance := approved_provenance\<rparr>"
  have d: "wf_record open_record" "wf_record ?a" and o: "record_obs ?a = {}"
    using examples_deliverable(1) examples_obs(1)
    by (simp_all add: deliverable_def wf_record_def record_obs_def)
  have v: "version_key L ?a = version_key L open_record"
    by (simp add: version_key_def label_tuple_def Let_def)
  have "canonical []" by (simp add: canonical_def)
  then have "merge_record L ?a open_record = Inr (merged L ?a open_record [])"
    "merge_record L open_record ?a = Inr (merged L open_record ?a [])"
    using d o by (auto simp: merge_record_Inr)
  moreover have "provenance (merged L ?a open_record []) = approved_provenance"
    "provenance (merged L open_record ?a []) = []"
    using v by (simp_all add: merged_def winner_def) (simp add: open_record_def blank_record_def)
  ultimately show ?thesis by blast
qed

section \<open>Pins, closures and the peer budget\<close>

text \<open>
  F: pin state is a latest-transition lattice. On states with non-negative clocks the join is
  commutative, associative and idempotent, and the joined row is pinned exactly when its latest
  pin (the epoch, for a legacy pinned row) is later than its latest unpin.
\<close>

theorem pin_join_lattice:
  assumes "pin_settled s" "pin_settled t" "pin_settled u"
  shows "pin_join s t = pin_join t s \<and> pin_join (pin_join s t) u = pin_join s (pin_join t u) \<and>
    pin_join s s = s \<and>
    snd (pin_join s t) = (max_opt (fst (snd s)) (fst (snd t)), max_opt (snd (snd s)) (snd (snd t)))"
proof -
  have "snd (pin_join s t) = marks_join (snd s) (snd t)"
    by (simp add: pin_join_settled [OF assms(1,2)])
  then show ?thesis
    using pins.join_commute [OF assms(1,2)] pins.join_assoc [OF assms] pins.join_idem [OF assms(1)]
    unfolding marks_join_def by blast
qed

theorem pin_join_lattice_witness:
  "pin_join (True, Some 4, None) (False, Some 2, Some (6::real)) = (False, Some 4, Some 6) \<and>
   pin_join (True, Some 4, None) (False, Some 2, Some 6) =
   pin_join (False, Some 2, Some 6) (True, Some 4, None)"
proof -
  have ok: "pin_settled (True, Some 4, None)" "pin_settled (False, Some 2, Some 6)"
    by (simp_all add: pin_settled_def pin_of_def nonneg_mark_def)
  show ?thesis
    using pin_join_lattice [OF ok ok(1)] pin_join_settled [OF ok]
    by (simp add: pin_of_def marks_join_def)
qed

text \<open>
  F: a peer cannot eat into the reserved head room. A row that passes the budget check leaves
  the joined history within the peer share, unless it brings nothing new; and a row that brings
  nothing new always passes, so replays are never refused.
\<close>

theorem peer_budget_keeps_headroom:
  "(\<not> peer_closure_budget_exceeded obs (Some r) \<longrightarrow>
     set obs \<subseteq> set (closure_observations r) \<or>
     card (set (closure_observations r) \<union> set obs) + RESERVED_LOCAL_CLOSURE_OBSERVATIONS
       \<le> MAX_CLOSURE_OBSERVATIONS) \<and>
   (card (set obs) \<le> MAX_CLOSURE_OBSERVATIONS \<and> set obs \<subseteq> set (closure_observations r) \<longrightarrow>
     \<not> peer_closure_budget_exceeded obs (Some r))"
  by (auto simp: peer_closure_budget_exceeded_def Let_def PEER_CLOSURE_OBSERVATION_BUDGET_def
      RESERVED_LOCAL_CLOSURE_OBSERVATIONS_def MAX_CLOSURE_OBSERVATIONS_def)

theorem peer_budget_keeps_headroom_witness:
  "\<not> peer_closure_budget_exceeded [(9, Some 10)] (Some closed_record)"
proof -
  have "set [(9, Some 10)] \<subseteq> set (closure_observations closed_record)"
    by (simp add: closed_record_def)
  then show ?thesis
    using peer_budget_keeps_headroom [of "[(9, Some 10)]" closed_record]
    by (simp add: MAX_CLOSURE_OBSERVATIONS_def)
qed

section \<open>Conflict identifiers\<close>

lemma LOWER_HEX_length [simp]: "length LOWER_HEX = 16"
  by (simp add: LOWER_HEX_def)

lemma conflict_id_eq:
  assumes "0 \<le> p" "p \<le> MAX_HLC_PHYSICAL_MS" "set (take 20 d) \<subseteq> set LOWER_HEX"
  shows "conflict_memory_id p d =
    Inr (''mem_'' @ encode 10 (nat p) @ encode 16 (digits_value LOWER_HEX (take 20 d)))"
proof -
  have p: "nat p < 32 ^ 10"
    using physical_fits [OF assms(1,2)] by (rule order.strict_trans2) simp
  have "digits_value LOWER_HEX (take 20 d) < 16 ^ length (take 20 d)"
    using digits_value_bound [OF assms(3)] by simp
  also have "\<dots> \<le> (16::nat) ^ 20" by (rule power_increasing) simp_all
  also have "\<dots> = 32 ^ 16" by simp
  finally show ?thesis
    using p unfolding conflict_memory_id_def Let_def encode_crockford_eq by simp
qed

text \<open>
  F: the identifier minted for the losing side of a clock conflict is a memory id of the normal
  shape, depends only on the clock and the pair hash, and sorts by the clock's physical time.
\<close>

theorem conflict_ids_sorted:
  assumes "0 \<le> p" "p < q" "q \<le> MAX_HLC_PHYSICAL_MS"
    and "set (take 20 d) \<subseteq> set LOWER_HEX" "set (take 20 e) \<subseteq> set LOWER_HEX"
  shows "\<exists>v w. conflict_memory_id p d = Inr v \<and> conflict_memory_id q e = Inr w \<and> v < w \<and>
    length v = 30 \<and> assert_id_kind v ''memory'' = Inr v"
proof -
  have "p \<le> MAX_HLC_PHYSICAL_MS" "0 \<le> q" using assms by simp_all
  note v = conflict_id_eq [OF assms(1) this(1) assms(4)] and w = conflict_id_eq [OF this(2) assms(3,5)]
  have "nat q < 16 ^ 12" by (rule physical_fits) (use assms in simp_all)
  also have "(16::nat) ^ 12 \<le> length CROCKFORD ^ 10" by simp
  finally have "nat p < length CROCKFORD ^ 10" "nat q < length CROCKFORD ^ 10"
    using assms by simp_all
  then have "encode 10 (nat p) < encode 10 (nat q)"
    using crockford.enc_less_iff assms by simp
  then have "''mem_'' @ encode 10 (nat p) @ encode 16 (digits_value LOWER_HEX (take 20 d)) <
      ''mem_'' @ encode 10 (nat q) @ encode 16 (digits_value LOWER_HEX (take 20 e))"
    by (simp add: lex_append_less crockford.length_enc)
  then show ?thesis
    using v w
    by (simp add: crockford.length_enc assert_id_kind_def PREFIXES_def starts_with_def)
qed

theorem conflict_ids_sorted_witness:
  "\<exists>v w. conflict_memory_id 7 ''0f'' = Inr v \<and> conflict_memory_id 8 ''00'' = Inr w \<and> v < w"
  using conflict_ids_sorted [of 7 8 "''0f''" "''00''"] by (auto simp: MAX_HLC_eqs LOWER_HEX_def)

end
