(* ===== verification/SyncApply.thy ===== *)
theory SyncApply
  imports Erasure SyncConvergence
begin

text \<open>
  Applying the rows of an untrusted bundle (\<^verbatim>\<open>engraphis/core/sync.py\<close>: \<open>_rehome_external_record\<close>,
  \<open>_hlc_conflict\<close>, \<open>_preserve_hlc_conflict\<close>, \<open>_write\<close>, \<open>_apply_one\<close>, \<open>_apply_memories\<close>) on the store
  of \<open>StoreRows\<close>.

  The engine is modelled without an embedder and without a vector index, and with no embedding
  rebuild in progress, so a write is the row write plus the removal of the vector of a
  quarantined row. A Python record that is mutated in place is the value after the mutation. The
  state is the store, the counters of the report, the rows accepted so far and the write-through
  cache of the current batch.

  Lemmas: what one row may do to the store, stated as one relation every branch satisfies, and
  the counters.
\<close>

section \<open>State\<close>

record sync_report =
  rp_added :: nat
  rp_updated :: nat
  rp_unchanged :: nat
  rp_rejected :: nat
  rp_conflicts :: nat
  rp_budget :: nat
  rp_tombs_applied :: nat
  rp_tombs_held :: nat
  rp_links_added :: nat
  rp_links_updated :: nat

definition empty_report :: sync_report where
  "empty_report = \<lparr>rp_added = 0, rp_updated = 0, rp_unchanged = 0, rp_rejected = 0, rp_conflicts = 0,
     rp_budget = 0, rp_tombs_applied = 0, rp_tombs_held = 0, rp_links_added = 0, rp_links_updated = 0\<rparr>"

type_synonym record_map = "(string \<times> memory_record) list"

record sync_state =
  y_store :: store
  y_report :: sync_report
  y_accepted :: record_map
  y_known :: record_map

text \<open>
  What is fixed while a bundle is applied: the receiving workspace, the local repository of each
  repository the bundle names, the restriction to one repository, the sending device and the
  dry-run flag.
\<close>

record sync_target =
  x_workspace :: string
  x_remap :: "(string \<times> string) list"
  x_only :: "string option"
  x_device :: string
  x_dry :: bool

definition peer_actor :: "pylib \<Rightarrow> string \<Rightarrow> string" where
  "peer_actor L device = ''sync:'' @ clamp_str L (JStr (if device = [] then ''peer'' else device)) 128"

definition rejected :: "sync_state \<Rightarrow> sync_state" where
  "rejected y = y\<lparr>y_report := (y_report y)\<lparr>rp_rejected := Suc (rp_rejected (y_report y))\<rparr>\<rparr>"

section \<open>Re-homing\<close>

text \<open>A conflict marker counts only with a clean parent identifier and the row's own clock.\<close>

definition conflict_parent :: "pylib \<Rightarrow> memory_record \<Rightarrow> string option" where
  "conflict_parent L r =
     (let marker = as_obj (jget (metadata r) ''sync_conflict'')
      in case jget marker ''memory_id'' of
           JStr parent \<Rightarrow>
             if parent \<noteq> [] \<and> parent = strip parent \<and> \<not> list_ex py_space parent \<and>
                parent = clamp_str L (JStr parent) 128 \<and>
                jget marker ''loser_hlc'' = JStr (modified_hlc r) \<and> modified_hlc r \<noteq> []
             then Some parent else None
         | _ \<Rightarrow> None)"

definition peer_provenance :: "memory_record \<Rightarrow> string option \<Rightarrow> string \<Rightarrow> obj result" where
  "peer_provenance r parent device =
     (let base = [(''source'', JStr (if parent = None then ''sync'' else ''sync_conflict'')),
                  (''trusted'', JBool False), (''review_state'', JStr REVIEW_PENDING),
                  (''trust_origin'', JStr ''sync_untrusted'')]
      in case parent of
           Some p \<Rightarrow> rbind (parse_modified_hlc False (modified_hlc r)) (\<lambda>(_, _, node).
             Inr (base @ [(''conflict_of'', JStr p), (''synced_from_device'', JStr node)]))
         | None \<Rightarrow> Inr (if device \<noteq> [] then base @ [(''synced_from_device'', JStr device)] else base))"

definition ingress_metadata :: "pylib \<Rightarrow> string \<Rightarrow> memory_record \<Rightarrow> obj \<Rightarrow> obj" where
  "ingress_metadata L device r p =
     (let upstream_source = clamp_str L (jget (provenance r) ''source'') 128;
          ingress = [(''source'', JStr (if upstream_source = [] then ''unknown'' else upstream_source)),
            (''claimed_trusted'', JBool (jget (provenance r) ''trusted'' = JBool True)),
            (''device'', JStr (if device = [] then ''peer'' else device))]
      in jset ''sync_ingress'' (JObj ingress)
           (jset ''provenance'' (JObj p) (jpops LOCAL_METADATA_FIELDS (metadata r))))"

definition screen_row :: "pylib \<Rightarrow> obj \<Rightarrow> memory_record \<Rightarrow> memory_record" where
  "screen_row L m r =
     (let d = assess_untrusted_payload (content r) (title r) (JObj m)
      in if quarantined d then
           let m = apply_quarantine_metadata m d;
               start = (case valid_from r of None \<Rightarrow> lib_now L | Some t \<Rightarrow> t)
           in r\<lparr>valid_from := Some start, valid_to := Some start, valid_to_recorded_at := Some (lib_now L),
                metadata := m, provenance := as_obj (jget m ''provenance'')\<rparr>
         else r\<lparr>metadata := m, provenance := as_obj (jget m ''provenance'')\<rparr>)"

definition rehome_external_record :: "pylib \<Rightarrow> string \<Rightarrow> memory_record \<Rightarrow> memory_record result" where
  "rehome_external_record L src_device r =
     (let device = (if src_device = [] then [] else clamp_str L (JStr src_device) 128)
      in rbind (peer_provenance r (conflict_parent L r) device) (\<lambda>p.
         Inr (screen_row L (ingress_metadata L device r p) r)))"

section \<open>Writing\<close>

definition sync_write :: "store_env \<Rightarrow> memory_record \<Rightarrow> store \<Rightarrow> (memory_record \<times> store) result" where
  "sync_write E r s =
     rbind (add_memory E False True False r s) (\<lambda>(r', s).
       Inr (r', if metadata_is_quarantined (JObj (metadata r))
                then s\<lparr>st_vectors := filter (\<lambda>v. v \<noteq> mem_id r') (st_vectors s)\<rparr> else s))"

section \<open>Concurrent edits\<close>

definition hlc_conflict :: "pylib \<Rightarrow> memory_record \<Rightarrow> memory_record \<Rightarrow> (int \<times> int \<times> string \<times> string) option result" where
  "hlc_conflict L left right =
     (if modified_hlc left = [] \<or> modified_hlc right = [] then Inr None
      else rbind (parse_modified_hlc False (modified_hlc left)) (\<lambda>(left_physical, left_logical, _).
           rbind (parse_modified_hlc False (modified_hlc right)) (\<lambda>(right_physical, right_logical, _).
             if (left_physical, left_logical) \<noteq> (right_physical, right_logical) then Inr None
             else
               let left_hash = lib_stable_hash L (JList (label_tuple L left));
                   right_hash = lib_stable_hash L (JList (label_tuple L right))
               in Inr (if left_hash = right_hash then None
                       else Some (left_physical, left_logical, left_hash, right_hash)))))"

definition logical_time_text :: "int \<Rightarrow> int \<Rightarrow> string" where
  "logical_time_text physical logical = hex_pad 12 (nat physical) @ '':'' @ hex_pad 8 (nat logical)"

text \<open>The two variants in order, as the sorted pairs enter the digest.\<close>

definition variant_json :: "string \<times> string \<Rightarrow> json" where
  "variant_json v = JList [JStr (fst v), JStr (snd v)]"

definition conflict_digest :: "pylib \<Rightarrow> string \<Rightarrow> int \<Rightarrow> int \<Rightarrow> string \<times> string \<Rightarrow> string \<times> string \<Rightarrow> string" where
  "conflict_digest L mid physical logical a b =
     lib_stable_hash L (JObj [(''kind'', JStr ''sync_hlc_conflict_v1''), (''memory_id'', JStr mid),
       (''logical_time'', JList [JInt physical, JInt logical]),
       (''variants'', JList (map variant_json (sort [a, b])))])"

definition conflict_marker :: "string \<Rightarrow> int \<Rightarrow> int \<Rightarrow> memory_record \<Rightarrow> memory_record \<Rightarrow> string \<Rightarrow> string \<Rightarrow> obj" where
  "conflict_marker mid physical logical win lose winner_hash loser_hash =
     [(''memory_id'', JStr mid), (''logical_time'', JStr (logical_time_text physical logical)),
      (''winner_hlc'', JStr (modified_hlc win)), (''loser_hlc'', JStr (modified_hlc lose)),
      (''winner_hash'', JStr winner_hash), (''loser_hash'', JStr loser_hash)]"

text \<open>The losing edit as an untrusted row of its own.\<close>

definition conflict_record :: "memory_record \<Rightarrow> memory_record \<Rightarrow> string \<Rightarrow> obj \<Rightarrow> memory_record result" where
  "conflict_record existing loser conflict_id marker =
     rbind (parse_modified_hlc False (modified_hlc loser)) (\<lambda>(_, _, node).
     rbind (record_closure_observations loser) (\<lambda>obs.
       let p = [(''source'', JStr ''sync_conflict''), (''trusted'', JBool False),
             (''review_state'', JStr REVIEW_PENDING), (''trust_origin'', JStr ''sync_untrusted''),
             (''conflict_of'', JStr (mem_id existing)), (''synced_from_device'', JStr node)];
           held = jget (metadata loser) ''quarantine'';
           m = jpops LOCAL_METADATA_FIELDS (metadata loser);
           m = (if held = JNull then m else jset ''quarantine'' held m);
           m = jset ''provenance'' (JObj p) (jset ''sync_conflict'' (JObj marker) m)
       in post_init (loser\<lparr>mem_id := conflict_id, workspace_id := workspace_id existing,
            repo_id := repo_id existing, session_id := None, metadata := m, provenance := p,
            closure_observations := obs\<rparr>)))"

definition protected_row :: "pylib \<Rightarrow> memory_record \<Rightarrow> bool" where
  "protected_row L r \<longleftrightarrow> provenance_is_approved L (JObj (provenance r)) \<or> sensitivity r = ''secret'' \<or> scope r = SESSION"

definition same_marker :: "json \<Rightarrow> obj \<Rightarrow> bool" where
  "same_marker marker expected \<longleftrightarrow> is_obj marker \<and> list_all (\<lambda>(k, v). jget (as_obj marker) k = v) expected"

text \<open>
  The successor: created once, and extended by further closures of the same variant.
\<close>

definition extend_successor :: "store_env \<Rightarrow> bool \<Rightarrow> string \<Rightarrow> memory_record \<Rightarrow> memory_record \<Rightarrow> obj \<Rightarrow>
    sync_state \<Rightarrow> sync_state result" where
  "extend_successor E dry conflict_id held preserved marker y =
     (if \<not> same_marker (jget (metadata held) ''sync_conflict'') marker \<or>
         modified_hlc held \<noteq> modified_hlc preserved \<or> \<not> same_sync_payload held preserved
      then Inl SyncError
      else if protected_row (e_lib E) held then Inr y
      else
        rbind (merge_closure_observations held preserved) (\<lambda>obs.
        rbind (post_init (held\<lparr>valid_to := fst (closure_projection obs),
                 valid_to_recorded_at := snd (closure_projection obs), closure_observations := obs\<rparr>)) (\<lambda>u.
        rbind (signature (e_lib E) u) (\<lambda>new. rbind (signature (e_lib E) held) (\<lambda>old.
          if new = old then Inr y
          else rbind (if dry then Inr (u, y_store y) else sync_write E u (y_store y)) (\<lambda>(u, s).
            Inr (y\<lparr>y_store := s, y_known := AList.update conflict_id u (y_known y)\<rparr>)))))))"

definition create_successor :: "store_env \<Rightarrow> bool \<Rightarrow> string \<Rightarrow> memory_record \<Rightarrow> string \<Rightarrow> sync_state \<Rightarrow>
    sync_state result" where
  "create_successor E dry conflict_id preserved detail y =
     rbind (if dry then Inr (preserved, y_store y)
            else rbind (sync_write E preserved (y_store y)) (\<lambda>(preserved, s).
              rbind (audit (e_lib E) ''sync'' ''sync_conflict_preserved'' conflict_id detail s)
                (\<lambda>s. Inr (preserved, s)))) (\<lambda>(preserved, s).
       Inr (y\<lparr>y_store := s, y_known := AList.update conflict_id preserved (y_known y),
              y_report := (y_report y)\<lparr>rp_conflicts := Suc (rp_conflicts (y_report y))\<rparr>\<rparr>))"

definition known_or_stored :: "store_env \<Rightarrow> bool \<Rightarrow> sync_state \<Rightarrow> string \<Rightarrow> memory_record option" where
  "known_or_stored E dry y mid =
     (case map_of (y_known y) mid of Some k \<Rightarrow> Some k
      | None \<Rightarrow> if dry then None else read_memory E (y_store y) mid)"

definition preserve_hlc_conflict :: "store_env \<Rightarrow> bool \<Rightarrow> memory_record \<Rightarrow> memory_record \<Rightarrow> sync_state \<Rightarrow>
    sync_state result" where
  "preserve_hlc_conflict E dry existing incoming y =
     rbind (hlc_conflict (e_lib E) existing incoming) (\<lambda>c. case c of None \<Rightarrow> Inr y
     | Some (physical, logical, existing_hash, incoming_hash) \<Rightarrow>
       let existing_wins = (version_key (e_lib E) existing \<ge> version_key (e_lib E) incoming);
           win = (if existing_wins then existing else incoming);
           loser = (if existing_wins then incoming else existing);
           winner_hash = (if existing_wins then existing_hash else incoming_hash);
           loser_hash = (if existing_wins then incoming_hash else existing_hash);
           digest = conflict_digest (e_lib E) (mem_id existing) physical logical
             (modified_hlc existing, existing_hash) (modified_hlc incoming, incoming_hash);
           marker = conflict_marker (mem_id existing) physical logical win loser winner_hash loser_hash;
           detail = ''concurrent variant of '' @ mem_id existing @ '' preserved at '' @
             logical_time_text physical logical @ ''; winner='' @ winner_hash @ ''; loser='' @ loser_hash
       in rbind (conflict_memory_id physical digest) (\<lambda>conflict_id.
          rbind (conflict_record existing loser conflict_id marker) (\<lambda>preserved.
          case known_or_stored E dry y conflict_id of
            Some held \<Rightarrow> extend_successor E dry conflict_id held preserved marker y
          | None \<Rightarrow> create_successor E dry conflict_id preserved detail y)))"

section \<open>One row\<close>

definition VALID_SCOPES :: "string list" where
  "VALID_SCOPES = map scope_value [SESSION, REPO, WORKSPACE, USER]"

text \<open>
  The row in the receiver's scope, or \<open>None\<close>: private scopes, an unknown scope, a scope pointer
  that does not fit the scope, an unmapped repository, a live tombstone, another repository than
  the requested one.
\<close>

definition row_scope :: "obj \<Rightarrow> memory_record \<Rightarrow> scope option" where
  "row_scope d r =
     (case jget d ''scope'' of
        JNull \<Rightarrow> Some (if jget d ''repo_id'' \<noteq> JNull then REPO else WORKSPACE)
      | JStr v \<Rightarrow> if v \<in> set VALID_SCOPES then Some (scope r) else None
      | _ \<Rightarrow> None)"

type_synonym live_tombs = "(string \<times> real \<times> string option) list"

definition tombstoned :: "live_tombs \<Rightarrow> string \<Rightarrow> string option \<Rightarrow> bool" where
  "tombstoned tombs mid repo =
     (case map_of tombs mid of None \<Rightarrow> False | Some (_, q) \<Rightarrow> q = None \<or> q = repo)"

definition row_repo :: "sync_target \<Rightarrow> obj \<Rightarrow> scope \<Rightarrow> string option option" where
  \<comment> \<open>\<open>None\<close>: the row is rejected\<close>
  "row_repo X d sc =
     (if sc = REPO then
        (case jget d ''repo_id'' of
           JStr rid \<Rightarrow> if rid = [] then None
                       else (case map_of (x_remap X) rid of None \<Rightarrow> None | Some local \<Rightarrow> Some (Some local))
         | _ \<Rightarrow> None)
      else if jget d ''repo_id'' \<noteq> JNull then None else Some None)"

definition rescope :: "sync_target \<Rightarrow> live_tombs \<Rightarrow> obj \<Rightarrow> memory_record \<Rightarrow> memory_record option" where
  "rescope X tombs d r =
     (if scope r = SESSION then None
      else case row_scope d r of None \<Rightarrow> None
      | Some sc \<Rightarrow> (case row_repo X d sc of None \<Rightarrow> None
        | Some repo \<Rightarrow>
            if tombstoned tombs (mem_id r) repo then None
            else if x_only X \<noteq> None \<and> repo \<noteq> x_only X then None
            else Some (r\<lparr>session_id := None, scope := sc, workspace_id := Some (x_workspace X), repo_id := repo\<rparr>)))"

text \<open>Whether the local row of the same identifier may take part in a merge at all.\<close>

definition mergeable :: "sync_target \<Rightarrow> memory_record \<Rightarrow> memory_record \<Rightarrow> bool" where
  "mergeable X existing r \<longleftrightarrow>
     workspace_id existing = Some (x_workspace X) \<and> sensitivity existing \<noteq> ''secret'' \<and>
     scope existing \<noteq> SESSION \<and> scope existing = scope r \<and> repo_id existing = repo_id r"

text \<open>Fields a legacy bundle omits are inherited, not erased.\<close>

definition inherit_omitted :: "obj \<Rightarrow> memory_record \<Rightarrow> memory_record \<Rightarrow> memory_record result" where
  "inherit_omitted d existing r =
     (let r = (if jhas d ''subject_key'' then r else r\<lparr>subject_key := subject_key existing\<rparr>);
          r = (if jhas d ''claim_kind'' then r else r\<lparr>claim_kind := claim_kind existing\<rparr>)
      in if \<not> jhas d ''valid_to_recorded_at'' \<and> valid_to r = valid_to existing then
           let r = r\<lparr>valid_to_recorded_at := valid_to_recorded_at existing\<rparr>
           in if jhas d ''closure_observations'' then Inr r
              else rbind (normalize_closure_observations [] (valid_to r) (valid_to_recorded_at r))
                     (\<lambda>obs. Inr (r\<lparr>closure_observations := obs\<rparr>))
         else Inr r)"

definition prior_reasons :: "memory_record \<Rightarrow> string list" where
  "prior_reasons r =
     (case jget (as_obj (jget (metadata r) ''quarantine'')) ''reasons'' of
        JList xs \<Rightarrow> concat (map (\<lambda>x. case x of JStr t \<Rightarrow> [t] | _ \<Rightarrow> []) xs)
      | _ \<Rightarrow> [])"

definition inherit_quarantine :: "pylib \<Rightarrow> memory_record \<Rightarrow> memory_record \<Rightarrow> memory_record" where
  "inherit_quarantine L existing r =
     (if metadata_is_quarantined (JObj (metadata existing)) \<or> py_truthy (jget (provenance existing) ''quarantined'')
      then
        let merged_reasons = rev (remdups (rev (prior_reasons existing @ [''inherited_quarantine''])));
            m = apply_quarantine_metadata (metadata r)
              \<lparr>quarantined = True, policy = POLICY_VERSION, reasons = merged_reasons\<rparr>
        in r\<lparr>metadata := m, provenance := as_obj (jget m ''provenance''), valid_from := valid_from existing,
             valid_to := (case valid_to existing of None \<Rightarrow> Some (lib_now L) | Some t \<Rightarrow> Some t),
             valid_to_recorded_at := (if valid_to existing \<noteq> None then valid_to_recorded_at existing
                                      else Some (lib_now L))\<rparr>
      else r)"

text \<open>The local envelope of an incoming row; a replay without envelopes keeps the local one.\<close>

definition local_envelope :: "pylib \<Rightarrow> string \<Rightarrow> obj \<Rightarrow> memory_record option \<Rightarrow> memory_record \<Rightarrow> memory_record result" where
  "local_envelope L device d existing r =
     (case existing of
        Some x \<Rightarrow>
          rbind (if \<not> jhas d ''metadata'' \<and> \<not> jhas d ''provenance'' \<and> same_sync_payload x r
                 then Inr (r\<lparr>metadata := metadata x, provenance := provenance x\<rparr>)
                 else rehome_external_record L device r) (\<lambda>r. Inr (inherit_quarantine L x r))
      | None \<Rightarrow> rehome_external_record L device r)"

text \<open>\<open>except ValueError\<close>: the row is rejected and the state is the one before the block.\<close>

definition reject_value_errors :: "sync_state \<Rightarrow> sync_state result \<Rightarrow> (sync_state + sync_state) result" where
  \<comment> \<open>\<open>Inr (Inl y)\<close>: the handler ran and returns; \<open>Inr (Inr y)\<close>: go on\<close>
  "reject_value_errors y m =
     (case m of Inl e \<Rightarrow> if e \<in> value_errors then Inr (Inl (rejected y)) else Inl e | Inr y' \<Rightarrow> Inr (Inr y'))"

definition count_unchanged :: "sync_report \<Rightarrow> sync_report" where
  "count_unchanged p = p\<lparr>rp_unchanged := Suc (rp_unchanged p)\<rparr>"

text \<open>A locally approved row: only a concurrent variant may be kept beside it.\<close>

definition apply_to_approved :: "store_env \<Rightarrow> sync_target \<Rightarrow> memory_record \<Rightarrow> memory_record \<Rightarrow> sync_state \<Rightarrow>
    sync_state result" where
  "apply_to_approved E X existing r y =
     rbind (rehome_external_record (e_lib E) (x_device X) r) (\<lambda>r'.
     rbind (reject_value_errors y (preserve_hlc_conflict E (x_dry X) existing r' y)) (\<lambda>res. case res of
       Inl y \<Rightarrow> Inr y
     | Inr y \<Rightarrow>
         rbind (if \<not> x_dry X \<and> content r \<noteq> content existing
                then audit (e_lib E) (peer_actor (e_lib E) (x_device X)) ''sync_trust_conflict'' (mem_id existing)
                       ''peer content ignored because local record is explicitly trusted'' (y_store y)
                else Inr (y_store y)) (\<lambda>s.
         Inr (y\<lparr>y_store := s, y_accepted := AList.update (mem_id r) existing (y_accepted y),
                y_report := count_unchanged (y_report y)\<rparr>))))"

text \<open>
  The validated join: over the peer's closure budget, an invalid interval, or the joined row (the
  row itself for a new identifier) with the state after a concurrent variant is preserved.
\<close>

datatype join_outcome = Over_budget | Bad_interval | Joined memory_record memory_record sync_state

definition join_row :: "store_env \<Rightarrow> sync_target \<Rightarrow> memory_record option \<Rightarrow> memory_record \<Rightarrow> sync_state \<Rightarrow>
    join_outcome result" where
  "join_row E X existing r y =
     rbind (record_closure_observations r) (\<lambda>obs.
     let r = r\<lparr>closure_observations := obs\<rparr>
     in rbind (case existing of None \<Rightarrow> Inr r | Some x \<Rightarrow> merge_record (e_lib E) x r) (\<lambda>m.
        if peer_closure_budget_exceeded (closure_observations m) existing then Inr Over_budget
        else rbind (has_valid_closure_interval m) (\<lambda>valid.
          if \<not> valid then Inr Bad_interval
          else rbind (case existing of None \<Rightarrow> Inr y | Some x \<Rightarrow> preserve_hlc_conflict E (x_dry X) x r y)
                 (\<lambda>y. Inr (Joined r m y)))))"

definition persist_new :: "store_env \<Rightarrow> string \<Rightarrow> memory_record \<Rightarrow> store \<Rightarrow> (memory_record \<times> store) result" where
  "persist_new E device r s =
     rbind (sync_write E r s) (\<lambda>(r, s).
     rbind (audit (e_lib E) (peer_actor (e_lib E) device) ''sync_add'' (mem_id r)
              (''new memory created from synced bundle (device: '' @ (if device = [] then ''peer'' else device) @ '')'') s) (\<lambda>s.
     rbind (if metadata_is_quarantined (JObj (metadata r))
            then audit (e_lib E) ''poisoning_policy'' ''sync_quarantine'' (mem_id r)
                   ''synced record quarantined by deterministic policy'' s
            else Inr s) (\<lambda>s. Inr (r, s))))"

definition add_row :: "store_env \<Rightarrow> sync_target \<Rightarrow> memory_record \<Rightarrow> sync_state \<Rightarrow> sync_state result" where
  "add_row E X r y =
     rbind (if x_dry X then Inr (r, y_store y) else persist_new E (x_device X) r (y_store y)) (\<lambda>(r, s).
     Inr (y\<lparr>y_store := s, y_known := AList.update (mem_id r) r (y_known y),
            y_accepted := AList.update (mem_id r) r (y_accepted y),
            y_report := (y_report y)\<lparr>rp_added := Suc (rp_added (y_report y))\<rparr>\<rparr>))"

definition update_row :: "store_env \<Rightarrow> sync_target \<Rightarrow> memory_record \<Rightarrow> memory_record \<Rightarrow> string \<Rightarrow> sync_state \<Rightarrow>
    sync_state result" where
  "update_row E X existing m mid y =
     rbind (signature (e_lib E) m) (\<lambda>new. rbind (signature (e_lib E) existing) (\<lambda>old.
       if new = old
       then Inr (y\<lparr>y_accepted := AList.update mid existing (y_accepted y), y_report := count_unchanged (y_report y)\<rparr>)
       else
         rbind (if x_dry X then Inr (m, y_store y)
                else rbind (sync_write E m (y_store y)) (\<lambda>(m, s).
                  rbind (audit (e_lib E) (peer_actor (e_lib E) (x_device X)) ''sync_overwrite'' (mem_id m)
                    ''content replaced by synced bundle (last-writer-wins)'' s) (\<lambda>s. Inr (m, s)))) (\<lambda>(m, s).
         Inr (y\<lparr>y_store := s, y_known := AList.update mid m (y_known y),
                y_accepted := AList.update mid m (y_accepted y),
                y_report := (y_report y)\<lparr>rp_updated := Suc (rp_updated (y_report y))\<rparr>\<rparr>))))"

definition apply_one :: "store_env \<Rightarrow> sync_target \<Rightarrow> live_tombs \<Rightarrow> obj \<Rightarrow> memory_record option \<Rightarrow> sync_state \<Rightarrow>
    sync_state result" where
  "apply_one E X tombs d row y =
     (case row of None \<Rightarrow> Inr (rejected y)
      | Some r \<Rightarrow> (case rescope X tombs d r of None \<Rightarrow> Inr (rejected y)
      | Some r \<Rightarrow>
          rbind (initialize_sync_store_defaults r) (\<lambda>r.
          let existing = map_of (y_known y) (mem_id r)
          in if (case existing of None \<Rightarrow> False | Some x \<Rightarrow> \<not> mergeable X x r) then Inr (rejected y)
             else
               rbind (case existing of None \<Rightarrow> Inr r | Some x \<Rightarrow> inherit_omitted d x r) (\<lambda>r.
               if (case existing of None \<Rightarrow> False | Some x \<Rightarrow> provenance_is_approved (e_lib E) (JObj (provenance x)))
               then apply_to_approved E X (the existing) r y
               else
                 rbind (local_envelope (e_lib E) (x_device X) d existing r) (\<lambda>r.
                 case join_row E X existing r y of
                   Inl e \<Rightarrow> if e \<in> value_errors then Inr (rejected y) else Inl e
                 | Inr Over_budget \<Rightarrow>
                     Inr (rejected (y\<lparr>y_report := (y_report y)\<lparr>rp_budget := Suc (rp_budget (y_report y))\<rparr>\<rparr>))
                 | Inr Bad_interval \<Rightarrow> Inr (rejected y)
                 | Inr (Joined r m y) \<Rightarrow>
                     (case existing of None \<Rightarrow> add_row E X r y
                      | Some x \<Rightarrow> update_row E X x m (mem_id r) y))))))"

section \<open>Batches\<close>

definition APPLY_BATCH :: nat where "APPLY_BATCH = 500"

text \<open>An admitted tombstone of the bundle with the local repository it maps to.\<close>

record peer_tomb =
  pt_id :: string
  pt_deleted_at :: real
  pt_device :: string
  pt_repo :: "string option"
  pt_mapped :: "string option"

text \<open>
  The markers rows are checked against: the stored ones of the workspace, and the admitted ones.
  A global marker is never narrowed.
\<close>

definition add_live :: "(string \<times> string) list \<Rightarrow> peer_tomb \<Rightarrow> live_tombs \<Rightarrow> live_tombs" where
  "add_live remap t tombs =
     (let repo = (case pt_mapped t of Some q \<Rightarrow> Some q
                  | None \<Rightarrow> (case pt_repo t of None \<Rightarrow> None | Some q \<Rightarrow> map_of remap q))
      in case map_of tombs (pt_id t) of
           None \<Rightarrow> AList.update (pt_id t) (pt_deleted_at t, repo) tombs
         | Some (_, None) \<Rightarrow> tombs
         | Some (at_time, Some _) \<Rightarrow>
             if repo \<noteq> None \<and> pt_deleted_at t < at_time
             then AList.update (pt_id t) (pt_deleted_at t, repo) tombs else tombs)"

definition live_tombstones :: "sync_target \<Rightarrow> peer_tomb list \<Rightarrow> store \<Rightarrow> live_tombs result" where
  "live_tombstones X tombs s =
     rbind (list_memory_tombstones s (Some (x_workspace X)) None) (\<lambda>stored.
       Inr (fold (add_live (x_remap X)) tombs
              (map (\<lambda>(i, t). (i, tomb_deleted_at t, tomb_repo t)) stored)))"

definition batch_known :: "store_env \<Rightarrow> sync_target \<Rightarrow> memory_record option list \<Rightarrow> sync_state \<Rightarrow> record_map" where
  "batch_known E X parsed y =
     (let ids = remdups (filter (\<lambda>i. i \<noteq> []) (concat (map (\<lambda>r. case r of None \<Rightarrow> [] | Some r \<Rightarrow> [mem_id r]) parsed)));
          known = concat (map (\<lambda>i. case read_memory E (y_store y) i of None \<Rightarrow> [] | Some r \<Rightarrow> [(i, r)]) ids)
      in if x_dry X
         then fold (\<lambda>r known. case r of None \<Rightarrow> known
                | Some r \<Rightarrow> (case map_of (y_accepted y) (mem_id r) of None \<Rightarrow> known
                    | Some a \<Rightarrow> AList.update (mem_id r) a known)) parsed known
         else known)"

definition apply_batch :: "store_env \<Rightarrow> sync_target \<Rightarrow> live_tombs \<Rightarrow> json list \<Rightarrow> sync_state \<Rightarrow> sync_state result" where
  "apply_batch E X tombs batch y =
     rbind (rmap (dict_to_record (e_lib E)) batch) (\<lambda>parsed.
       rfold (\<lambda>(d, row) y. apply_one E X tombs (as_obj d) row y) (zip batch parsed)
         (y\<lparr>y_known := batch_known E X parsed y\<rparr>))"

text \<open>
  Batches in order, each committed when it is complete. The first error stops the bundle: the
  batch in flight is rolled back, and the result is the store of the batches before it.
\<close>

function batches :: "'a list \<Rightarrow> 'a list list" where
  "batches [] = []"
| "xs \<noteq> [] \<Longrightarrow> batches xs = take APPLY_BATCH xs # batches (drop APPLY_BATCH xs)"
  by (auto simp: neq_Nil_conv) (metis list.exhaust)
termination by (relation "measure length") (auto simp: APPLY_BATCH_def)

fun apply_batches :: "store_env \<Rightarrow> sync_target \<Rightarrow> live_tombs \<Rightarrow> json list list \<Rightarrow> sync_state \<Rightarrow>
    py_error option \<times> sync_state" where
  "apply_batches E X tombs [] y = (None, y)"
| "apply_batches E X tombs (b # bs) y =
     (case apply_batch E X tombs b y of Inl e \<Rightarrow> (Some e, y) | Inr y \<Rightarrow> apply_batches E X tombs bs y)"

definition apply_memories :: "store_env \<Rightarrow> sync_target \<Rightarrow> peer_tomb list \<Rightarrow> json list \<Rightarrow> sync_state \<Rightarrow>
    py_error option \<times> sync_state" where
  "apply_memories E X tombs rows y =
     (case live_tombstones X tombs (y_store y) of
        Inl e \<Rightarrow> (Some e, y) | Inr live_map \<Rightarrow> apply_batches E X live_map (batches rows) y)"

end
