(* ===== verification/SyncEffect.thy ===== *)
theory SyncEffect
  imports SyncApply
begin

text \<open>
  What the rows of a bundle may do to the store (\<open>_apply_one\<close>, \<open>_apply_memories\<close> of
  \<^verbatim>\<open>engraphis/core/sync.py\<close>): every write of sync is of a row that is not approved, in the receiving
  workspace or on a conflict successor, over no protected row, and with the history kept. One
  relation between the store before and after states this for every identifier; it is reflexive
  and transitive, every branch of \<open>apply_one\<close> satisfies it, and so do batches.
\<close>

section \<open>Writes of sync\<close>

text \<open>
  Identifiers the store mints are never ones a bundle names or a conflict derives, and never
  repeat: what the randomness of \<open>ids.new_id\<close> stands for.
\<close>

definition mint_apart :: "store_env \<Rightarrow> string set \<Rightarrow> bool" where
  "mint_apart E ids \<longleftrightarrow>
     inj (e_mint E) \<and> range (e_mint E) \<inter> ids = {} \<and> (\<forall>p d. conflict_memory_id p d \<notin> Inr ` range (e_mint E))"

lemma locate_minted:
  assumes "locate_row E audited r s = Inr (r', existing, s')" "mint_fresh E s"
  shows "mem_id r' = mem_id r \<and> mem_id r \<noteq> [] \<and> st_minted s' = st_minted s \<or>
    st_minted s < st_minted s' \<and> (\<exists>k < st_minted s'. mem_id r' = e_mint E k)"
  using assms
  by (auto simp: locate_row_def mint_id_def Let_def rbind_eq_Inr_conv audit_tables mint_fresh_def
      get_memory_def split: if_splits option.splits)

lemma fresh_after_write:
  assumes "add_memory_impl E audited preserve r s = Inr (r', s')" "store_ok s" "mint_fresh E s"
    and "distinct (map fst (provenance r))" "0 \<le> confidence r" "confidence r \<le> 1"
    and "inj (e_mint E)" "mem_id r \<notin> range (e_mint E)"
  shows "mint_fresh E s'" "mem_id r' \<noteq> mem_id r \<Longrightarrow> mem_id r' \<in> range (e_mint E)"
proof -
  obtain obs r2 existing s1 r3 where
    l: "locate_row E audited (canonical_retention (e_lib E) (with_envelope (r\<lparr>closure_observations := obs\<rparr>))) s =
      Inr (r2, existing, s1)" and join: "join_history existing r2 = Inr r3"
    and stamp: "(if preserve then Inr (default_clocks (e_lib E) r3)
      else stamp_hlc E existing (default_clocks (e_lib E) r3)) = Inr r'"
    and s': "s' = store_row existing r' s1"
    using add_memory_impl_stages [OF assms(1)] by metis
  have "mem_id r3 = mem_id r2" using arg_cong [OF join_history_Inr(6) [OF join], of mem_id] by simp
  then have id: "mem_id r' = mem_id r2"
    using stamp by (auto simp: stamp_hlc_def default_clocks_def rbind_eq_Inr_conv Let_def split: if_splits)
  have m: "st_minted s' = st_minted s1" by (simp add: s' store_row_def fts_upsert_def Let_def)
  have cases: "mem_id r' = mem_id r \<and> mem_id r \<noteq> [] \<and> st_minted s' = st_minted s \<or>
    st_minted s < st_minted s' \<and> (\<exists>k < st_minted s'. mem_id r' = e_mint E k)"
    using locate_minted [OF l assms(3)] by (simp add: id m canonical_retention_def with_envelope_def Let_def)
  then show "mem_id r' \<noteq> mem_id r \<Longrightarrow> mem_id r' \<in> range (e_mint E)" by auto
  show "mint_fresh E s'"
    unfolding mint_fresh_def
  proof (intro allI impI)
    fix n assume n: "st_minted s' \<le> n"
    have "e_mint E n \<noteq> mem_id r'"
      using cases assms(7,8) n by (metis injD leD rangeI)
    moreover have "get_memory s (e_mint E n) = None \<and> e_mint E n \<noteq> []"
      using cases assms(3) n by (auto simp: mint_fresh_def)
    ultimately show "get_memory s' (e_mint E n) = None \<and> e_mint E n \<noteq> []"
      using add_memory_result(3) [OF assms(1-6)] by simp
  qed
qed

lemma same_workspace_keeps_id:
  assumes "add_memory_impl E audited preserve r s = Inr (r', s')" "mem_id r \<noteq> []"
    and "\<And>x. get_memory s (mem_id r) = Some x \<Longrightarrow> workspace_id x = workspace_id r"
  shows "mem_id r' = mem_id r"
proof -
  obtain obs r2 existing s1 r3 where
    l: "locate_row E audited (canonical_retention (e_lib E) (with_envelope (r\<lparr>closure_observations := obs\<rparr>))) s =
      Inr (r2, existing, s1)" and join: "join_history existing r2 = Inr r3"
    and stamp: "(if preserve then Inr (default_clocks (e_lib E) r3)
      else stamp_hlc E existing (default_clocks (e_lib E) r3)) = Inr r'"
    using add_memory_impl_stages [OF assms(1)] by metis
  have "mem_id r3 = mem_id r2" using arg_cong [OF join_history_Inr(6) [OF join], of mem_id] by simp
  then have "mem_id r' = mem_id r2"
    using stamp by (auto simp: stamp_hlc_def default_clocks_def rbind_eq_Inr_conv Let_def split: if_splits)
  moreover have "mem_id r2 = mem_id r"
    using l assms(2,3)
    by (auto simp: locate_row_def Let_def rbind_eq_Inr_conv canonical_retention_def with_envelope_def
        split: if_splits option.splits)
  ultimately show ?thesis by simp
qed

text \<open>
  The rows sync may write: not approved, whatever the boundary makes of its envelope.
\<close>

definition approved_row :: "pylib \<Rightarrow> memory_record \<Rightarrow> bool" where
  "approved_row L r \<longleftrightarrow> provenance_is_approved L (JObj (provenance r))"

definition inert :: "pylib \<Rightarrow> memory_record \<Rightarrow> bool" where
  "inert L r \<longleftrightarrow> jget (provenance r) ''trusted'' = JBool False \<or> envelope_ok r \<and> \<not> approved_row L r"

lemma approved_needs_trust: "jget (provenance r) ''trusted'' = JBool False \<Longrightarrow> \<not> approved_row L r"
  by (simp add: approved_row_def provenance_is_approved_def provenance_is_trusted_def Let_def)

lemma untrusted_envelope:
  assumes "jget (provenance r) ''trusted'' = JBool False"
  shows "jget (canonical_envelope r) ''trusted'' = JBool False"
proof -
  let ?p = "merge_provenance_envelopes (provenance r) (as_obj (jget (metadata r) ''provenance''))"
  have t: "jget ?p ''trusted'' = JBool False" by (simp add: merge_trusted assms)
  then have "jhas ?p ''trusted''" by (auto simp: jget_def jhas_def split: option.splits)
  then show ?thesis using t by (simp add: canonical_envelope_def Let_def setdefault_def jget_jset)
qed

lemma inert_write: "inert L r \<Longrightarrow> \<not> approved_row L (with_envelope r)"
  using untrusted_envelope [of r] approved_needs_trust [of "with_envelope r" L] with_envelope_id [of r]
  by (auto simp: inert_def) (simp add: with_envelope_def Let_def)

definition sane :: "memory_record \<Rightarrow> bool" where
  "sane r \<longleftrightarrow> distinct (map fst (provenance r)) \<and> 0 \<le> confidence r \<and> confidence r \<le> 1"

lemma sync_write_impl:
  assumes "sync_write E r s = Inr (r', s')"
  obtains s1 where "add_memory_impl E False True r s = Inr (r', s1)"
    "s' = (if metadata_is_quarantined (JObj (metadata r))
           then s1\<lparr>st_vectors := filter (\<lambda>v. v \<noteq> mem_id r') (st_vectors s1)\<rparr> else s1)"
proof -
  obtain q where "add_memory E False True False r s = Inr q" "r' = fst q"
    "s' = (if metadata_is_quarantined (JObj (metadata r))
           then (snd q)\<lparr>st_vectors := filter (\<lambda>v. v \<noteq> mem_id (fst q)) (st_vectors (snd q))\<rparr> else snd q)"
    using assms unfolding sync_write_def rbind_eq_Inr_conv split_def by auto
  moreover have "add_memory_impl E False True r s = Inr q"
    using calculation(1) by (auto simp: add_memory_def rbind_eq_Inr_conv split: if_splits)
  ultimately show thesis by (intro that [of "snd q"]) simp_all
qed

lemma sync_write_keeps_id:
  assumes "sync_write E r s = Inr (r', s')" "mem_id r \<noteq> []"
    and "\<And>x. get_memory s (mem_id r) = Some x \<Longrightarrow> workspace_id x = workspace_id r"
  shows "mem_id r' = mem_id r"
  using same_workspace_keeps_id [OF _ assms(2,3)] sync_write_impl [OF assms(1)] by metis

lemma sync_write_result:
  assumes "sync_write E r s = Inr (r', s')" "store_ok s" "mint_fresh E s" "inj (e_mint E)"
    and "mem_id r \<notin> range (e_mint E)" "sane r" "inert L r"
  shows "store_ok s'" "mint_fresh E s'" "get_memory s' i = (if i = mem_id r' then Some r' else get_memory s i)"
    and "row_ok r'" "\<not> approved_row L r'" "workspace_id r' = workspace_id r" "repo_id r' = repo_id r"
    and "scope r' = scope r" "sensitivity r' = sensitivity r"
    and "mem_id r' = mem_id r \<or> get_memory s (mem_id r') = None \<and> mem_id r' \<in> range (e_mint E)"
    and "get_memory s (mem_id r') = Some x \<Longrightarrow>
      workspace_id x = workspace_id r \<and> set (closure_observations x) \<subseteq> set (closure_observations r')"
    and "get_memory s (mem_id r') = Some x \<Longrightarrow> row_grows x r'"
    and "st_tombs s' = st_tombs s"
    and "mem_id r \<noteq> [] \<Longrightarrow> (\<And>x. get_memory s (mem_id r) = Some x \<Longrightarrow> workspace_id x = workspace_id r) \<Longrightarrow>
      mem_id r' = mem_id r"
    and "mem_id r' \<noteq> []"
proof -
  obtain s1 where a: "add_memory_impl E False True r s = Inr (r', s1)"
    and s': "s' = (if metadata_is_quarantined (JObj (metadata r))
                then s1\<lparr>st_vectors := filter (\<lambda>v. v \<noteq> mem_id r') (st_vectors s1)\<rparr> else s1)"
    by (rule sync_write_impl [OF assms(1)])
  have sane: "distinct (map fst (provenance r))" "0 \<le> confidence r" "confidence r \<le> 1"
    using assms(6) by (simp_all add: sane_def)
  note w = add_memory_result [OF a assms(2,3) sane]
  note f = fresh_after_write [OF a assms(2,3) sane assms(4,5)]
  have same: "get_memory s' j = get_memory s1 j" "st_minted s' = st_minted s1" "store_ok s' = store_ok s1"
    "st_tombs s' = st_tombs s1" for j
    using same_rows_ok [of s' s1] by (auto simp: s' get_memory_def)
  show "store_ok s'" "mint_fresh E s'" "get_memory s' i = (if i = mem_id r' then Some r' else get_memory s i)"
    "row_ok r'"
    using w(1-3) f(1) by (simp_all add: same mint_fresh_def)
  show tombs: "st_tombs s' = st_tombs s" using add_impl_markers [OF a] by (simp add: same same_markers_def)
  have keep: "provenance r' = provenance (with_envelope r)" "workspace_id r' = workspace_id r"
    "repo_id r' = repo_id r" "scope r' = scope r" "sensitivity r' = sensitivity r"
    by (subst w(4), simp add: canonical_retention_def with_envelope_def Let_def)+
  show "workspace_id r' = workspace_id r" "repo_id r' = repo_id r" "scope r' = scope r"
    "sensitivity r' = sensitivity r" by (fact keep)+
  show "\<not> approved_row L r'" using inert_write [OF assms(7)] by (simp add: approved_row_def keep(1))
  show "mem_id r' = mem_id r \<or> get_memory s (mem_id r') = None \<and> mem_id r' \<in> range (e_mint E)"
    using w(5) f(2) by blast
  show "mem_id r \<noteq> [] \<Longrightarrow> (\<And>x. get_memory s (mem_id r) = Some x \<Longrightarrow> workspace_id x = workspace_id r) \<Longrightarrow>
      mem_id r' = mem_id r"
    by (rule same_workspace_keeps_id [OF a])
  show "mem_id r' \<noteq> []" using w(6) by (auto simp: starts_with_def)
  show x: "workspace_id x = workspace_id r \<and> set (closure_observations x) \<subseteq> set (closure_observations r')"
    if "get_memory s (mem_id r') = Some x" using w(7) [OF that] by simp
  show "row_grows x r'" if "get_memory s (mem_id r') = Some x"
    using get_ok [OF assms(2) that] w(2) x [OF that] keep(2) by (intro row_growsI) auto
qed

section \<open>What one row may do\<close>

text \<open>
  The effect of sync on one identifier: nothing, or a row that is not approved. A row that was
  there is not protected, keeps identity, workspace and history, and belongs to the receiving
  workspace unless it is a conflict successor; a new row belongs to the receiving workspace. A
  live tombstone of the row's repository is respected except by conflict successors.
\<close>

definition successor :: "memory_record \<Rightarrow> bool" where
  "successor r \<longleftrightarrow> is_obj (jget (metadata r) ''sync_conflict'')"

definition row_effect :: "store_env \<Rightarrow> string \<Rightarrow> live_tombs \<Rightarrow> string \<Rightarrow> memory_record option \<Rightarrow>
    memory_record option \<Rightarrow> bool" where
  "row_effect E ws tombs i old new \<longleftrightarrow>
     new = old \<or>
     (\<exists>r'. new = Some r' \<and> \<not> approved_row (e_lib E) r' \<and>
       (tombstoned tombs i (repo_id r') \<longrightarrow> i \<in> range (e_mint E) \<or> (\<exists>p d. conflict_memory_id p d = Inr i)) \<and>
       (case old of None \<Rightarrow> workspace_id r' = Some ws
        | Some r \<Rightarrow> \<not> protected_row (e_lib E) r \<and> row_grows r r' \<and> (workspace_id r = Some ws \<or> successor r)))"

definition sync_effect :: "store_env \<Rightarrow> string \<Rightarrow> live_tombs \<Rightarrow> store \<Rightarrow> store \<Rightarrow> bool" where
  "sync_effect E ws tombs s s' \<longleftrightarrow> (\<forall>i. row_effect E ws tombs i (get_memory s i) (get_memory s' i))"

lemma sync_effect_refl: "(\<And>i. get_memory s' i = get_memory s i) \<Longrightarrow> sync_effect E ws tombs s s'"
  by (simp add: sync_effect_def row_effect_def)

lemma row_grows_trans: "row_grows a b \<Longrightarrow> row_grows b c \<Longrightarrow> row_grows a c"
  by (fastforce simp: row_grows_def)

lemma row_effect_trans:
  assumes "row_effect E ws tombs i a b" "row_effect E ws tombs i b c"
  shows "row_effect E ws tombs i a c"
proof (cases "b = a \<or> c = b")
  case True
  then show ?thesis using assms by auto
next
  case False
  then obtain r1 where b: "b = Some r1"
    and o: "case a of None \<Rightarrow> workspace_id r1 = Some ws
        | Some r \<Rightarrow> \<not> protected_row (e_lib E) r \<and> row_grows r r1 \<and> (workspace_id r = Some ws \<or> successor r)"
    using assms(1) unfolding row_effect_def by blast
  obtain r2 where c: "c = Some r2" and n: "\<not> approved_row (e_lib E) r2"
    and t: "tombstoned tombs i (repo_id r2) \<longrightarrow> i \<in> range (e_mint E) \<or> (\<exists>p d. conflict_memory_id p d = Inr i)"
    and g: "row_grows r1 r2"
    using False assms(2) b unfolding row_effect_def by auto
  have "case a of None \<Rightarrow> workspace_id r2 = Some ws
      | Some r \<Rightarrow> \<not> protected_row (e_lib E) r \<and> row_grows r r2 \<and> (workspace_id r = Some ws \<or> successor r)"
    using o g row_grows_trans [OF _ g] by (cases a) (auto simp: row_grows_def [of r1 r2])
  then show ?thesis using n t c unfolding row_effect_def by blast
qed

lemma sync_effect_trans:
  "sync_effect E ws tombs a b \<Longrightarrow> sync_effect E ws tombs b c \<Longrightarrow> sync_effect E ws tombs a c"
  using row_effect_trans unfolding sync_effect_def by blast

text \<open>One write in one step of sync.\<close>

lemma write_effect:
  assumes "sync_write E r s = Inr (r', s')" "store_ok s" "mint_fresh E s" "inj (e_mint E)"
    and "mem_id r \<notin> range (e_mint E)" "sane r" "inert (e_lib E) r"
    and "workspace_id r = Some ws \<or> mem_id r \<noteq> [] \<and> (\<exists>x. get_memory s (mem_id r) = Some x \<and> successor x)"
    and "\<And>x. mem_id r \<noteq> [] \<Longrightarrow> get_memory s (mem_id r) = Some x \<Longrightarrow> \<not> protected_row (e_lib E) x"
    and "mem_id r \<noteq> [] \<Longrightarrow> tombstoned tombs (mem_id r) (repo_id r) \<Longrightarrow> \<exists>p d. conflict_memory_id p d = Inr (mem_id r)"
    and "\<And>x. mem_id r \<noteq> [] \<Longrightarrow> get_memory s (mem_id r) = Some x \<Longrightarrow> workspace_id x = workspace_id r"
  shows "sync_effect E ws tombs s s'"
  unfolding sync_effect_def
proof
  fix i
  note w = sync_write_result [OF assms(1-7)]
  show "row_effect E ws tombs i (get_memory s i) (get_memory s' i)"
  proof (cases "i = mem_id r'")
    case False
    then show ?thesis by (simp add: w(3) row_effect_def)
  next
    case True
    have ne: "mem_id r' \<noteq> []" by (rule w(15))
    have "tombstoned tombs i (repo_id r') \<longrightarrow> i \<in> range (e_mint E) \<or> (\<exists>p d. conflict_memory_id p d = Inr i)"
      using w(10) assms(10) w(7) True ne by auto
    moreover have "case get_memory s i of None \<Rightarrow> workspace_id r' = Some ws
        | Some x \<Rightarrow> \<not> protected_row (e_lib E) x \<and> row_grows x r' \<and> (workspace_id x = Some ws \<or> successor x)"
    proof (cases "get_memory s i")
      case None
      have "workspace_id r = Some ws"
      proof (rule ccontr)
        assume "workspace_id r \<noteq> Some ws"
        then obtain x where x: "mem_id r \<noteq> []" "get_memory s (mem_id r) = Some x" using assms(8) by blast
        then have "mem_id r' = mem_id r" using w(14) assms(11) by blast
        then show False using None True x(2) by simp
      qed
      then show ?thesis using None w(6) by simp
    next
      case (Some x)
      then have "mem_id r' = mem_id r" using w(10) True by auto
      then show ?thesis using Some assms(8,9,11) w(12) True ne by auto
    qed
    ultimately show ?thesis using w(5) True by (auto simp: row_effect_def w(3))
  qed
qed

section \<open>Preserving a concurrent variant\<close>

lemma preserve_cases:
  assumes "preserve_hlc_conflict E dry existing incoming y = Inr y'"
  obtains (same) "y' = y"
  | (extend) p d cid held preserved marker where "conflict_memory_id p d = Inr cid"
      "known_or_stored E dry y cid = Some held" "extend_successor E dry cid held preserved marker y = Inr y'"
  | (create) p d cid loser marker preserved detail where "conflict_memory_id p d = Inr cid"
      "known_or_stored E dry y cid = None" "loser \<in> {existing, incoming}"
      "conflict_record existing loser cid marker = Inr preserved"
      "create_successor E dry cid preserved detail y = Inr y'"
proof -
  obtain c where c: "hlc_conflict (e_lib E) existing incoming = Inr c"
    using assms unfolding preserve_hlc_conflict_def Let_def rbind_eq_Inr_conv by blast
  show thesis
  proof (cases c)
    case None
    then show thesis using assms c same by (simp add: preserve_hlc_conflict_def)
  next
    case (Some q)
    obtain physical logical existing_hash incoming_hash where q: "q = (physical, logical, existing_hash, incoming_hash)"
      by (cases q)
    define loser where "loser = (if version_key (e_lib E) existing \<ge> version_key (e_lib E) incoming
      then incoming else existing)"
    have in2: "loser \<in> {existing, incoming}" by (simp add: loser_def)
    obtain d marker detail where "rbind (conflict_memory_id physical d) (\<lambda>cid.
          rbind (conflict_record existing loser cid marker) (\<lambda>preserved.
          case known_or_stored E dry y cid of
            Some held \<Rightarrow> extend_successor E dry cid held preserved marker y
          | None \<Rightarrow> create_successor E dry cid preserved detail y)) = Inr y'"
      using assms unfolding preserve_hlc_conflict_def c rbind_simps Some q option.case prod.case Let_def
        loser_def [symmetric] by (rule that)
    then obtain cid preserved where 1: "conflict_memory_id physical d = Inr cid" "loser \<in> {existing, incoming}"
      "conflict_record existing loser cid marker = Inr preserved"
      and run: "(case known_or_stored E dry y cid of
            Some held \<Rightarrow> extend_successor E dry cid held preserved marker y
          | None \<Rightarrow> create_successor E dry cid preserved detail y) = Inr y'"
      using in2 unfolding rbind_eq_Inr_conv by blast
    show thesis
    proof (cases "known_or_stored E dry y cid")
      case None
      then show thesis using create [OF 1(1) None 1(2,3)] run by simp
    next
      case held: (Some held)
      then show thesis using extend [OF 1(1) held] run by simp
    qed
  qed
qed

lemma extend_cases:
  assumes "extend_successor E dry cid held preserved marker y = Inr y'"
  obtains (same) "y' = y"
  | (stored) vt vtr obs u r' s' where "successor held" "\<not> protected_row (e_lib E) held"
      "post_init (held\<lparr>valid_to := vt, valid_to_recorded_at := vtr, closure_observations := obs\<rparr>) = Inr u"
      "(if dry then Inr (u, y_store y) else sync_write E u (y_store y)) = Inr (r', s')"
      "y' = y\<lparr>y_store := s', y_known := AList.update cid r' (y_known y)\<rparr>"
proof (cases "protected_row (e_lib E) held")
  case True
  then show thesis using assms same by (auto simp: extend_successor_def split: if_splits)
next
  case False
  have m: "successor held"
    using assms by (auto simp: extend_successor_def successor_def same_marker_def split: if_splits)
  obtain obs u where u: "post_init (held\<lparr>valid_to := fst (closure_projection obs),
      valid_to_recorded_at := snd (closure_projection obs), closure_observations := obs\<rparr>) = Inr u"
    and run: "rbind (signature (e_lib E) u) (\<lambda>new. rbind (signature (e_lib E) held) (\<lambda>old.
          if new = old then Inr y
          else rbind (if dry then Inr (u, y_store y) else sync_write E u (y_store y)) (\<lambda>(u, s).
            Inr (y\<lparr>y_store := s, y_known := AList.update cid u (y_known y)\<rparr>)))) = Inr y'"
    using assms False unfolding extend_successor_def by (auto simp: rbind_eq_Inr_conv split: if_splits)
  show thesis
  proof (cases "y' = y")
    case True
    then show thesis by (rule same)
  next
    case changed: False
    obtain n1 n2 :: string where "(if n1 = n2 then Inr y
          else rbind (if dry then Inr (u, y_store y) else sync_write E u (y_store y)) (\<lambda>(u, s).
            Inr (y\<lparr>y_store := s, y_known := AList.update cid u (y_known y)\<rparr>))) = Inr y'"
      using run unfolding rbind_eq_Inr_conv [of "signature _ _"] by auto
    then have "rbind (if dry then Inr (u, y_store y) else sync_write E u (y_store y)) (\<lambda>(u, s).
            Inr (y\<lparr>y_store := s, y_known := AList.update cid u (y_known y)\<rparr>)) = Inr y'"
      using changed by (simp split: if_splits)
    then obtain q where "(if dry then Inr (u, y_store y) else sync_write E u (y_store y)) = Inr q"
      "y' = y\<lparr>y_store := snd q, y_known := AList.update cid (fst q) (y_known y)\<rparr>"
      unfolding rbind_eq_Inr_conv split_def by auto
    then show thesis using stored [OF m False u, of "fst q" "snd q"] by simp
  qed
qed

lemma create_cases:
  assumes "create_successor E False cid preserved detail y = Inr y'"
  obtains r' s1 s' where "sync_write E preserved (y_store y) = Inr (r', s1)"
    "audit (e_lib E) ''sync'' ''sync_conflict_preserved'' cid detail s1 = Inr s'"
    "y' = y\<lparr>y_store := s', y_known := AList.update cid r' (y_known y),
        y_report := (y_report y)\<lparr>rp_conflicts := Suc (rp_conflicts (y_report y))\<rparr>\<rparr>"
  using assms unfolding create_successor_def rbind_eq_Inr_conv split_def if_False by auto

section \<open>The invariant of a run\<close>

text \<open>The cache agrees with the store, and is complete for the identifiers of the batch.\<close>

definition sync_inv :: "store_env \<Rightarrow> string set \<Rightarrow> sync_state \<Rightarrow> bool" where
  "sync_inv E ids y \<longleftrightarrow>
     store_ok (y_store y) \<and> mint_fresh E (y_store y) \<and> map_of (y_known y) [] = None \<and>
     (\<forall>k x. map_of (y_known y) k = Some x \<longrightarrow> get_memory (y_store y) k = Some x) \<and>
     (\<forall>k \<in> ids. k \<noteq> [] \<longrightarrow> map_of (y_known y) k = get_memory (y_store y) k)"

text \<open>What a later step may rely on of a row an earlier step may have changed.\<close>

definition keeps_guards :: "store \<Rightarrow> store \<Rightarrow> bool" where
  "keeps_guards s s' \<longleftrightarrow> (\<forall>i r. get_memory s i = Some r \<longrightarrow>
     (\<exists>r'. get_memory s' i = Some r' \<and> sensitivity r' = sensitivity r \<and> scope r' = scope r \<and>
        workspace_id r' = workspace_id r))"

lemma conflict_record_facts:
  assumes "conflict_record existing loser cid marker = Inr r"
  shows "mem_id r = cid" "workspace_id r = workspace_id existing" "repo_id r = repo_id existing"
    and "sane r" "inert L r"
proof -
  obtain node obs m p where r: "post_init (loser\<lparr>mem_id := cid, workspace_id := workspace_id existing,
      repo_id := repo_id existing, session_id := None, metadata := m, provenance := p,
      closure_observations := obs\<rparr>) = Inr r"
    and p: "p = [(''source'', JStr ''sync_conflict''), (''trusted'', JBool False),
             (''review_state'', JStr REVIEW_PENDING), (''trust_origin'', JStr ''sync_untrusted''),
             (''conflict_of'', JStr (mem_id existing)), (''synced_from_device'', JStr node)]"
  proof -
    obtain q :: "int \<times> int \<times> string" and obs where "(case q of (_, _, node) \<Rightarrow>
       let p = [(''source'', JStr ''sync_conflict''), (''trusted'', JBool False),
             (''review_state'', JStr REVIEW_PENDING), (''trust_origin'', JStr ''sync_untrusted''),
             (''conflict_of'', JStr (mem_id existing)), (''synced_from_device'', JStr node)];
           held = jget (metadata loser) ''quarantine'';
           m = jpops LOCAL_METADATA_FIELDS (metadata loser);
           m = (if held = JNull then m else jset ''quarantine'' held m);
           m = jset ''provenance'' (JObj p) (jset ''sync_conflict'' (JObj marker) m)
       in post_init (loser\<lparr>mem_id := cid, workspace_id := workspace_id existing,
            repo_id := repo_id existing, session_id := None, metadata := m, provenance := p,
            closure_observations := obs\<rparr>)) = Inr r"
      using assms unfolding conflict_record_def rbind_eq_Inr_conv split_def by blast
    then show thesis unfolding Let_def split_def by (rule that [OF _ refl])
  qed
  have same: "provenance r = p" using r by (auto simp: post_init_def rbind_eq_Inr_conv)
  show "mem_id r = cid" "workspace_id r = workspace_id existing" "repo_id r = repo_id existing"
    using r by (auto simp: post_init_def rbind_eq_Inr_conv)
  show "sane r" using post_init_wf [OF r] by (simp add: sane_def wf_record_def same p)
  show "inert L r" by (simp add: inert_def same p jget_def)
qed

lemma conflict_id_string: "conflict_memory_id p d = Inr cid \<Longrightarrow> cid \<noteq> []"
  by (auto simp: conflict_memory_id_def Let_def rbind_eq_Inr_conv)

lemma apart_conflict: "mint_apart E ids \<Longrightarrow> conflict_memory_id p d = Inr cid \<Longrightarrow> cid \<notin> range (e_mint E)"
  by (force simp: mint_apart_def)

text \<open>The cache after one write under its own identifier.\<close>

lemma inv_after_write:
  assumes "sync_inv E ids y" "\<And>i. get_memory s' i = (if i = k then Some r' else get_memory (y_store y) i)"
    and "store_ok s'" "mint_fresh E s'" "y_store y' = s'" "y_known y' = AList.update k r' (y_known y)" "k \<noteq> []"
  shows "sync_inv E ids y'"
proof -
  have inv: "\<And>j x. map_of (y_known y) j = Some x \<Longrightarrow> get_memory (y_store y) j = Some x"
    "\<And>j. j \<in> ids \<Longrightarrow> j \<noteq> [] \<Longrightarrow> map_of (y_known y) j = get_memory (y_store y) j"
    "map_of (y_known y) [] = None"
    using assms(1) unfolding sync_inv_def by blast+
  show ?thesis
    unfolding sync_inv_def using assms(3,4,7)
  proof (intro conjI allI ballI impI, simp_all add: update_conv' assms(2,5,6) split del: if_split, goal_cases)
    case 1
    then show ?case using inv(3) by simp
  next
    case (2 j x)
    then show ?case using inv(1) [of j x] by (cases "j = k") simp_all
  next
    case (3 j)
    then show ?case using inv(2) [of j] by (cases "j = k") simp_all
  qed
qed

text \<open>The successor keeps the invariant and stays within the allowed effect.\<close>

lemma known_or_stored_row:
  assumes "sync_inv E ids y" "e_allowed E = None"
  shows "known_or_stored E False y cid = Some x \<Longrightarrow> get_memory (y_store y) cid = Some x"
    and "known_or_stored E False y cid = None \<Longrightarrow> get_memory (y_store y) cid = None"
proof -
  have r: "read_memory E (y_store y) cid = get_memory (y_store y) cid"
    using assms(2) by (simp add: read_memory_def authorize_workspace_id_def split: option.split)
  have k: "\<And>j x. map_of (y_known y) j = Some x \<Longrightarrow> get_memory (y_store y) j = Some x"
    using assms(1) unfolding sync_inv_def by blast
  show "known_or_stored E False y cid = Some x \<Longrightarrow> get_memory (y_store y) cid = Some x"
    "known_or_stored E False y cid = None \<Longrightarrow> get_memory (y_store y) cid = None"
    using k [of cid] r by (auto simp: known_or_stored_def split: option.splits)
qed

lemma preserve_effect:
  assumes "preserve_hlc_conflict E False existing incoming y = Inr y'" "sync_inv E ids y"
    and "e_allowed E = None" "mint_apart E ids" "workspace_id existing = Some ws"
  shows "sync_inv E ids y' \<and> sync_effect E ws tombs (y_store y) (y_store y') \<and>
    keeps_guards (y_store y) (y_store y') \<and> y_accepted y' = y_accepted y \<and>
    y_report y' \<in> {y_report y, (y_report y)\<lparr>rp_conflicts := Suc (rp_conflicts (y_report y))\<rparr>}"
  using assms(1)
proof (cases rule: preserve_cases)
  case same
  then show ?thesis using assms(2) sync_effect_refl by (auto simp: keeps_guards_def)
next
  case (create p d cid loser marker preserved detail)
  obtain r' s1 s' where w: "sync_write E preserved (y_store y) = Inr (r', s1)"
    and au: "audit (e_lib E) ''sync'' ''sync_conflict_preserved'' cid detail s1 = Inr s'"
    and y': "y' = y\<lparr>y_store := s', y_known := AList.update cid r' (y_known y),
        y_report := (y_report y)\<lparr>rp_conflicts := Suc (rp_conflicts (y_report y))\<rparr>\<rparr>"
    using create(5) by (rule create_cases)
  note f = conflict_record_facts [OF create(4)]
  have inv: "store_ok (y_store y)" "mint_fresh E (y_store y)" "inj (e_mint E)"
    using assms(2,4) by (simp_all add: sync_inv_def mint_apart_def)
  have apart: "mem_id preserved \<notin> range (e_mint E)"
    using apart_conflict [OF assms(4) create(1)] by (simp add: f(1))
  have none: "get_memory (y_store y) cid = None" by (rule known_or_stored_row(2) [OF assms(2,3) create(2)])
  note g = sync_write_result [OF w inv apart f(4) f(5)]
  have id: "mem_id r' = cid" using g(14) none conflict_id_string [OF create(1)] by (simp add: f(1))
  have eff: "sync_effect E ws tombs (y_store y) s1"
    by (rule write_effect [OF w inv apart f(4) f(5)]) (use none create(1) assms(5) in \<open>auto simp: f(1,2)\<close>)
  have same: "get_memory s' i = get_memory s1 i" "st_minted s' = st_minted s1" for i
    using audit_get [OF au] audit_tables(4) [OF au] by simp_all
  have ok: "store_ok s'" "mint_fresh E s'"
    using audit_ok [OF au au au] g(1,2) same by (simp_all add: mint_fresh_def)
  have "sync_inv E ids y'"
    by (rule inv_after_write [OF assms(2) _ ok, of cid r']) (simp_all add: g(3) id same y' conflict_id_string [OF create(1)])
  moreover have "keeps_guards (y_store y) s'"
    using none by (auto simp: keeps_guards_def same g(3) id)
  moreover have "sync_effect E ws tombs (y_store y) s'"
    using eff by (simp add: sync_effect_def same)
  ultimately show ?thesis by (simp add: y')
next
  case (extend p d cid held preserved marker)
  have held: "get_memory (y_store y) cid = Some held"
    by (rule known_or_stored_row(1) [OF assms(2,3) extend(2)])
  show ?thesis
    using extend(3)
  proof (cases rule: extend_cases)
    case same
    then show ?thesis using assms(2) sync_effect_refl by (auto simp: keeps_guards_def)
  next
    case (stored vt vtr obs u r' s')
    have w: "sync_write E u (y_store y) = Inr (r', s')" using stored(4) by simp
    have inv: "store_ok (y_store y)" "mint_fresh E (y_store y)" "inj (e_mint E)"
      using assms(2,4) by (simp_all add: sync_inv_def mint_apart_def)
    have row: "row_ok held" "mem_id held = cid" using get_ok [OF inv(1) held] by simp_all
    have u: "mem_id u = cid" "workspace_id u = workspace_id held" "repo_id u = repo_id held"
      "provenance u = provenance held" "metadata u = metadata held" "scope u = scope held"
      "sensitivity u = sensitivity held"
      using stored(3) row(2) by (auto simp: post_init_def rbind_eq_Inr_conv)
    have sane: "sane u"
      using post_init_wf [OF stored(3)] row(1) by (simp add: sane_def wf_record_def row_ok_def envelope_ok_def u(4))
    have inert: "inert (e_lib E) u"
      using row(1) stored(2) by (simp add: inert_def row_ok_def envelope_ok_def u approved_row_def protected_row_def)
    have apart: "mem_id u \<notin> range (e_mint E)" using apart_conflict [OF assms(4) extend(1)] by (simp add: u(1))
    note g = sync_write_result [OF w inv apart sane inert]
    have id: "mem_id r' = cid" using g(14) held conflict_id_string [OF extend(1)] by (simp add: u)
    have eff: "sync_effect E ws tombs (y_store y) s'"
      by (rule write_effect [OF w inv apart sane inert])
        (use held stored(1,2) extend(1) conflict_id_string [OF extend(1)] in \<open>auto simp: u\<close>)
    have "sync_inv E ids y'"
      by (rule inv_after_write [OF assms(2) _ g(1,2), of cid r']) (simp_all add: g(3) id stored(5) conflict_id_string [OF extend(1)])
    moreover have "keeps_guards (y_store y) s'"
      using held by (auto simp: keeps_guards_def g(3) id g(6,8,9) u)
    ultimately show ?thesis using eff by (simp add: stored(5))
  qed
qed

section \<open>The row on its way to the store\<close>

definition same_identity :: "memory_record \<Rightarrow> memory_record \<Rightarrow> bool" where
  "same_identity a b \<longleftrightarrow>
     mem_id a = mem_id b \<and> workspace_id a = workspace_id b \<and> repo_id a = repo_id b \<and> scope a = scope b \<and>
     confidence a = confidence b \<and> modified_hlc a = modified_hlc b"

definition enveloped :: "memory_record \<Rightarrow> bool" where
  "enveloped r \<longleftrightarrow>
     distinct (map fst (provenance r)) \<and> jget (metadata r) ''provenance'' = JObj (provenance r)"

lemma quarantine_envelope:
  assumes "jget m ''provenance'' = JObj p" "distinct (map fst p)" "quarantined d"
  defines "p' \<equiv> as_obj (jget (apply_quarantine_metadata m d) ''provenance'')"
  shows "jget (apply_quarantine_metadata m d) ''provenance'' = JObj p'" "distinct (map fst p')"
    "jget p' ''trusted'' = JBool False"
  using assms(1-3) unfolding p'_def
  by (simp_all add: apply_quarantine_metadata_def Let_def jget_jset jget_jupdate distinct_jupdate)

lemma peer_provenance_facts:
  assumes "peer_provenance r parent device = Inr p"
  shows "distinct (map fst p)" "jget p ''trusted'' = JBool False"
  using assms by (auto simp: peer_provenance_def Let_def rbind_eq_Inr_conv jget_def split: option.splits if_splits)

lemma screen_facts:
  assumes "jget m ''provenance'' = JObj p" "distinct (map fst p)" "jget p ''trusted'' = JBool False"
  shows "same_identity r (screen_row L m r)" "enveloped (screen_row L m r)"
    "jget (provenance (screen_row L m r)) ''trusted'' = JBool False"
proof -
  define d where "d = assess_untrusted_payload (content r) (title r) (JObj m)"
  show "same_identity r (screen_row L m r)" "enveloped (screen_row L m r)"
    "jget (provenance (screen_row L m r)) ''trusted'' = JBool False"
    using assms quarantine_envelope [OF assms(1,2), of d]
    unfolding screen_row_def d_def [symmetric] Let_def
    by (simp_all add: same_identity_def enveloped_def)
qed

lemma rehome_facts:
  assumes "rehome_external_record L device r = Inr r'"
  shows "same_identity r r'" "enveloped r'" "jget (provenance r') ''trusted'' = JBool False"
proof -
  obtain dev p where p: "peer_provenance r (conflict_parent L r) dev = Inr p"
    and r': "r' = screen_row L (ingress_metadata L dev r p) r"
    using assms unfolding rehome_external_record_def Let_def rbind_eq_Inr_conv by auto
  have "jget (ingress_metadata L dev r p) ''provenance'' = JObj p"
    by (simp add: ingress_metadata_def Let_def jget_jset)
  from screen_facts [OF this peer_provenance_facts [OF p]]
  show "same_identity r r'" "enveloped r'" "jget (provenance r') ''trusted'' = JBool False"
    unfolding r' by blast+
qed

lemma inherit_quarantine_facts:
  assumes "enveloped r"
  shows "same_identity r (inherit_quarantine L x r)" "enveloped (inherit_quarantine L x r)"
    and "inherit_quarantine L x r = r \<or> jget (provenance (inherit_quarantine L x r)) ''trusted'' = JBool False"
proof -
  have e: "jget (metadata r) ''provenance'' = JObj (provenance r)" "distinct (map fst (provenance r))"
    using assms by (simp_all add: enveloped_def)
  define d where "d = \<lparr>quarantined = True, policy = POLICY_VERSION,
    reasons = rev (remdups (rev (prior_reasons x @ [''inherited_quarantine''])))\<rparr>"
  have q: "quarantined d" by (simp add: d_def)
  note f = quarantine_envelope [OF e q]
  show "same_identity r (inherit_quarantine L x r)" "enveloped (inherit_quarantine L x r)"
    "inherit_quarantine L x r = r \<or> jget (provenance (inherit_quarantine L x r)) ''trusted'' = JBool False"
    using assms f
    unfolding inherit_quarantine_def d_def [symmetric] Let_def
    by (simp_all add: same_identity_def enveloped_def)
qed

text \<open>The row sync decides about: its identity, and an envelope no write makes approved.\<close>

lemma local_envelope_facts:
  assumes "local_envelope L device d existing r = Inr r'"
    and "\<forall>x. existing = Some x \<longrightarrow> row_ok x \<and> \<not> approved_row L x"
  shows "same_identity r r'" "enveloped r'" "inert L r'"
proof -
  have x: "same_identity r r' \<and> enveloped r' \<and> inert L r'"
  proof (cases existing)
    case None
    then have "rehome_external_record L device r = Inr r'" using assms(1) by (simp add: local_envelope_def)
    from rehome_facts [OF this] show ?thesis by (simp add: inert_def)
  next
    case (Some x)
    have ok: "envelope_ok x" "\<not> approved_row L x" using assms(2) Some by (simp_all add: row_ok_def)
    obtain r1 where r1: "(if \<not> jhas d ''metadata'' \<and> \<not> jhas d ''provenance'' \<and> same_sync_payload x r
                 then Inr (r\<lparr>metadata := metadata x, provenance := provenance x\<rparr>)
                 else rehome_external_record L device r) = Inr r1" and r': "r' = inherit_quarantine L x r1"
      using assms(1) unfolding Some local_envelope_def option.case rbind_eq_Inr_conv by blast
    have 1: "same_identity r r1 \<and> enveloped r1 \<and>
      (jget (provenance r1) ''trusted'' = JBool False \<or> envelope_ok r1 \<and> \<not> approved_row L r1)"
    proof (cases "\<not> jhas d ''metadata'' \<and> \<not> jhas d ''provenance'' \<and> same_sync_payload x r")
      case True
      then have "r1 = r\<lparr>metadata := metadata x, provenance := provenance x\<rparr>" using r1 by simp
      then show ?thesis
        using ok by (simp add: same_identity_def enveloped_def envelope_ok_def approved_row_def)
    next
      case False
      then have "rehome_external_record L device r = Inr r1" using r1 by (simp split: if_splits)
      from rehome_facts [OF this] show ?thesis by simp
    qed
    then have e: "enveloped r1" by simp
    have "same_identity r r'"
      using 1 inherit_quarantine_facts(1) [OF e, of L x] by (simp add: r' same_identity_def)
    moreover have "inert L r'"
      using 1 inherit_quarantine_facts(3) [OF e, of L x] by (auto simp: r' inert_def)
    ultimately show ?thesis using inherit_quarantine_facts(2) [OF e, of L x] by (simp add: r')
  qed
  then show "same_identity r r'" "enveloped r'" "inert L r'" by simp_all
qed

lemma inherit_omitted_facts: "inherit_omitted d x r = Inr r' \<Longrightarrow> same_identity r r'"
  by (auto simp: inherit_omitted_def Let_def rbind_eq_Inr_conv same_identity_def split: if_splits)

lemma defaults_facts: "initialize_sync_store_defaults r = Inr r' \<Longrightarrow> same_identity r r'"
  by (auto simp: initialize_sync_store_defaults_def rbind_eq_Inr_conv same_identity_def)

lemma same_identity_trans: "same_identity a b \<Longrightarrow> same_identity b c \<Longrightarrow> same_identity a c"
  by (simp add: same_identity_def)

definition in_ok :: "memory_record \<Rightarrow> bool" where
  "in_ok r \<longleftrightarrow> normalize_modified_hlc True (modified_hlc r) = Inr (modified_hlc r) \<and>
     0 \<le> confidence r \<and> confidence r \<le> 1"

lemma in_ok_same: "same_identity a b \<Longrightarrow> in_ok a \<Longrightarrow> in_ok b"
  by (simp add: same_identity_def in_ok_def)

text \<open>The join: its outcome is the row or the merge with the local one, both as harmless.\<close>

lemma join_row_facts:
  assumes "join_row E X existing r y = Inr (Joined r1 m y1)" "x_dry X = False"
    and "in_ok r" "enveloped r" "inert (e_lib E) r"
    and "\<forall>x. existing = Some x \<longrightarrow> row_ok x \<and> \<not> approved_row (e_lib E) x"
  shows "same_identity r r1" "sane m" "inert (e_lib E) m"
    and "existing = None \<Longrightarrow> m = r1 \<and> y1 = y"
    and "existing = Some x \<Longrightarrow> mem_id m = mem_id x \<and> workspace_id m = workspace_id x \<and> repo_id m = repo_id x \<and>
      preserve_hlc_conflict E False x r1 y = Inr y1"
proof -
  obtain obs where obs: "record_closure_observations r = Inr obs" and
    run: "rbind (case existing of None \<Rightarrow> Inr (r\<lparr>closure_observations := obs\<rparr>)
        | Some x \<Rightarrow> merge_record (e_lib E) x (r\<lparr>closure_observations := obs\<rparr>)) (\<lambda>m.
        if peer_closure_budget_exceeded (closure_observations m) existing then Inr Over_budget
        else rbind (has_valid_closure_interval m) (\<lambda>valid.
          if \<not> valid then Inr Bad_interval
          else rbind (case existing of None \<Rightarrow> Inr y
              | Some x \<Rightarrow> preserve_hlc_conflict E (x_dry X) x (r\<lparr>closure_observations := obs\<rparr>) y)
                 (\<lambda>y. Inr (Joined (r\<lparr>closure_observations := obs\<rparr>) m y)))) = Inr (Joined r1 m y1)"
    using assms(1) unfolding join_row_def rbind_eq_Inr_conv [of "record_closure_observations _"] Let_def by blast
  let ?r = "r\<lparr>closure_observations := obs\<rparr>"
  obtain m' where m': "(case existing of None \<Rightarrow> Inr ?r | Some x \<Rightarrow> merge_record (e_lib E) x ?r) = Inr m'"
    and rest: "(if peer_closure_budget_exceeded (closure_observations m') existing then Inr Over_budget
        else rbind (has_valid_closure_interval m') (\<lambda>valid.
          if \<not> valid then Inr Bad_interval
          else rbind (case existing of None \<Rightarrow> Inr y | Some x \<Rightarrow> preserve_hlc_conflict E (x_dry X) x ?r y)
                 (\<lambda>y. Inr (Joined ?r m' y)))) = Inr (Joined r1 m y1)"
    using run unfolding rbind_eq_Inr_conv [of "case existing of None \<Rightarrow> _ | Some x \<Rightarrow> _ x"] by blast
  obtain y2 where "(case existing of None \<Rightarrow> Inr y | Some x \<Rightarrow> preserve_hlc_conflict E (x_dry X) x ?r y) = Inr y2"
    and j: "Joined ?r m' y2 = Joined r1 m y1"
    using rest by (auto simp: rbind_eq_Inr_conv split: if_splits)
  then have p: "(case existing of None \<Rightarrow> Inr y | Some x \<Rightarrow> preserve_hlc_conflict E False x ?r y) = Inr y1"
    and e: "r1 = ?r" "m = m'" using assms(2) by (auto split: option.split)
  show "same_identity r r1" by (simp add: e same_identity_def)
  show "existing = None \<Longrightarrow> m = r1 \<and> y1 = y" using p m' e by simp
  have inert1: "inert (e_lib E) r1" "enveloped r1" "in_ok r1"
    using assms(3-5) by (simp_all add: e(1) inert_def enveloped_def in_ok_def envelope_ok_def approved_row_def)
  have merged: "mem_id m = mem_id x \<and> workspace_id m = workspace_id x \<and> repo_id m = repo_id x \<and> sane m \<and>
      inert (e_lib E) m" if x: "existing = Some x" for x
  proof -
    have xok: "row_ok x" "\<not> approved_row (e_lib E) x" using assms(6) x by simp_all
    have wfx: "wf_record x" using xok by (simp add: row_ok_def)
    have wfr: "wf_record ?r"
      using normalize_Inr [OF obs [unfolded record_closure_observations_def]] assms(3)
      by (auto simp: wf_record_def in_ok_def obs_set_def)
    have "merge_record (e_lib E) x ?r = Inr m" using m' x e(2) by simp
    then obtain os where m: "canonical os" "m = merged (e_lib E) x ?r os"
      unfolding merge_record_Inr [OF wfx wfr] by blast
    have "wf_record m" unfolding m(2) by (rule merged_wf [OF wfx wfr m(1)])
    moreover have pm: "(provenance m = provenance x \<and> metadata m = metadata x) \<or>
        (provenance m = provenance r \<and> metadata m = metadata r)"
      by (simp add: m(2) merged_def winner_def)
    moreover have "distinct (map fst (provenance x))" using xok by (simp add: row_ok_def envelope_ok_def)
    ultimately have "sane m" using assms(4) by (auto simp: sane_def wf_record_def enveloped_def)
    moreover have "inert (e_lib E) m"
      using pm xok assms(5) by (auto simp: inert_def row_ok_def envelope_ok_def approved_row_def)
    ultimately show ?thesis by (simp add: m(2) merged_def)
  qed
  have "sane m \<and> inert (e_lib E) m"
  proof (cases existing)
    case None
    then have "m = r1" using m' e by simp
    then show ?thesis using inert1 by (simp add: sane_def enveloped_def in_ok_def)
  next
    case (Some x)
    then show ?thesis using merged by blast
  qed
  then show "sane m" "inert (e_lib E) m" by simp_all
  show "existing = Some x \<Longrightarrow> mem_id m = mem_id x \<and> workspace_id m = workspace_id x \<and> repo_id m = repo_id x \<and>
      preserve_hlc_conflict E False x r1 y = Inr y1" using merged p e(1) by auto
qed

section \<open>One row of a bundle\<close>

text \<open>The outcome of a step: the invariant, and the effect on the store.\<close>

definition step_ok :: "store_env \<Rightarrow> string set \<Rightarrow> string \<Rightarrow> live_tombs \<Rightarrow> sync_state \<Rightarrow> sync_state \<Rightarrow> bool" where
  "step_ok E ids ws tombs y y' \<longleftrightarrow> sync_inv E ids y' \<and> sync_effect E ws tombs (y_store y) (y_store y')"

lemma sync_inv_cong:
  assumes "sync_inv E ids y1" "\<And>i. get_memory (y_store y2) i = get_memory (y_store y1) i"
    and "st_minted (y_store y2) = st_minted (y_store y1)" "store_ok (y_store y2) = store_ok (y_store y1)"
    and "y_known y2 = y_known y1"
  shows "sync_inv E ids y2"
  using assms(1) unfolding sync_inv_def mint_fresh_def assms(2-5) .

lemma step_ok_report:
  assumes "sync_inv E ids y" "y_store y' = y_store y" "y_known y' = y_known y"
  shows "step_ok E ids ws tombs y y'"
proof -
  have "sync_inv E ids y'" by (rule sync_inv_cong [OF assms(1)]) (simp_all add: assms(2,3))
  then show ?thesis by (simp add: step_ok_def assms(2) sync_effect_refl)
qed

lemma step_ok_rejected: "sync_inv E ids y \<Longrightarrow> step_ok E ids ws tombs y (rejected y)"
  by (rule step_ok_report) (simp_all add: rejected_def)

text \<open>An audit entry and bookkeeping after a step change no row.\<close>

lemma step_ok_audit:
  assumes "step_ok E ids ws tombs y y1" "\<And>i. get_memory (y_store y2) i = get_memory (y_store y1) i"
    and "st_minted (y_store y2) = st_minted (y_store y1)" "store_ok (y_store y2) = store_ok (y_store y1)"
    and "y_known y2 = y_known y1"
  shows "step_ok E ids ws tombs y y2"
proof -
  have inv: "sync_inv E ids y1" using assms(1) by (simp add: step_ok_def)
  have "sync_inv E ids y2" by (rule sync_inv_cong [OF inv assms(2-5)])
  then show ?thesis using assms(1) by (simp add: step_ok_def sync_effect_def assms(2))
qed

lemma audit_step:
  assumes "audit L actor action target detail s = Inr s'"
  shows "get_memory s' i = get_memory s i" "st_minted s' = st_minted s" "store_ok s' = store_ok s"
  using audit_get [OF assms] audit_tables(4) [OF assms] audit_ok [OF assms assms assms] by simp_all

text \<open>A write of sync and the audit entries that follow it.\<close>

lemma step_ok_write:
  assumes "sync_write E r (y_store y) = Inr (r', s1)" "sync_inv E ids y" "mint_apart E ids"
    and "mem_id r \<in> ids" "sane r" "inert (e_lib E) r" "workspace_id r = Some ws"
    and "\<And>x. mem_id r \<noteq> [] \<Longrightarrow> get_memory (y_store y) (mem_id r) = Some x \<Longrightarrow>
      \<not> protected_row (e_lib E) x \<and> workspace_id x = Some ws"
    and "\<not> tombstoned tombs (mem_id r) (repo_id r)"
    and "\<And>i. get_memory s2 i = get_memory s1 i" "st_minted s2 = st_minted s1" "store_ok s2 = store_ok s1"
    and "y_store y' = s2" "y_known y' = AList.update (mem_id r') r' (y_known y)"
  shows "step_ok E ids ws tombs y y'" "mem_id r \<noteq> [] \<Longrightarrow> mem_id r' = mem_id r"
proof -
  have inv: "store_ok (y_store y)" "mint_fresh E (y_store y)" "inj (e_mint E)"
    using assms(2,3) by (simp_all add: sync_inv_def mint_apart_def)
  have apart: "mem_id r \<notin> range (e_mint E)" using assms(3,4) by (auto simp: mint_apart_def)
  note g = sync_write_result [OF assms(1) inv apart assms(5,6)]
  show "mem_id r \<noteq> [] \<Longrightarrow> mem_id r' = mem_id r" using g(14) assms(7,8) by auto
  have eff: "sync_effect E ws tombs (y_store y) s1"
    by (rule write_effect [OF assms(1) inv apart assms(5,6)]) (use assms(7,8,9) in auto)
  have ok: "store_ok s2" "mint_fresh E s2" using g(1,2) assms(10-12) by (simp_all add: mint_fresh_def)
  have "sync_inv E ids y'"
    by (rule inv_after_write [OF assms(2) _ ok assms(13,14) g(15)]) (simp add: assms(10) g(3))
  then show "step_ok E ids ws tombs y y'"
    using eff by (simp add: step_ok_def sync_effect_def assms(10,13))
qed

lemma known_row:
  assumes "sync_inv E ids y" "map_of (y_known y) k = Some x"
  shows "get_memory (y_store y) k = Some x" "row_ok x" "mem_id x = k"
proof -
  show g: "get_memory (y_store y) k = Some x" using assms unfolding sync_inv_def by blast
  have "store_ok (y_store y)" using assms(1) by (simp add: sync_inv_def)
  then show "row_ok x" "mem_id x = k" using get_ok [OF _ g] by simp_all
qed

lemma unknown_row:
  assumes "sync_inv E ids y" "map_of (y_known y) k = None" "k \<in> ids" "k \<noteq> []"
  shows "get_memory (y_store y) k = None"
  using assms unfolding sync_inv_def by metis

lemma persist_new_cases:
  assumes "persist_new E device r s = Inr q"
  obtains s1 where "sync_write E r s = Inr (fst q, s1)" "\<And>i. get_memory (snd q) i = get_memory s1 i"
    "st_minted (snd q) = st_minted s1" "store_ok (snd q) = store_ok s1" "st_tombs (snd q) = st_tombs s1"
proof -
  obtain w s2 s3 b actor target detail where w: "sync_write E r s = Inr w"
    and a: "audit (e_lib E) (peer_actor (e_lib E) device) ''sync_add'' (mem_id (fst w)) detail (snd w) = Inr s2"
    and c: "(if b then audit (e_lib E) actor ''sync_quarantine'' target
                   ''synced record quarantined by deterministic policy'' s2 else Inr s2) = Inr s3"
    and q: "Inr (fst w, s3) = (Inr q :: (memory_record \<times> store) result)"
    using assms unfolding persist_new_def rbind_eq_Inr_conv split_def by blast
  have q': "fst q = fst w" "snd q = s3" using q by auto
  have "get_memory s3 i = get_memory s2 i \<and> st_minted s3 = st_minted s2 \<and> store_ok s3 = store_ok s2 \<and>
      st_tombs s3 = st_tombs s2" for i
    using c audit_step audit_tables(6) by (cases b) auto
  then show thesis
    using that [of "snd w"] w audit_step [OF a] audit_tables(6) [OF a] by (simp add: q')
qed

lemma add_row_ok:
  assumes "add_row E X r y = Inr y'" "x_dry X = False" "sync_inv E ids y" "mint_apart E ids"
    and "mem_id r \<in> ids" "sane r" "inert (e_lib E) r" "workspace_id r = Some ws"
    and "map_of (y_known y) (mem_id r) = None" "\<not> tombstoned tombs (mem_id r) (repo_id r)"
  shows "step_ok E ids ws tombs y y'"
proof -
  obtain q where p: "persist_new E (x_device X) r (y_store y) = Inr q"
    and y': "y' = y\<lparr>y_store := snd q, y_known := AList.update (mem_id (fst q)) (fst q) (y_known y),
            y_accepted := AList.update (mem_id (fst q)) (fst q) (y_accepted y),
            y_report := (y_report y)\<lparr>rp_added := Suc (rp_added (y_report y))\<rparr>\<rparr>"
    using assms(1) unfolding add_row_def assms(2) if_False rbind_eq_Inr_conv split_def by auto
  obtain s1 where w: "sync_write E r (y_store y) = Inr (fst q, s1)"
    and s3: "\<And>i. get_memory (snd q) i = get_memory s1 i" "st_minted (snd q) = st_minted s1"
      "store_ok (snd q) = store_ok s1"
    using persist_new_cases [OF p] by metis
  have none: "mem_id r \<noteq> [] \<Longrightarrow> get_memory (y_store y) (mem_id r) = None"
    by (rule unknown_row [OF assms(3,9,5)])
  show ?thesis
    by (rule step_ok_write(1) [OF w assms(3-8) _ assms(10) s3]) (simp_all add: none y')
qed

lemma update_row_ok:
  assumes "update_row E X x m mid y = Inr y'" "x_dry X = False" "sync_inv E ids y" "mint_apart E ids"
    and "mid \<in> ids" "mid \<noteq> []" "mem_id m = mid" "sane m" "inert (e_lib E) m" "workspace_id m = Some ws"
    and "get_memory (y_store y) mid = Some x1" "\<not> protected_row (e_lib E) x1" "workspace_id x1 = Some ws"
    and "\<not> tombstoned tombs mid (repo_id m)"
  shows "step_ok E ids ws tombs y y'"
proof -
  obtain new old :: string where run: "(if new = old
       then Inr (y\<lparr>y_accepted := AList.update mid x (y_accepted y), y_report := count_unchanged (y_report y)\<rparr>)
       else
         rbind (if x_dry X then Inr (m, y_store y)
                else rbind (sync_write E m (y_store y)) (\<lambda>(m, s).
                  rbind (audit (e_lib E) (peer_actor (e_lib E) (x_device X)) ''sync_overwrite'' (mem_id m)
                    ''content replaced by synced bundle (last-writer-wins)'' s) (\<lambda>s. Inr (m, s)))) (\<lambda>(m, s).
         Inr (y\<lparr>y_store := s, y_known := AList.update mid m (y_known y),
                y_accepted := AList.update mid m (y_accepted y),
                y_report := (y_report y)\<lparr>rp_updated := Suc (rp_updated (y_report y))\<rparr>\<rparr>))) = Inr y'"
    using assms(1) unfolding update_row_def rbind_eq_Inr_conv [of "signature _ _"] by blast
  show ?thesis
  proof (cases "new = old")
    case True
    then show ?thesis using run step_ok_report [OF assms(3)] by auto
  next
    case False
    obtain r' s1 s2 where w: "sync_write E m (y_store y) = Inr (r', s1)"
      and a: "audit (e_lib E) (peer_actor (e_lib E) (x_device X)) ''sync_overwrite'' (mem_id r')
              ''content replaced by synced bundle (last-writer-wins)'' s1 = Inr s2"
      and y': "y' = y\<lparr>y_store := s2, y_known := AList.update mid r' (y_known y),
                y_accepted := AList.update mid r' (y_accepted y),
                y_report := (y_report y)\<lparr>rp_updated := Suc (rp_updated (y_report y))\<rparr>\<rparr>"
      using run unfolding if_not_P [OF False] assms(2) if_False rbind_eq_Inr_conv split_def by auto
    have guard: "\<not> protected_row (e_lib E) z \<and> workspace_id z = Some ws"
      if "get_memory (y_store y) (mem_id m) = Some z" for z
      using that assms(7,11-13) by simp
    have sets: "mem_id m \<in> ids" "\<not> tombstoned tombs (mem_id m) (repo_id m)" using assms by simp_all
    have id: "mem_id r' = mid"
      using sync_write_keeps_id [OF w] assms(6,7,10,11,13) by simp
    show ?thesis
      by (rule step_ok_write(1) [OF w assms(3,4) sets(1) assms(8-10) _ sets(2) audit_step [OF a]])
        (simp_all add: y' id guard)
  qed
qed

lemma approved_ok:
  assumes "apply_to_approved E X x r y = Inr y'" "x_dry X = False" "sync_inv E ids y" "e_allowed E = None"
    and "mint_apart E ids" "workspace_id x = Some ws"
  shows "step_ok E ids ws tombs y y'"
proof -
  obtain r' z where o: "reject_value_errors y (preserve_hlc_conflict E (x_dry X) x r' y) = Inr z"
    and run: "(case z of Inl y \<Rightarrow> Inr y
     | Inr y \<Rightarrow>
         rbind (if \<not> x_dry X \<and> content r \<noteq> content x
                then audit (e_lib E) (peer_actor (e_lib E) (x_device X)) ''sync_trust_conflict'' (mem_id x)
                       ''peer content ignored because local record is explicitly trusted'' (y_store y)
                else Inr (y_store y)) (\<lambda>s.
         Inr (y\<lparr>y_store := s, y_accepted := AList.update (mem_id r) x (y_accepted y),
                y_report := count_unchanged (y_report y)\<rparr>))) = Inr y'"
    using assms(1) unfolding apply_to_approved_def rbind_eq_Inr_conv [of "rehome_external_record _ _ _"]
      rbind_eq_Inr_conv [of "reject_value_errors _ _"] by blast
  show ?thesis
  proof (cases z)
    case (Inl y1)
    then have "y' = rejected y"
      using o run by (auto simp: reject_value_errors_def split: sum.splits if_splits)
    then show ?thesis using step_ok_rejected [OF assms(3)] by simp
  next
    case (Inr y1)
    then have p: "preserve_hlc_conflict E False x r' y = Inr y1"
      using o assms(2) by (auto simp: reject_value_errors_def split: sum.splits if_splits)
    have s1: "step_ok E ids ws tombs y y1"
      using preserve_effect [OF p assms(3,4,5,6), of tombs] by (simp add: step_ok_def)
    obtain b actor target detail s2 where
      a: "(if b then audit (e_lib E) actor ''sync_trust_conflict'' target detail (y_store y1) else Inr (y_store y1)) = Inr s2"
      and y': "y_store y' = s2" "y_known y' = y_known y1"
      using run unfolding Inr sum.case rbind_eq_Inr_conv by (auto simp del: if_split_asm)
    show ?thesis
      by (rule step_ok_audit [OF s1]) (use a audit_step in \<open>cases b; auto simp: y'\<close>)+
  qed
qed

lemma rescope_facts:
  assumes "rescope X tombs d r = Some r'"
  shows "mem_id r' = mem_id r" "workspace_id r' = Some (x_workspace X)" "in_ok r \<Longrightarrow> in_ok r'"
    and "\<not> tombstoned tombs (mem_id r') (repo_id r')"
  using assms by (auto simp: rescope_def in_ok_def split: option.splits if_splits)

lemma apply_one_ok:
  assumes "apply_one E X tombs d row y = Inr y'" "x_dry X = False" "sync_inv E ids y" "e_allowed E = None"
    and "mint_apart E ids" "\<And>r. row = Some r \<Longrightarrow> mem_id r \<in> ids \<and> in_ok r"
  shows "step_ok E ids (x_workspace X) tombs y y'"
proof (cases "y' = rejected y")
  case True
  then show ?thesis using step_ok_rejected [OF assms(3)] by simp
next
  case False
  then obtain r0 r1 r2 where r0: "row = Some r0" and r1: "rescope X tombs d r0 = Some r1"
    and r2: "initialize_sync_store_defaults r1 = Inr r2"
    using assms(1) by (auto simp: apply_one_def rbind_eq_Inr_conv split: option.splits)
  define existing where "existing = map_of (y_known y) (mem_id r2)"
  have guard: "mergeable X x r2" if "existing = Some x" for x
    using assms(1) False that by (auto simp: apply_one_def r0 r1 r2 existing_def Let_def split: if_splits)
  obtain r3 where r3: "(case existing of None \<Rightarrow> Inr r2 | Some x \<Rightarrow> inherit_omitted d x r2) = Inr r3"
    and run: "(if (case existing of None \<Rightarrow> False | Some x \<Rightarrow> provenance_is_approved (e_lib E) (JObj (provenance x)))
               then apply_to_approved E X (the existing) r3 y
               else
                 rbind (local_envelope (e_lib E) (x_device X) d existing r3) (\<lambda>r.
                 case join_row E X existing r y of
                   Inl e \<Rightarrow> if e \<in> value_errors then Inr (rejected y) else Inl e
                 | Inr Over_budget \<Rightarrow>
                     Inr (rejected (y\<lparr>y_report := (y_report y)\<lparr>rp_budget := Suc (rp_budget (y_report y))\<rparr>\<rparr>))
                 | Inr Bad_interval \<Rightarrow> Inr (rejected y)
                 | Inr (Joined r m y) \<Rightarrow>
                     (case existing of None \<Rightarrow> add_row E X r y
                      | Some x \<Rightarrow> update_row E X x m (mem_id r) y))) = Inr y'"
  proof -
    have g: "\<not> (case existing of None \<Rightarrow> False | Some x \<Rightarrow> \<not> mergeable X x r2)"
      using guard by (cases existing) simp_all
    show thesis
      using assms(1) unfolding apply_one_def r0 r1 option.case r2 rbind_simps Let_def existing_def [symmetric]
        if_not_P [OF g] rbind_eq_Inr_conv [of "case existing of None \<Rightarrow> _ | Some x \<Rightarrow> _ x"]
      using that by blast
  qed
  have id3: "same_identity r1 r3"
    using defaults_facts [OF r2] r3 inherit_omitted_facts same_identity_trans
    by (cases existing) (auto simp: same_identity_def)
  note f1 = rescope_facts [OF r1]
  have in0: "mem_id r0 \<in> ids" "in_ok r0" using assms(6) [OF r0] by simp_all
  have in3: "mem_id r3 \<in> ids" "in_ok r3" "workspace_id r3 = Some (x_workspace X)"
    "\<not> tombstoned tombs (mem_id r3) (repo_id r3)" "mem_id r3 = mem_id r2" "repo_id r3 = repo_id r2"
    "workspace_id r2 = workspace_id r3" "scope r2 = scope r3"
    using f1 in0 id3 in_ok_same [OF id3] defaults_facts [OF r2] by (auto simp: same_identity_def)
  have ex: "get_memory (y_store y) (mem_id r2) = Some x" "row_ok x" "mem_id x = mem_id r2"
    "workspace_id x = Some (x_workspace X)" "sensitivity x \<noteq> ''secret''" "scope x \<noteq> SESSION"
    "repo_id x = repo_id r2" if "existing = Some x" for x
    using known_row [OF assms(3), of "mem_id r2" x] guard [OF that] that by (auto simp: existing_def mergeable_def)
  show ?thesis
  proof (cases "case existing of None \<Rightarrow> False | Some x \<Rightarrow> provenance_is_approved (e_lib E) (JObj (provenance x))")
    case True
    then obtain x where x: "existing = Some x" by (cases existing) auto
    show ?thesis
      by (rule approved_ok [OF _ assms(2-5) ex(4) [OF x]]) (use run True x in auto)
  next
    case na: False
    have un: "\<forall>x. existing = Some x \<longrightarrow> row_ok x \<and> \<not> approved_row (e_lib E) x"
      using na ex(2) by (auto simp: approved_row_def)
    obtain r4 where r4: "local_envelope (e_lib E) (x_device X) d existing r3 = Inr r4"
      and run: "(case join_row E X existing r4 y of
                   Inl e \<Rightarrow> if e \<in> value_errors then Inr (rejected y) else Inl e
                 | Inr Over_budget \<Rightarrow>
                     Inr (rejected (y\<lparr>y_report := (y_report y)\<lparr>rp_budget := Suc (rp_budget (y_report y))\<rparr>\<rparr>))
                 | Inr Bad_interval \<Rightarrow> Inr (rejected y)
                 | Inr (Joined r m y) \<Rightarrow>
                     (case existing of None \<Rightarrow> add_row E X r y
                      | Some x \<Rightarrow> update_row E X x m (mem_id r) y)) = Inr y'"
      using run unfolding if_not_P [OF na] rbind_eq_Inr_conv [of "local_envelope _ _ _ _ _"] by blast
    note f4 = local_envelope_facts [OF r4 un]
    have i4: "in_ok r4" using in_ok_same [OF f4(1) in3(2)] .
    show ?thesis
    proof (cases "join_row E X existing r4 y")
      case (Inl e)
      then show ?thesis using run False by (simp split: if_splits)
    next
      case (Inr o1)
      show ?thesis
      proof (cases o1)
        case Over_budget
        then have "y' = rejected (y\<lparr>y_report := (y_report y)\<lparr>rp_budget := Suc (rp_budget (y_report y))\<rparr>\<rparr>)"
          using run Inr by simp
        then show ?thesis by (intro step_ok_report [OF assms(3)]) (simp_all add: rejected_def)
      next
        case Bad_interval
        then show ?thesis using run Inr False by simp
      next
        case (Joined r5 m y1)
        have j: "join_row E X existing r4 y = Inr (Joined r5 m y1)" using Inr Joined by simp
        have run: "(case existing of None \<Rightarrow> add_row E X r5 y1 | Some x \<Rightarrow> update_row E X x m (mem_id r5) y1) = Inr y'"
          using run j by simp
        note f5 = join_row_facts [OF j assms(2) i4 f4(2,3) un]
        have id5: "mem_id r5 = mem_id r2" "workspace_id r5 = Some (x_workspace X)" "repo_id r5 = repo_id r2"
          using f5(1) f4(1) in3 by (auto simp: same_identity_def)
        have t: "\<not> tombstoned tombs (mem_id r2) (repo_id r2)" "mem_id r2 \<in> ids" using in3 by simp_all
        show ?thesis
        proof (cases existing)
          case None
          then have m: "m = r5" "y1 = y" using f5(4) by simp_all
          show ?thesis
            by (rule add_row_ok [OF _ assms(2,3,5), of r5])
              (use run None m f5(2,3) id5 t in \<open>auto simp: existing_def\<close>)
        next
          case (Some x)
          note f6 = f5(5) [OF Some]
          have p: "preserve_hlc_conflict E False x r5 y = Inr y1" using f6 by simp
          note q = preserve_effect [OF p assms(3,4,5) ex(4) [OF Some], of tombs]
          have inv1: "sync_inv E ids y1" and eff1: "sync_effect E (x_workspace X) tombs (y_store y) (y_store y1)"
            and keep1: "keeps_guards (y_store y) (y_store y1)" using q by simp_all
          obtain x1 where x1: "get_memory (y_store y1) (mem_id r2) = Some x1" "sensitivity x1 = sensitivity x"
            "scope x1 = scope x" "workspace_id x1 = workspace_id x"
            using keep1 ex(1) [OF Some] unfolding keeps_guards_def by blast
          have "\<not> approved_row (e_lib E) x1"
            using eff1 x1(1) ex(1) [OF Some] un Some
            by (auto simp: sync_effect_def row_effect_def dest!: spec [of _ "mem_id r2"])
          then have np: "\<not> protected_row (e_lib E) x1"
            using x1 ex(5,6) [OF Some] by (simp add: protected_row_def approved_row_def)
          have ws1: "workspace_id x1 = Some (x_workspace X)" using x1(4) ex(4) [OF Some] by simp
          have ne: "mem_id r2 \<noteq> []"
            using assms(3) Some by (auto simp: sync_inv_def existing_def)
          have m: "mem_id m = mem_id r2" "workspace_id m = Some (x_workspace X)" "repo_id m = repo_id r2"
            using f6 ex(3,4,7) [OF Some] by simp_all
          have u: "update_row E X x m (mem_id r2) y1 = Inr y'" using run Some id5(1) by simp
          have "\<not> tombstoned tombs (mem_id r2) (repo_id m)" using t(1) m(3) by simp
          then have "step_ok E ids (x_workspace X) tombs y1 y'"
            by (rule update_row_ok [OF u assms(2) inv1 assms(5) t(2) ne m(1) f5(2,3) m(2) x1(1) np ws1])
          then show ?thesis using eff1 sync_effect_trans unfolding step_ok_def by blast
        qed
      qed
    qed
  qed
qed

section \<open>Batches\<close>

lemma dict_to_record_wf: "dict_to_record L v = Inr (Some r) \<Longrightarrow> wf_record r"
  by (auto simp: dict_to_record_def Let_def rbind_eq_Inr_conv dest!: post_init_wf
      split: if_splits json.splits option.splits)

lemma wf_in_ok: "wf_record r \<Longrightarrow> in_ok r"
  by (simp add: in_ok_def wf_record_def)

lemma map_of_reads:
  "map_of (concat (map (\<lambda>i. case f i of None \<Rightarrow> [] | Some r \<Rightarrow> [(i, r)]) is)) k = (if k \<in> set is then f k else None)"
  by (induction "is") (auto split: option.splits)

definition batch_ids :: "memory_record option list \<Rightarrow> string set" where
  "batch_ids parsed = {mem_id r | r. Some r \<in> set parsed}"

lemma batch_inv:
  assumes "store_ok (y_store y)" "mint_fresh E (y_store y)" "e_allowed E = None" "x_dry X = False"
  shows "sync_inv E (batch_ids parsed) (y\<lparr>y_known := batch_known E X parsed y\<rparr>)"
proof -
  have r: "read_memory E (y_store y) i = get_memory (y_store y) i" for i
    using assms(3) by (simp add: read_memory_def authorize_workspace_id_def split: option.split)
  define ids where "ids = remdups (filter (\<lambda>i. i \<noteq> []) (concat (map (\<lambda>r. case r of None \<Rightarrow> [] | Some r \<Rightarrow> [mem_id r]) parsed)))"
  have ids: "set ids = batch_ids parsed - {[]}"
    by (auto simp: ids_def batch_ids_def split: option.splits)
  have k: "map_of (batch_known E X parsed y) i = (if i \<in> set ids then get_memory (y_store y) i else None)" for i
    using assms(4) by (simp add: batch_known_def ids_def [symmetric] r map_of_reads Let_def)
  show ?thesis
    unfolding sync_inv_def using assms(1,2) ids by (simp add: k)
qed

definition bundle_ids :: "pylib \<Rightarrow> json list \<Rightarrow> string set" where
  "bundle_ids L rows = {mem_id r | r v. v \<in> set rows \<and> dict_to_record L v = Inr (Some r)}"

definition sync_ready :: "store_env \<Rightarrow> sync_target \<Rightarrow> json list \<Rightarrow> sync_state \<Rightarrow> bool" where
  \<comment> \<open>a live apply on a well-formed store that is not bound to a workspace allow-list\<close>
  "sync_ready E X rows y \<longleftrightarrow>
     store_ok (y_store y) \<and> mint_fresh E (y_store y) \<and> e_allowed E = None \<and> x_dry X = False \<and>
     mint_apart E (bundle_ids (e_lib E) rows)"

lemma parsed_ids:
  assumes "rmap (dict_to_record L) batch = Inr parsed"
  shows "batch_ids parsed = bundle_ids L batch" "(d, Some r) \<in> set (zip batch parsed) \<Longrightarrow> wf_record r"
    "length parsed = length batch"
proof -
  have l: "list_all2 (\<lambda>x y. dict_to_record L x = Inr y) batch parsed" using assms by (simp add: rmap_Inr_conv)
  then show "length parsed = length batch" by (simp add: list_all2_lengthD)
  show "batch_ids parsed = bundle_ids L batch"
    using l by (force simp: batch_ids_def bundle_ids_def list_all2_conv_all_nth in_set_conv_nth)
  show "(d, Some r) \<in> set (zip batch parsed) \<Longrightarrow> wf_record r"
    using l dict_to_record_wf [of L] by (fastforce simp: list_all2_conv_all_nth set_zip)
qed

lemma mint_apart_subset: "mint_apart E ids \<Longrightarrow> ids' \<subseteq> ids \<Longrightarrow> mint_apart E ids'"
  by (auto simp: mint_apart_def)

lemma apply_batch_ok:
  assumes "apply_batch E X tombs batch y = Inr y'" "sync_ready E X batch y"
  shows "sync_effect E (x_workspace X) tombs (y_store y) (y_store y') \<and> store_ok (y_store y') \<and>
    mint_fresh E (y_store y')"
proof -
  have r: "store_ok (y_store y)" "mint_fresh E (y_store y)" "e_allowed E = None" "x_dry X = False"
    "mint_apart E (bundle_ids (e_lib E) batch)" using assms(2) by (simp_all add: sync_ready_def)
  obtain parsed where p: "rmap (dict_to_record (e_lib E)) batch = Inr parsed"
    and run: "rfold (\<lambda>(d, row) y. apply_one E X tombs (as_obj d) row y) (zip batch parsed)
         (y\<lparr>y_known := batch_known E X parsed y\<rparr>) = Inr y'"
    using assms(1) unfolding apply_batch_def rbind_eq_Inr_conv by blast
  let ?y0 = "y\<lparr>y_known := batch_known E X parsed y\<rparr>"
  have apart: "mint_apart E (batch_ids parsed)" using r(5) parsed_ids(1) [OF p] by simp
  have inv0: "sync_inv E (batch_ids parsed) ?y0" by (rule batch_inv [OF r(1-4)])
  have "step_ok E (batch_ids parsed) (x_workspace X) tombs ?y0 y'"
  proof (rule rfold_invariant [OF run])
    show "step_ok E (batch_ids parsed) (x_workspace X) tombs ?y0 ?y0"
      by (rule step_ok_report [OF inv0]) simp_all
  next
    fix x u v
    assume x: "x \<in> set (zip batch parsed)" and u: "step_ok E (batch_ids parsed) (x_workspace X) tombs ?y0 u"
      and v: "(\<lambda>(d, row) y. apply_one E X tombs (as_obj d) row y) x u = Inr v"
    obtain d row where dr: "x = (d, row)" by (cases x)
    have row: "mem_id r \<in> batch_ids parsed \<and> in_ok r" if "row = Some r" for r
      using x parsed_ids(2) [OF p, of d r] wf_in_ok that unfolding dr
      by (auto simp: batch_ids_def dest: set_zip_rightD)
    have "step_ok E (batch_ids parsed) (x_workspace X) tombs u v"
      by (rule apply_one_ok [where d = "as_obj d" and row = row])
        (use v u r apart row in \<open>auto simp: dr step_ok_def\<close>)
    then show "step_ok E (batch_ids parsed) (x_workspace X) tombs ?y0 v"
      using u sync_effect_trans unfolding step_ok_def by blast
  qed
  then show ?thesis by (simp add: step_ok_def sync_inv_def)
qed

lemma apply_batches_ok:
  assumes "sync_ready E X (concat bs) y"
  shows "sync_effect E (x_workspace X) tombs (y_store y) (y_store (snd (apply_batches E X tombs bs y)))"
  using assms
proof (induction bs arbitrary: y)
  case Nil
  then show ?case by (simp add: sync_effect_refl)
next
  case (Cons b bs)
  have sub: "bundle_ids (e_lib E) b \<subseteq> bundle_ids (e_lib E) (concat (b # bs))"
    "bundle_ids (e_lib E) (concat bs) \<subseteq> bundle_ids (e_lib E) (concat (b # bs))"
    by (auto simp: bundle_ids_def)
  have ready: "sync_ready E X b y"
    using Cons.prems mint_apart_subset [OF _ sub(1)] by (simp add: sync_ready_def)
  show ?case
  proof (cases "apply_batch E X tombs b y")
    case (Inl e)
    then show ?thesis by (simp add: sync_effect_refl)
  next
    case (Inr y1)
    note s = apply_batch_ok [OF Inr ready]
    have "sync_ready E X (concat bs) y1"
      using Cons.prems mint_apart_subset [OF _ sub(2)] s by (simp add: sync_ready_def)
    from Cons.IH [OF this] show ?thesis using s sync_effect_trans by (simp add: Inr) blast
  qed
qed

lemma concat_batches: "concat (batches xs) = xs"
  by (induction xs rule: batches.induct) auto

lemma apply_memories_ok:
  assumes "sync_ready E X rows y" "live_tombstones X tombs (y_store y) = Inr live_map"
  shows "sync_effect E (x_workspace X) live_map (y_store y) (y_store (snd (apply_memories E X tombs rows y)))"
  using apply_batches_ok [of E X "batches rows" y live_map] assms
  by (simp add: apply_memories_def concat_batches)

section \<open>Accounting\<close>

definition rows_counted :: "sync_report \<Rightarrow> nat" where
  "rows_counted p = rp_added p + rp_updated p + rp_unchanged p + rp_rejected p"

lemma preserve_counts:
  assumes "preserve_hlc_conflict E dry existing incoming y = Inr y'"
  shows "rows_counted (y_report y') = rows_counted (y_report y)"
  using assms
proof (cases rule: preserve_cases)
  case (extend p d cid held preserved marker)
  from extend(3) show ?thesis by (cases rule: extend_cases) auto
next
  case (create p d cid loser marker preserved detail)
  then obtain s' r' where "y' = y\<lparr>y_store := s', y_known := AList.update cid r' (y_known y),
        y_report := (y_report y)\<lparr>rp_conflicts := Suc (rp_conflicts (y_report y))\<rparr>\<rparr>"
    unfolding create_successor_def rbind_eq_Inr_conv split_def by blast
  then show ?thesis by (simp add: rows_counted_def)
qed simp

lemma rejected_counts: "rows_counted (y_report (rejected y)) = Suc (rows_counted (y_report y))"
  by (simp add: rejected_def rows_counted_def)

lemma approved_counts:
  assumes "apply_to_approved E X x r y = Inr y'"
  shows "rows_counted (y_report y') = Suc (rows_counted (y_report y))"
proof -
  obtain r' z where o: "reject_value_errors y (preserve_hlc_conflict E (x_dry X) x r' y) = Inr z"
    and run: "(case z of Inl y \<Rightarrow> Inr y
     | Inr y \<Rightarrow>
         rbind (if \<not> x_dry X \<and> content r \<noteq> content x
                then audit (e_lib E) (peer_actor (e_lib E) (x_device X)) ''sync_trust_conflict'' (mem_id x)
                       ''peer content ignored because local record is explicitly trusted'' (y_store y)
                else Inr (y_store y)) (\<lambda>s.
         Inr (y\<lparr>y_store := s, y_accepted := AList.update (mem_id r) x (y_accepted y),
                y_report := count_unchanged (y_report y)\<rparr>))) = Inr y'"
    using assms(1) unfolding apply_to_approved_def rbind_eq_Inr_conv [of "rehome_external_record _ _ _"]
      rbind_eq_Inr_conv [of "reject_value_errors _ _"] by blast
  show ?thesis
  proof (cases z)
    case (Inl y1)
    then have "y' = rejected y"
      using o run by (auto simp: reject_value_errors_def split: sum.splits if_splits)
    then show ?thesis by (simp add: rejected_counts)
  next
    case (Inr y1)
    then have p: "preserve_hlc_conflict E (x_dry X) x r' y = Inr y1"
      using o by (auto simp: reject_value_errors_def split: sum.splits if_splits)
    obtain s2 where "y' = y1\<lparr>y_store := s2, y_accepted := AList.update (mem_id r) x (y_accepted y1),
        y_report := count_unchanged (y_report y1)\<rparr>"
      using run unfolding Inr sum.case rbind_eq_Inr_conv by blast
    then show ?thesis using preserve_counts [OF p] by (simp add: rows_counted_def count_unchanged_def)
  qed
qed

lemma add_counts:
  assumes "add_row E X r y = Inr y'"
  shows "rows_counted (y_report y') = Suc (rows_counted (y_report y))"
proof -
  obtain q where "y' = y\<lparr>y_store := snd q, y_known := AList.update (mem_id (fst q)) (fst q) (y_known y),
            y_accepted := AList.update (mem_id (fst q)) (fst q) (y_accepted y),
            y_report := (y_report y)\<lparr>rp_added := Suc (rp_added (y_report y))\<rparr>\<rparr>"
    using assms unfolding add_row_def rbind_eq_Inr_conv split_def by auto
  then show ?thesis by (simp add: rows_counted_def)
qed

lemma update_counts:
  assumes "update_row E X x m mid y = Inr y'"
  shows "rows_counted (y_report y') = Suc (rows_counted (y_report y))"
proof -
  obtain new old :: string and z where run: "(if new = old
       then Inr (y\<lparr>y_accepted := AList.update mid x (y_accepted y), y_report := count_unchanged (y_report y)\<rparr>)
       else rbind z (\<lambda>(m, s).
         Inr (y\<lparr>y_store := s, y_known := AList.update mid m (y_known y),
                y_accepted := AList.update mid m (y_accepted y),
                y_report := (y_report y)\<lparr>rp_updated := Suc (rp_updated (y_report y))\<rparr>\<rparr>))) = Inr y'"
    using assms unfolding update_row_def rbind_eq_Inr_conv [of "signature _ _"] by blast
  show ?thesis
  proof (cases "new = old")
    case True
    then show ?thesis using run by (auto simp: rows_counted_def count_unchanged_def)
  next
    case False
    obtain q where "y' = y\<lparr>y_store := snd q, y_known := AList.update mid (fst q) (y_known y),
                y_accepted := AList.update mid (fst q) (y_accepted y),
                y_report := (y_report y)\<lparr>rp_updated := Suc (rp_updated (y_report y))\<rparr>\<rparr>"
      using run unfolding if_not_P [OF False] rbind_eq_Inr_conv split_def by auto
    then show ?thesis by (simp add: rows_counted_def)
  qed
qed

lemma join_counts:
  assumes "join_row E X existing r y = Inr (Joined r1 m y1)"
  shows "rows_counted (y_report y1) = rows_counted (y_report y)"
proof -
  obtain obs m' where "(if peer_closure_budget_exceeded (closure_observations m') existing then Inr Over_budget
        else rbind (has_valid_closure_interval m') (\<lambda>valid.
          if \<not> valid then Inr Bad_interval
          else rbind (case existing of None \<Rightarrow> Inr y
              | Some x \<Rightarrow> preserve_hlc_conflict E (x_dry X) x (r\<lparr>closure_observations := obs\<rparr>) y)
                 (\<lambda>y. Inr (Joined (r\<lparr>closure_observations := obs\<rparr>) m' y)))) = Inr (Joined r1 m y1)"
    using assms(1) unfolding join_row_def rbind_eq_Inr_conv [of "record_closure_observations _"]
      rbind_eq_Inr_conv [of "case existing of None \<Rightarrow> _ | Some x \<Rightarrow> _ x"] Let_def by blast
  then have "(case existing of None \<Rightarrow> Inr y
      | Some x \<Rightarrow> preserve_hlc_conflict E (x_dry X) x (r\<lparr>closure_observations := obs\<rparr>) y) = Inr y1"
    by (auto simp: rbind_eq_Inr_conv split: if_splits)
  then show ?thesis using preserve_counts by (auto split: option.splits)
qed

lemma apply_one_counts:
  assumes "apply_one E X tombs d row y = Inr y'"
  shows "rows_counted (y_report y') = Suc (rows_counted (y_report y))"
proof (cases "y' = rejected y")
  case True
  then show ?thesis by (simp add: rejected_counts)
next
  case False
  then obtain r1 r2 where r1: "row \<noteq> None" "rescope X tombs d (the row) = Some r1"
    and r2: "initialize_sync_store_defaults r1 = Inr r2"
    using assms(1) by (auto simp: apply_one_def rbind_eq_Inr_conv split: option.splits)
  define existing where "existing = map_of (y_known y) (mem_id r2)"
  obtain r0 where r0: "row = Some r0" using r1 by blast
  have r1': "rescope X tombs d r0 = Some r1" using r1 r0 by simp
  obtain b r3 where run: "(if b then apply_to_approved E X (the existing) r3 y
               else
                 rbind (local_envelope (e_lib E) (x_device X) d existing r3) (\<lambda>r.
                 case join_row E X existing r y of
                   Inl e \<Rightarrow> if e \<in> value_errors then Inr (rejected y) else Inl e
                 | Inr Over_budget \<Rightarrow>
                     Inr (rejected (y\<lparr>y_report := (y_report y)\<lparr>rp_budget := Suc (rp_budget (y_report y))\<rparr>\<rparr>))
                 | Inr Bad_interval \<Rightarrow> Inr (rejected y)
                 | Inr (Joined r m y) \<Rightarrow>
                     (case existing of None \<Rightarrow> add_row E X r y
                      | Some x \<Rightarrow> update_row E X x m (mem_id r) y))) = Inr y'"
  proof (cases "case existing of None \<Rightarrow> False | Some x \<Rightarrow> \<not> mergeable X x r2")
    case True
    then show thesis
      using assms False by (simp add: apply_one_def r0 r1' r2 existing_def [symmetric] Let_def)
  next
    case g: False
    show thesis
      using assms(1) unfolding apply_one_def r0 r1' option.case r2 rbind_simps Let_def existing_def [symmetric]
        if_not_P [OF g] rbind_eq_Inr_conv [of "case existing of None \<Rightarrow> _ | Some x \<Rightarrow> _ x"]
      using that by blast
  qed
  show ?thesis
  proof (cases b)
    case True
    then show ?thesis using run approved_counts by simp
  next
    case nb: False
    obtain r4 where run: "(case join_row E X existing r4 y of
                   Inl e \<Rightarrow> if e \<in> value_errors then Inr (rejected y) else Inl e
                 | Inr Over_budget \<Rightarrow>
                     Inr (rejected (y\<lparr>y_report := (y_report y)\<lparr>rp_budget := Suc (rp_budget (y_report y))\<rparr>\<rparr>))
                 | Inr Bad_interval \<Rightarrow> Inr (rejected y)
                 | Inr (Joined r m y) \<Rightarrow>
                     (case existing of None \<Rightarrow> add_row E X r y
                      | Some x \<Rightarrow> update_row E X x m (mem_id r) y)) = Inr y'"
      using run unfolding if_not_P [OF nb] rbind_eq_Inr_conv [of "local_envelope _ _ _ _ _"] by blast
    show ?thesis
    proof (cases "join_row E X existing r4 y")
      case (Inl e)
      then show ?thesis using run False by (simp split: if_splits)
    next
      case (Inr o1)
      show ?thesis
      proof (cases o1)
        case Over_budget
        then have "y' = rejected (y\<lparr>y_report := (y_report y)\<lparr>rp_budget := Suc (rp_budget (y_report y))\<rparr>\<rparr>)"
          using run Inr by simp
        then show ?thesis by (simp add: rejected_counts) (simp add: rows_counted_def)
      next
        case Bad_interval
        then show ?thesis using run Inr False by simp
      next
        case (Joined r5 m y1)
        then show ?thesis
          using run Inr join_counts [of E X existing r4 y r5 m y1] add_counts update_counts
          by (cases existing) fastforce+
      qed
    qed
  qed
qed

lemma apply_batches_counts:
  assumes "apply_batches E X tombs bs y = (None, y')"
  shows "rows_counted (y_report y') = rows_counted (y_report y) + length (concat bs)"
  using assms
proof (induction bs arbitrary: y)
  case (Cons b bs)
  then obtain y1 where b: "apply_batch E X tombs b y = Inr y1" and rest: "apply_batches E X tombs bs y1 = (None, y')"
    by (auto split: sum.splits)
  obtain parsed where p: "rmap (dict_to_record (e_lib E)) b = Inr parsed"
    and run: "rfold (\<lambda>(d, row) y. apply_one E X tombs (as_obj d) row y) (zip b parsed)
         (y\<lparr>y_known := batch_known E X parsed y\<rparr>) = Inr y1"
    using b unfolding apply_batch_def rbind_eq_Inr_conv by blast
  have count: "rows_counted (y_report v) = rows_counted (y_report u) + length xs"
    if "rfold (\<lambda>(d, row) y. apply_one E X tombs (as_obj d) row y) xs u = Inr v" for xs u v
    using that
  proof (induction xs arbitrary: u)
    case (Cons x xs)
    obtain d row where x: "x = (d, row)" by (cases x)
    obtain w where "apply_one E X tombs (as_obj d) row u = Inr w"
      and "rfold (\<lambda>(d, row) y. apply_one E X tombs (as_obj d) row y) xs w = Inr v"
      using Cons.prems x by (auto simp: rbind_eq_Inr_conv)
    then show ?case using Cons.IH apply_one_counts by fastforce
  qed simp
  show ?case
    using Cons.IH [OF rest] count [OF run] parsed_ids(3) [OF p] by simp
qed simp

section \<open>A concrete bundle\<close>

definition sync_env :: store_env where
  "sync_env = demo_env\<lparr>e_mint := (\<lambda>n. ''mem_x'' @ replicate n (CHR ''0''))\<rparr>"

definition demo_target :: sync_target where
  "demo_target = \<lparr>x_workspace = ''ws_a'', x_remap = [], x_only = None, x_device = dev_a, x_dry = False\<rparr>"

definition demo_sync :: sync_state where
  "demo_sync = \<lparr>y_store = demo_store, y_report = empty_report, y_accepted = [], y_known = []\<rparr>"

definition demo_bundle_rows :: "json list" where
  "demo_bundle_rows = [JObj [(''id'', JStr ''mem_a''), (''content'', JStr ''other'')], JNull]"

lemma conflict_id_shape:
  assumes "conflict_memory_id p d = Inr i"
  shows "length i = 30" "set (drop 4 i) \<subseteq> set CROCKFORD"
  using assms crockford.length_enc crockford.set_enc
  by (fastforce simp: conflict_memory_id_def Let_def rbind_eq_Inr_conv encode_crockford_eq split: if_splits)+

lemma demo_ids: "bundle_ids L demo_bundle_rows \<subseteq> {''mem_a''}"
proof
  fix i
  assume "i \<in> bundle_ids L demo_bundle_rows"
  then obtain r v where i: "i = mem_id r" and v: "v \<in> set demo_bundle_rows" "dict_to_record L v = Inr (Some r)"
    by (auto simp: bundle_ids_def)
  then have v1: "v = JObj [(''id'', JStr ''mem_a''), (''content'', JStr ''other'')]"
    by (auto simp: demo_bundle_rows_def dict_to_record_def)
  have ne: "dict_to_record L v \<noteq> Inr None" using v(2) by simp
  then obtain d mid body ws repo hlc obs where d: "v = JObj d" "admits L d mid body ws repo hlc obs"
    by (rule dict_to_record_cases)
  then have "r = accepted_record L d mid body ws repo hlc obs"
    using dict_to_record_admits [OF d(2)] v(2) by simp
  moreover have "mid = ''mem_a''"
  proof -
    have "jget d ''id'' = JStr mid" using d(2) by (simp only: admits_def)
    moreover have "d = [(''id'', JStr ''mem_a''), (''content'', JStr ''other'')]" using d(1) v1 by simp
    ultimately show ?thesis by (simp add: jget_def)
  qed
  moreover have "clamp_str L (JStr ''mem_a'') 128 = ''mem_a''"
    by (simp add: clamp_str_def strip_control_def control_char_def)
  ultimately show "i \<in> {''mem_a''}" using i by (simp add: accepted_record_def)
qed

lemma mint_not: "''mem_a'' \<notin> range (e_mint sync_env)" "''mem_b'' \<notin> range (e_mint sync_env)"
  by (auto simp: sync_env_def)

lemma demo_mint: "mint_apart sync_env {''mem_a''}"
proof -
  have inj: "inj (e_mint sync_env)" by (auto simp: inj_def sync_env_def)
  have "conflict_memory_id p d \<noteq> Inr (e_mint sync_env n)" for p d n
  proof
    assume "conflict_memory_id p d = Inr (e_mint sync_env n)"
    then have "set (drop 4 (e_mint sync_env n)) \<subseteq> set CROCKFORD" by (rule conflict_id_shape(2))
    then show False by (simp add: sync_env_def CROCKFORD_def)
  qed
  then have "conflict_memory_id p d \<notin> Inr ` range (e_mint sync_env)" for p d by blast
  then show ?thesis using inj mint_not(1) by (simp add: mint_apart_def)
qed

lemma demo_ready: "sync_ready sync_env demo_target demo_bundle_rows demo_sync"
proof -
  have "mint_apart sync_env (bundle_ids (e_lib sync_env) demo_bundle_rows)"
    using demo_mint demo_ids by (rule mint_apart_subset)
  moreover have "mint_fresh sync_env demo_store"
    using mint_not(1) by (auto simp: mint_fresh_def demo_store_tables sync_env_def)
  moreover have "e_allowed sync_env = None" by (simp add: sync_env_def demo_env_def)
  ultimately show ?thesis
    using reachable_ok [OF demo_reachable] by (simp add: sync_ready_def demo_sync_def demo_target_def)
qed

lemma demo_trusted: "prompt_eligible L (JObj (provenance demo_row)) (JObj (metadata demo_row))"
proof -
  have e: "provenance demo_record = []" "as_obj (jget (metadata demo_record) ''provenance'') = []"
    by (simp_all add: demo_record_def plain_record_def blank_record_def jget_def)
  have c: "canonical_envelope demo_record = [(''source'', JStr ''local_store''), (''trusted'', JBool True),
      (''trust_origin'', JStr ''local_store''), (''review_state'', JStr REVIEW_APPROVED)]"
    by (simp only: canonical_envelope_def e merge_empty Let_def setdefault_def get_default_def)
      (simp add: jhas_def jget_def jupdate_def)
  have l: "casefold (strip ''local_store'') = ''local_store''" by code_simp
  show ?thesis
    unfolding demo_envelope c
    by (simp add: l prompt_eligible_def provenance_is_approved_def provenance_is_trusted_def metadata_is_trusted_def
        inspection_eligible_def metadata_is_quarantined_def llm_extraction_requires_review_def Let_def jget_def
        llm_consolidation_kind_def str_or_empty_def)
qed

section \<open>Properties\<close>

lemma live_tombstones_total: "\<exists>live_map. live_tombstones X tombs s = Inr live_map"
  by (simp add: live_tombstones_def list_memory_tombstones_def)

lemma bundle_effect:
  assumes "sync_ready E X rows y" "apply_memories E X tombs rows y = (err, y')"
    and "live_tombstones X tombs (y_store y) = Inr live_map"
  shows "row_effect E (x_workspace X) live_map i (get_memory (y_store y) i) (get_memory (y_store y') i)"
  using apply_memories_ok [OF assms(1,3)] assms(2) by (simp add: sync_effect_def)

lemma demo_kept:
  "get_memory (y_store (snd (apply_memories sync_env demo_target [] demo_bundle_rows demo_sync))) ''mem_a'' = Some demo_row"
proof -
  obtain live_map where l: "live_tombstones demo_target [] (y_store demo_sync) = Inr live_map"
    using live_tombstones_total by blast
  have "protected_row (e_lib sync_env) demo_row"
    using demo_trusted by (simp add: protected_row_def prompt_eligible_def sync_env_def demo_env_def)
  then show ?thesis
    using bundle_effect [OF demo_ready prod.collapse [symmetric] l, of "''mem_a''"]
    by (auto simp: row_effect_def demo_sync_def demo_store_tables)
qed








definition demo_tomb :: peer_tomb where
  "demo_tomb = \<lparr>pt_id = ''mem_b'', pt_deleted_at = 1, pt_device = dev_a, pt_repo = None, pt_mapped = None\<rparr>"


text \<open>
  C10: The report accounts for every row of a bundle applied to its end: each row is counted once,
  as added, updated, unchanged or rejected.
\<close>

theorem report_accounts_rows:
  assumes "apply_memories E X tombs rows y = (None, y')"
  shows "rows_counted (y_report y') = rows_counted (y_report y) + length rows"
proof -
  obtain live_map where "live_tombstones X tombs (y_store y) = Inr live_map"
    using live_tombstones_total by blast
  then show ?thesis
    using apply_batches_counts [of E X live_map "batches rows" y y'] assms
    by (simp add: apply_memories_def concat_batches)
qed

theorem report_accounts_rows_witness:
  "\<exists>y'. apply_memories sync_env demo_target [] [JNull, JBool True] demo_sync = (None, y') \<and>
     rows_counted (y_report y') = 2"
proof -
  have l: "live_tombstones demo_target [] (y_store demo_sync) = Inr []"
    by (simp add: live_tombstones_def list_memory_tombstones_def demo_sync_def demo_store_tables)
  have "\<exists>y'. apply_memories sync_env demo_target [] [JNull, JBool True] demo_sync = (None, y')"
    by (simp add: apply_memories_def l APPLY_BATCH_def apply_batch_def dict_to_record_def apply_one_def)
  then show ?thesis using report_accounts_rows [of sync_env demo_target "[]" "[JNull, JBool True]" demo_sync]
    by (auto simp: demo_sync_def empty_report_def rows_counted_def)
qed

end
