(* ===== verification/SyncTombs.thy ===== *)
theory SyncTombs
  imports SyncEffect
begin

text \<open>
  The deletion markers of an untrusted bundle (\<^verbatim>\<open>engraphis/core/sync.py\<close>): their validation
  (\<open>_parse_tombstones\<close>), the hold of locally quarantined rows (\<open>_tombstone_target_is_held\<close>), and
  the loop of \<open>apply_bundle\<close> that admits each marker, records it and erases the row it names.

  Lemmas: validation never raises and its result is bounded, with one marker per identifier and
  repository; the checks of the loop imply every precondition of the store, so recording an
  admitted marker never raises; and the loop erases only unprotected, unheld rows of the receiving
  workspace that a marker names.
\<close>

section \<open>Validation\<close>

definition tomb_device_id :: "pylib \<Rightarrow> string \<Rightarrow> json \<Rightarrow> string result" where
  "tomb_device_id L src v =
     (case (if py_truthy v then normalise_device_id L v else normalise_device_id L (JStr src)) of
        Inl SyncError \<Rightarrow> normalise_device_id L (JStr src)
      | r \<Rightarrow> r)"

definition clean_id :: "pylib \<Rightarrow> string \<Rightarrow> bool" where
  "clean_id L mid \<longleftrightarrow>
     mid \<noteq> [] \<and> mid = strip mid \<and> \<not> list_ex py_space mid \<and> mid = clamp_str L (JStr mid) 128"

definition parse_tomb :: "pylib \<Rightarrow> string \<Rightarrow> json \<Rightarrow> peer_tomb option result" where
  "parse_tomb L src v =
     (if \<not> is_obj v then Inr None
      else
        let t = as_obj v
        in if jget t ''export_class'' \<noteq> JStr TOMBSTONE_REMOTE_ERASURE then Inr None
           else (case (jget t ''id'', as_float L (jget t ''deleted_at'') None) of
             (JStr mid, Some deleted_at) \<Rightarrow>
               if \<not> clean_id L mid then Inr None
               else rbind (tomb_device_id L src (jget t ''device'')) (\<lambda>device.
                 Inr (Some \<lparr>pt_id = mid,
                   pt_deleted_at = max 0 (min deleted_at (lib_now L + TS_FUTURE_SKEW)),
                   pt_device = (if device \<noteq> [] then device else if src = [] then [] else clamp_str L (JStr src) 128),
                   pt_repo = (case jget t ''repo_id'' of
                      JStr q \<Rightarrow> if q = [] then None else Some (clamp_str L (JStr q) 128) | _ \<Rightarrow> None),
                   pt_mapped = None\<rparr>))
           | _ \<Rightarrow> Inr None))"

text \<open>The earliest marker of each identifier and repository, at the position of the first.\<close>

definition tomb_key :: "peer_tomb \<Rightarrow> string \<times> string option" where
  "tomb_key t = (pt_id t, pt_repo t)"

type_synonym best_tombs = "((string \<times> string option) \<times> peer_tomb) list"

definition keep_best :: "peer_tomb option \<Rightarrow> best_tombs \<Rightarrow> best_tombs" where
  "keep_best t best =
     (case t of None \<Rightarrow> best
      | Some t \<Rightarrow> (case map_of best (tomb_key t) of
          None \<Rightarrow> AList.update (tomb_key t) t best
        | Some previous \<Rightarrow> if pt_deleted_at previous \<le> pt_deleted_at t then best
                           else AList.update (tomb_key t) t best))"

text \<open>A marker without a repository is global and suppresses the repository markers of its identifier.\<close>

definition select_best :: "best_tombs \<Rightarrow> peer_tomb list" where
  "select_best best =
     (let global_ids = fst ` {k \<in> fst ` set best. snd k = None}
      in map snd (filter (\<lambda>(k, _). snd k = None \<or> fst k \<notin> global_ids) best))"

definition parse_tombstones :: "pylib \<Rightarrow> string \<Rightarrow> json list \<Rightarrow> peer_tomb list result" where
  "parse_tombstones L src dicts =
     rbind (rmap (parse_tomb L src) dicts) (\<lambda>parsed. Inr (select_best (fold keep_best parsed [])))"

section \<open>Admission\<close>

definition tombstone_target_is_held :: "memory_record \<Rightarrow> bool" where
  "tombstone_target_is_held r \<longleftrightarrow>
     metadata_is_quarantined (JObj (metadata r)) \<or> py_truthy (jget (provenance r) ''quarantined'') \<or>
     jget (provenance r) ''review_state'' = JStr REVIEW_PENDING"

datatype tomb_verdict =
    Refused
  | Refused_protected
  | Device_not_allowed
  | Admitted "string option" bool \<comment> \<open>the repository to store, and whether the marker changes\<close>

definition tomb_scope_refused :: "sync_target \<Rightarrow> string option \<Rightarrow> memory_record option \<Rightarrow> tomb_row option \<Rightarrow> bool" where
  "tomb_scope_refused X mapped existing row \<longleftrightarrow>
     (case row of None \<Rightarrow> False
      | Some t \<Rightarrow> tomb_workspace t \<noteq> None \<and> tomb_workspace t \<noteq> Some (x_workspace X) \<or>
                  tomb_class t = TOMBSTONE_NEVER_EXPORT \<or>
                  tomb_repo t \<noteq> None \<and> mapped \<noteq> None \<and> tomb_repo t \<noteq> mapped) \<or>
     (case existing of None \<Rightarrow> False
      | Some r \<Rightarrow> workspace_id r \<noteq> Some (x_workspace X) \<or> mapped \<noteq> None \<and> repo_id r \<noteq> mapped \<or>
                  x_only X \<noteq> None \<and> repo_id r \<noteq> x_only X) \<or>
     x_only X \<noteq> None \<and> mapped \<noteq> None \<and> mapped \<noteq> x_only X"

definition tomb_verdict :: "store_env \<Rightarrow> sync_target \<Rightarrow> string list option \<Rightarrow> peer_tomb \<Rightarrow> store \<Rightarrow> tomb_verdict" where
  "tomb_verdict E X allow t s =
     (let existing = read_memory E s (pt_id t); row = map_of (st_tombs s) (pt_id t);
          mapped = (case pt_repo t of None \<Rightarrow> None | Some q \<Rightarrow> map_of (x_remap X) q)
      in if pt_repo t \<noteq> None \<and> mapped = None then Refused
         else if tomb_scope_refused X mapped existing row then Refused
         else if (case existing of None \<Rightarrow> False | Some r \<Rightarrow> protected_row (e_lib E) r) then Refused_protected
         else if (case allow of None \<Rightarrow> False | Some ds \<Rightarrow> x_device X \<notin> set ds) then Device_not_allowed
         else
           let stored = (case mapped of Some q \<Rightarrow> Some q | None \<Rightarrow> (case row of None \<Rightarrow> None | Some m \<Rightarrow> tomb_repo m));
               changed = (case row of None \<Rightarrow> True
                  | Some m \<Rightarrow> pt_deleted_at t < tomb_deleted_at m \<or> tomb_repo m \<noteq> stored \<or>
                              tomb_class m \<noteq> TOMBSTONE_REMOTE_ERASURE)
           in Admitted stored changed)"

definition bump :: "(sync_report \<Rightarrow> sync_report) \<Rightarrow> sync_state \<Rightarrow> sync_state" where
  "bump f y = y\<lparr>y_report := f (y_report y)\<rparr>"

definition held_report :: "sync_report \<Rightarrow> sync_report" where
  "held_report p = p\<lparr>rp_tombs_held := Suc (rp_tombs_held p)\<rparr>"

definition applied_report :: "sync_report \<Rightarrow> sync_report" where
  "applied_report p = p\<lparr>rp_tombs_applied := Suc (rp_tombs_applied p)\<rparr>"

definition audit_live :: "store_env \<Rightarrow> sync_target \<Rightarrow> string \<Rightarrow> string \<Rightarrow> string \<Rightarrow> sync_state \<Rightarrow> sync_state result" where
  "audit_live E X action target detail y =
     (if x_dry X then Inr y
      else rbind (audit (e_lib E) (peer_actor (e_lib E) (x_device X)) action target detail (y_store y))
             (\<lambda>s. Inr (y\<lparr>y_store := s\<rparr>)))"

definition record_marker :: "store_env \<Rightarrow> sync_target \<Rightarrow> peer_tomb \<Rightarrow> string option \<Rightarrow> sync_state \<Rightarrow> sync_state result" where
  "record_marker E X t stored y =
     rbind (add_memory_tombstone E (pt_id t) (Some (pt_deleted_at t)) (pt_device t) (Some (x_workspace X)) stored
              TOMBSTONE_REMOTE_ERASURE (y_store y)) (\<lambda>s. Inr (y\<lparr>y_store := s\<rparr>))"

text \<open>One marker: the state and the admitted markers so far.\<close>

definition apply_tomb :: "store_env \<Rightarrow> sync_target \<Rightarrow> string list option \<Rightarrow> peer_tomb \<Rightarrow>
    sync_state \<times> peer_tomb list \<Rightarrow> (sync_state \<times> peer_tomb list) result" where
  "apply_tomb E X allow t st =
     (case st of (y, accepted) \<Rightarrow>
      (case tomb_verdict E X allow t (y_store y) of
        Refused \<Rightarrow> Inr (rejected y, accepted)
      | Refused_protected \<Rightarrow>
          rbind (audit_live E X ''sync_trust_conflict'' (pt_id t)
                   ''peer erasure ignored because local record is protected'' (rejected y)) (\<lambda>y. Inr (y, accepted))
      | Device_not_allowed \<Rightarrow>
          rbind (audit_live E X ''sync_tombstone_held'' (pt_id t)
                   ''peer erasure held: device not in erase allowlist'' (bump held_report y)) (\<lambda>y. Inr (y, accepted))
      | Admitted stored changed \<Rightarrow>
          let accepted = accepted @ [t\<lparr>pt_mapped := stored\<rparr>]; existing = read_memory E (y_store y) (pt_id t)
          in if (case existing of None \<Rightarrow> False | Some r \<Rightarrow> tombstone_target_is_held r) then
               rbind (if x_dry X then Inr y else record_marker E X t stored y) (\<lambda>y.
               rbind (audit_live E X ''sync_tombstone_held'' (pt_id t)
                        ''peer erasure held: local record is quarantined/pending review'' (bump held_report y))
                 (\<lambda>y. Inr (y, accepted)))
             else
               rbind (if x_dry X then Inr y
                      else rbind (record_marker E X t stored y) (\<lambda>y.
                        Inr (if existing = None then y
                             else y\<lparr>y_store := snd (erase_memory_rows E ''sync_tombstone'' (pt_id t) (y_store y))\<rparr>)))
                 (\<lambda>y. Inr (if changed \<or> x_dry X then bump applied_report y else y, accepted))))"

definition malformed_tombs :: "json list \<Rightarrow> nat" where
  "malformed_tombs dicts =
     length (filter (\<lambda>v. \<not> is_obj v \<or> jget (as_obj v) ''export_class'' \<noteq> JStr TOMBSTONE_REMOTE_ERASURE) dicts)"

definition apply_tombstones :: "store_env \<Rightarrow> sync_target \<Rightarrow> string list option \<Rightarrow> json list \<Rightarrow> sync_state \<Rightarrow>
    (sync_state \<times> peer_tomb list) result" where
  "apply_tombstones E X allow dicts y =
     rbind (parse_tombstones (e_lib E) (x_device X) dicts) (\<lambda>ts.
       rfold (apply_tomb E X allow) ts
         (bump (\<lambda>p. p\<lparr>rp_rejected := rp_rejected p + malformed_tombs dicts\<rparr>) y, []))"

section \<open>Validation is total and bounded\<close>

lemma normalise_error: "normalise_device_id L v = Inl e \<Longrightarrow> e = SyncError"
  by (auto simp: normalise_device_id_def Let_def split: if_splits json.splits)

lemma tomb_device_total:
  assumes "normalise_device_id L (JStr src) = Inr d"
  shows "\<exists>w. tomb_device_id L src v = Inr w"
  using assms normalise_error [of L v]
  by (cases "normalise_device_id L v") (auto simp: tomb_device_id_def split: py_error.splits)

definition tomb_bounded :: "pylib \<Rightarrow> peer_tomb \<Rightarrow> bool" where
  "tomb_bounded L t \<longleftrightarrow>
     clean_id L (pt_id t) \<and> 0 \<le> pt_deleted_at t \<and> pt_deleted_at t \<le> max 0 (lib_now L + TS_FUTURE_SKEW) \<and>
     pt_mapped t = None"

lemma parse_tomb_total:
  assumes "normalise_device_id L (JStr src) = Inr d"
  shows "\<exists>r. parse_tomb L src v = Inr r"
proof -
  obtain w where "tomb_device_id L src (jget (as_obj v) ''device'') = Inr w"
    using tomb_device_total [OF assms] by blast
  then show ?thesis by (auto simp: parse_tomb_def Let_def split: json.splits option.splits)
qed

lemma parse_tomb_bounded:
  assumes "parse_tomb L src v = Inr (Some t)"
  shows "tomb_bounded L t"
  using assms
  by (auto simp: parse_tomb_def Let_def rbind_eq_Inr_conv tomb_bounded_def split: json.splits option.splits if_splits)

text \<open>The table of best markers.\<close>

definition best_ok :: "pylib \<Rightarrow> best_tombs \<Rightarrow> bool" where
  "best_ok L best \<longleftrightarrow> distinct (map fst best) \<and> (\<forall>(k, t) \<in> set best. k = tomb_key t \<and> tomb_bounded L t)"

definition covers :: "best_tombs \<Rightarrow> peer_tomb \<Rightarrow> bool" where
  "covers best t \<longleftrightarrow> (\<exists>u. map_of best (tomb_key t) = Some u \<and> pt_deleted_at u \<le> pt_deleted_at t)"

lemma update_entries: "distinct (map fst al) \<Longrightarrow> (j, u) \<in> set (AList.update k v al) \<longleftrightarrow>
    (if j = k then u = v else (j, u) \<in> set al)"
  by (metis distinct_update map_of_eq_Some_iff update_conv' fun_upd_apply option.inject)

lemma keep_best_ok:
  assumes "best_ok L best" "\<And>t. x = Some t \<Longrightarrow> tomb_bounded L t"
  shows "best_ok L (keep_best x best)" "covers best u \<Longrightarrow> covers (keep_best x best) u"
    and "x = Some t \<Longrightarrow> covers (keep_best x best) t"
proof -
  have d: "distinct (map fst best)" using assms(1) by (simp add: best_ok_def)
  have up: "best_ok L (AList.update (tomb_key w) w best)" if "tomb_bounded L w" for w
    using assms(1) that d by (auto simp: best_ok_def distinct_update update_entries split: if_splits)
  show "best_ok L (keep_best x best)"
    using assms up by (auto simp: keep_best_def split: option.splits)
  show "covers best u \<Longrightarrow> covers (keep_best x best) u"
    by (auto simp: covers_def keep_best_def update_conv' split: option.splits)
  show "x = Some t \<Longrightarrow> covers (keep_best x best) t"
    by (auto simp: covers_def keep_best_def update_conv' split: option.splits)
qed

lemma fold_best:
  assumes "best_ok L best" "\<And>t. Some t \<in> set xs \<Longrightarrow> tomb_bounded L t"
  shows "best_ok L (fold keep_best xs best) \<and> (\<forall>u. covers best u \<longrightarrow> covers (fold keep_best xs best) u) \<and>
    (\<forall>t. Some t \<in> set xs \<longrightarrow> covers (fold keep_best xs best) t)"
  using assms
proof (induction xs arbitrary: best)
  case (Cons x xs)
  have b: "tomb_bounded L t" if "x = Some t" for t using Cons.prems(2) that by simp
  note k = keep_best_ok [OF Cons.prems(1) b]
  have "best_ok L (fold keep_best xs (keep_best x best)) \<and>
    (\<forall>u. covers (keep_best x best) u \<longrightarrow> covers (fold keep_best xs (keep_best x best)) u) \<and>
    (\<forall>t. Some t \<in> set xs \<longrightarrow> covers (fold keep_best xs (keep_best x best)) t)"
    by (rule Cons.IH [OF k(1)]) (use Cons.prems(2) in auto)
  then show ?case using k(2,3) by auto
qed simp

text \<open>Dropping the repository markers of a global one keeps what they cover.\<close>

lemma select_best_ok:
  assumes ok: "best_ok L best"
  shows "distinct (map tomb_key (select_best best))" "t \<in> set (select_best best) \<Longrightarrow> tomb_bounded L t"
    and "t \<in> set (select_best best) \<Longrightarrow> u \<in> set (select_best best) \<Longrightarrow> pt_repo t = None \<Longrightarrow> pt_id u = pt_id t \<Longrightarrow> u = t"
    and "covers best t \<Longrightarrow> \<exists>u \<in> set (select_best best). pt_id u = pt_id t \<and>
      (pt_repo u = None \<or> pt_repo u = pt_repo t \<and> pt_deleted_at u \<le> pt_deleted_at t)"
proof -
  define globals where "globals = fst ` {k \<in> fst ` set best. snd k = None}"
  define ts where "ts = map snd (filter (\<lambda>(k, _). snd k = None \<or> fst k \<notin> globals) best)"
  have sel: "select_best best = ts" by (simp add: select_best_def ts_def globals_def Let_def)
  have mem: "t \<in> set ts \<longleftrightarrow> (tomb_key t, t) \<in> set best \<and> (pt_repo t = None \<or> pt_id t \<notin> globals)" for t
    using ok by (force simp: ts_def best_ok_def tomb_key_def)
  have glob: "i \<in> globals \<longleftrightarrow> (\<exists>t. ((i, None), t) \<in> set best)" for i
  proof
    assume "i \<in> globals"
    then obtain k t where "(k, t) \<in> set best" "snd k = None" "fst k = i" unfolding globals_def by auto
    then show "\<exists>t. ((i, None), t) \<in> set best" by (metis prod.collapse)
  next
    assume "\<exists>t. ((i, None), t) \<in> set best"
    then obtain t where "((i, None), t) \<in> set best" ..
    then have m: "(i, None) \<in> fst ` set best" by (rule image_eqI [rotated]) simp
    show "i \<in> globals" unfolding globals_def by (rule image_eqI [where x = "(i, None)"]) (use m in simp_all)
  qed
  have key: "(k, t) \<in> set best \<Longrightarrow> k = tomb_key t" for k t using ok by (auto simp: best_ok_def)
  have inj: "(k, t) \<in> set best \<Longrightarrow> (k, u) \<in> set best \<Longrightarrow> t = u" for k t u
    using ok by (auto simp: best_ok_def eq_key_imp_eq_value)
  have keys: "map tomb_key (map snd (filter P best)) = map fst (filter P best)" for P
    unfolding map_map by (rule map_cong) (use key in auto)
  have d: "distinct (map tomb_key ts)"
    unfolding ts_def keys using ok by (simp add: best_ok_def distinct_map_filter)
  have alone: "u = t" if "t \<in> set ts" "u \<in> set ts" "pt_repo t = None" "pt_id u = pt_id t" for t u
  proof -
    have t: "((pt_id t, None), t) \<in> set best" using that(1,3) mem [of t] by (simp add: tomb_key_def)
    then have "pt_id u \<in> globals" using that(4) glob by metis
    then have "pt_repo u = None" using that(2) mem [of u] by blast
    then have "((pt_id t, None), u) \<in> set best" using that(2,4) mem [of u] by (simp add: tomb_key_def)
    then show ?thesis using t inj by blast
  qed
  have cover: "\<exists>u \<in> set ts. pt_id u = pt_id t \<and>
      (pt_repo u = None \<or> pt_repo u = pt_repo t \<and> pt_deleted_at u \<le> pt_deleted_at t)"
    if "covers best t" for t
  proof -
    obtain u where u: "map_of best (tomb_key t) = Some u" "pt_deleted_at u \<le> pt_deleted_at t"
      using \<open>covers best t\<close> unfolding covers_def by blast
    then have ub: "(tomb_key t, u) \<in> set best" by (simp add: map_of_SomeD)
    then have k: "tomb_key t = tomb_key u" using key by blast
    then have same: "pt_id u = pt_id t" "pt_repo u = pt_repo t" by (simp_all add: tomb_key_def)
    show ?thesis
    proof (cases "pt_repo u = None \<or> pt_id u \<notin> globals")
      case True
      then have "u \<in> set ts" using mem [of u] ub k by simp
      then show ?thesis using same u(2) by blast
    next
      case False
      then obtain w where w: "((pt_id u, None), w) \<in> set best" using glob by blast
      then have kw: "tomb_key w = (pt_id u, None)" using key by metis
      then have "w \<in> set ts" using mem [of w] w by (simp add: tomb_key_def)
      moreover have "pt_id w = pt_id t" "pt_repo w = None" using kw same by (simp_all add: tomb_key_def)
      ultimately show ?thesis by blast
    qed
  qed
  have bounded: "tomb_bounded L t" if "t \<in> set ts" for t
    using that ok mem [of t] unfolding best_ok_def by blast
  show "distinct (map tomb_key (select_best best))" unfolding sel by (rule d)
  show "t \<in> set (select_best best) \<Longrightarrow> tomb_bounded L t" unfolding sel by (rule bounded)
  show "t \<in> set (select_best best) \<Longrightarrow> u \<in> set (select_best best) \<Longrightarrow> pt_repo t = None \<Longrightarrow> pt_id u = pt_id t \<Longrightarrow> u = t"
    unfolding sel by (rule alone)
  show "covers best t \<Longrightarrow> \<exists>u \<in> set (select_best best). pt_id u = pt_id t \<and>
      (pt_repo u = None \<or> pt_repo u = pt_repo t \<and> pt_deleted_at u \<le> pt_deleted_at t)"
    unfolding sel by (rule cover)
qed


definition demo_tomb_entry :: json where
  "demo_tomb_entry = JObj [(''id'', JStr ''mem_b''), (''deleted_at'', JFloat (Fin 5)),
     (''export_class'', JStr TOMBSTONE_REMOTE_ERASURE)]"

lemma demo_device: "normalise_device_id L (JStr dev_a) = Inr dev_a"
  by (simp add: normalise_device_id_def MAX_DEVICE_ID_CHARS_def safe_device_id_def)
    (simp add: dev_a_def alnum_or_def list_all_iff is_letter_def is_digit_def is_upper_def is_lower_def)

lemma demo_tomb_parsed:
  "parse_tomb content_lib dev_a demo_tomb_entry =
     Inr (Some \<lparr>pt_id = ''mem_b'', pt_deleted_at = 5, pt_device = dev_a, pt_repo = None, pt_mapped = None\<rparr>)"
proof -
  have c: "clean_id content_lib ''mem_b''"
    by (simp add: clean_id_def strip_def lstrip_def py_space_def clamp_str_def strip_control_def control_char_def)
  have d: "tomb_device_id content_lib dev_a JNull = Inr dev_a"
    by (simp add: tomb_device_id_def demo_device)
  have "dev_a \<noteq> []" by (simp add: dev_a_def)
  then show ?thesis
    by (simp add: parse_tomb_def demo_tomb_entry_def jget_def as_float_def c d content_lib_def TS_FUTURE_SKEW_def
        del: content_lib_def) (simp add: content_lib_def)
qed


section \<open>Admission and erasure\<close>

text \<open>A normalised device identity makes a valid audit actor.\<close>

lemma safe_device_chars:
  assumes "safe_device_id d" "length d \<le> 123"
  shows "validate_audit_actor (peer_actor L d) = Inr (peer_actor L d)"
proof -
  have al: "alnum_or ''_.:@/-'' c" if "c \<in> set d" for c
  proof -
    obtain x xs where d: "d = x # xs" using assms(1) by (cases d) (auto simp: safe_device_id_def)
    then show ?thesis
      using assms(1) that by (auto simp: safe_device_id_def alnum_or_def list_all_iff)
  qed
  have "\<not> control_char c" if "c \<in> set d" for c
    using al [OF that]
    by (auto simp: alnum_or_def control_char_def Let_def is_letter_def is_digit_def is_upper_def is_lower_def)
  then have st: "strip_control d = d" by (simp add: strip_control_def filter_id_conv)
  have "d \<noteq> []" using assms(1) by (simp add: safe_device_id_def)
  then have p: "peer_actor L d = ''sync:'' @ d"
    using assms(2) st by (simp add: peer_actor_def clamp_str_def)
  have "audit_actor_match (''sync:'' @ d)"
    using al assms(2)
    by (auto simp: audit_actor_match_def list_all_iff alnum_or_def is_letter_def is_lower_def is_upper_def)
  then show ?thesis by (simp add: p validate_audit_actor_def)
qed

definition stable_device :: "pylib \<Rightarrow> string \<Rightarrow> bool" where
  "stable_device L d \<longleftrightarrow> d \<noteq> [] \<and> normalise_device_id L (JStr d) = Inr d"

lemma stable_device_actor:
  assumes "stable_device L d"
  shows "validate_audit_actor (peer_actor L d) = Inr (peer_actor L d)"
proof -
  have "safe_device_id d" and c: "d = ''legacy_anonymous'' \<or> device_match d \<or>
      (take 7 d = ''legacy_'' \<and> lower_hex 16 (drop 7 d)) \<or> d = ''legacy_'' @ take 16 (lib_sha256 L d)"
    using assms by (auto simp: stable_device_def normalise_device_id_def split: if_splits)
  moreover have "length d \<le> 123"
    using c
  proof (elim disjE conjE)
    assume "lower_hex 16 (drop 7 d)"
    then show ?thesis by (auto simp: lower_hex_def)
  next
    assume "d = ''legacy_'' @ take 16 (lib_sha256 L d)"
    from arg_cong [OF this, of length] show ?thesis by simp
  qed (simp_all add: device_match_def)
  ultimately show ?thesis by (intro safe_device_chars)
qed

text \<open>A row a marker may erase.\<close>

definition erasable :: "store_env \<Rightarrow> sync_target \<Rightarrow> memory_record \<Rightarrow> bool" where
  "erasable E X r \<longleftrightarrow> \<not> protected_row (e_lib E) r \<and> \<not> tombstone_target_is_held r \<and>
     workspace_id r = Some (x_workspace X) \<and> (x_only X = None \<or> repo_id r = x_only X)"

definition absent :: "store \<Rightarrow> string \<Rightarrow> bool" where
  "absent s i \<longleftrightarrow> get_memory s i = None \<and> i \<notin> fst ` set (st_fts s) \<and> i \<notin> set (st_vectors s) \<and>
     (\<forall>l \<in> set (st_links s). ln_a l \<noteq> i \<and> ln_b l \<noteq> i)"

definition recorded :: "store \<Rightarrow> peer_tomb \<Rightarrow> bool" where
  "recorded s t \<longleftrightarrow> (\<exists>m. map_of (st_tombs s) (pt_id t) = Some m \<and> tomb_class m = TOMBSTONE_REMOTE_ERASURE \<and>
     tomb_deleted_at m \<le> pt_deleted_at t)"

definition markers_below :: "store \<Rightarrow> store \<Rightarrow> bool" where
  "markers_below s s' \<longleftrightarrow> (\<forall>i t. map_of (st_tombs s) i = Some t \<longrightarrow>
     (\<exists>t'. map_of (st_tombs s') i = Some t' \<and> marker_below t' t))"

lemma markers_below_refl: "st_tombs s' = st_tombs s \<Longrightarrow> markers_below s s'"
  using marker_below_refl by (auto simp: markers_below_def)

lemma markers_below_trans: "markers_below a b \<Longrightarrow> markers_below b c \<Longrightarrow> markers_below a c"
  unfolding markers_below_def by (meson marker_below_trans)

lemma recorded_below: "recorded s t \<Longrightarrow> markers_below s s' \<Longrightarrow> recorded s' t"
  unfolding recorded_def markers_below_def marker_below_def by fastforce

text \<open>What a run of the loop does to the store, given the markers it admitted.\<close>

definition tomb_effect :: "store_env \<Rightarrow> sync_target \<Rightarrow> peer_tomb list \<Rightarrow> store \<Rightarrow> store \<Rightarrow> bool" where
  "tomb_effect E X admitted s s' \<longleftrightarrow>
     markers_below s s' \<and> (\<forall>i. absent s i \<longrightarrow> absent s' i) \<and>
     (\<forall>i. get_memory s' i = get_memory s i \<or>
        (\<exists>r. get_memory s i = Some r \<and> erasable E X r) \<and> absent s' i \<and> i \<in> pt_id ` set admitted) \<and>
     (\<forall>t \<in> set admitted. recorded s' t)"

lemma tomb_effect_trans:
  assumes "tomb_effect E X ts a b" "tomb_effect E X us b c" "set ts \<subseteq> set us"
  shows "tomb_effect E X us a c"
  unfolding tomb_effect_def
proof (intro conjI allI)
  show "markers_below a c" using assms(1,2) markers_below_trans by (auto simp: tomb_effect_def)
  show "absent a i \<longrightarrow> absent c i" for i using assms(1,2) by (auto simp: tomb_effect_def)
  show "\<forall>t \<in> set us. recorded c t" using assms(2) by (auto simp: tomb_effect_def)
  fix i
  consider (same) "get_memory b i = get_memory a i"
    | (erased) "\<exists>r. get_memory a i = Some r \<and> erasable E X r" "absent b i" "i \<in> pt_id ` set ts"
    using assms(1) unfolding tomb_effect_def by blast
  then show "get_memory c i = get_memory a i \<or>
      (\<exists>r. get_memory a i = Some r \<and> erasable E X r) \<and> absent c i \<and> i \<in> pt_id ` set us"
  proof cases
    case same
    then show ?thesis using assms(2) unfolding tomb_effect_def by metis
  next
    case erased
    then have "absent c i" "i \<in> pt_id ` set us" using assms(2,3) unfolding tomb_effect_def by blast+
    then show ?thesis using erased(1) by blast
  qed
qed


definition tomb_inv :: "store \<Rightarrow> bool" where
  "tomb_inv s \<longleftrightarrow> store_ok s \<and> tombs_ok s"

lemma same_tables_effect:
  assumes "st_tombs s' = st_tombs s" "st_rows s' = st_rows s" "st_fts s' = st_fts s" "st_vectors s' = st_vectors s"
    and "st_links s' = st_links s" "\<forall>t \<in> set ts. recorded s t"
  shows "tomb_effect E X ts s s'"
  using assms markers_below_refl by (auto simp: tomb_effect_def absent_def get_memory_def recorded_def)

lemma audit_live_result:
  assumes "stable_device (e_lib E) (x_device X)" "tomb_inv (y_store y)" "\<forall>t \<in> set ts. recorded (y_store y) t"
  shows "\<exists>y'. audit_live E X action target detail y = Inr y' \<and> tomb_inv (y_store y') \<and>
    tomb_effect E X ts (y_store y) (y_store y')"
proof (cases "x_dry X")
  case True
  then show ?thesis using assms(2,3) same_tables_effect by (auto simp: audit_live_def)
next
  case False
  obtain s' where a: "audit (e_lib E) (peer_actor (e_lib E) (x_device X)) action target detail (y_store y) = Inr s'"
    by (simp add: audit_def stable_device_actor [OF assms(1)])
  have "tomb_inv s'"
    using assms(2) audit_ok [OF a a a] audit_tables(6) [OF a] by (simp add: tomb_inv_def tombs_ok_def)
  then show ?thesis
    using False a same_tables_effect [OF audit_tables(6) [OF a] audit_tables(1,2,5,9) [OF a] assms(3)]
    by (auto simp: audit_live_def)
qed

text \<open>The checks before it make the store accept the marker.\<close>

lemma record_marker_result:
  assumes "tomb_verdict E X allow t (y_store y) = Admitted stored changed" "tomb_inv (y_store y)"
    and "\<forall>u \<in> set ts. recorded (y_store y) u"
  shows "\<exists>y'. record_marker E X t stored y = Inr y' \<and> tomb_inv (y_store y') \<and>
    st_rows (y_store y') = st_rows (y_store y) \<and>
    tomb_effect E X (ts @ [t\<lparr>pt_mapped := stored\<rparr>]) (y_store y) (y_store y')"
proof -
  define s where "s = y_store y"
  define mapped where "mapped = (case pt_repo t of None \<Rightarrow> None | Some q \<Rightarrow> map_of (x_remap X) q)"
  have ok: "\<not> tomb_scope_refused X mapped (read_memory E s (pt_id t)) (map_of (st_tombs s) (pt_id t))"
    and stored: "stored = (case mapped of Some q \<Rightarrow> Some q
      | None \<Rightarrow> (case map_of (st_tombs s) (pt_id t) of None \<Rightarrow> None | Some m \<Rightarrow> tomb_repo m))"
    using assms(1) by (auto simp: tomb_verdict_def Let_def mapped_def s_def split: if_splits)
  define new where "new = \<lparr>tomb_deleted_at = pt_deleted_at t,
      tomb_device = (if pt_device t = [] then e_device E else pt_device t),
      tomb_workspace = Some (x_workspace X), tomb_repo = stored, tomb_class = TOMBSTONE_REMOTE_ERASURE\<rparr>"
  have cls: "TOMBSTONE_REMOTE_ERASURE \<in> set TOMBSTONE_EXPORT_CLASSES" by (simp add: classes)
  have "\<exists>s'. add_memory_tombstone E (pt_id t) (Some (pt_deleted_at t)) (pt_device t) (Some (x_workspace X)) stored
      TOMBSTONE_REMOTE_ERASURE s = Inr s' \<and> recorded s' t"
  proof (cases "map_of (st_tombs s) (pt_id t)")
    case None
    then show ?thesis
      by (simp add: add_memory_tombstone_def cls recorded_def map_add_def)
  next
    case (Some old)
    have c: "tomb_class old \<in> set TOMBSTONE_EXPORT_CLASSES"
      using assms(2) Some by (auto simp: tomb_inv_def tombs_ok_def s_def)
    have g: "tomb_workspace old = None \<or> tomb_workspace old = Some (x_workspace X)"
      "tomb_class old \<noteq> TOMBSTONE_NEVER_EXPORT" "tomb_repo old = None \<or> mapped = None \<or> tomb_repo old = mapped"
      using ok Some unfolding tomb_scope_refused_def by auto
    have w: "\<not> scope_conflict (tomb_workspace old) (tomb_workspace new)"
      "\<not> scope_conflict (tomb_repo old) (tomb_repo new)"
      using g stored Some by (auto simp: scope_conflict_def new_def split: option.splits)
    then obtain m where m: "merge_marker old new = Inr m" using g(2) by (simp add: merge_marker_def Let_def)
    have "tomb_class m = TOMBSTONE_REMOTE_ERASURE" "tomb_deleted_at m \<le> pt_deleted_at t"
      using merge_marker_result(1,4) [OF m c] g(2) c by (auto simp: new_def classes)
    then show ?thesis
      using Some m cls by (simp add: add_memory_tombstone_def new_def [symmetric] recorded_def update_conv')
  qed
  then obtain s' where s': "add_memory_tombstone E (pt_id t) (Some (pt_deleted_at t)) (pt_device t)
      (Some (x_workspace X)) stored TOMBSTONE_REMOTE_ERASURE s = Inr s'" "recorded s' t" by blast
  have inv: "tombs_ok s" "store_ok s" using assms(2) by (simp_all add: tomb_inv_def s_def)
  note f = add_tombstone_frame [OF s'(1)] and g = add_tombstone_get [OF s'(1) inv(1)]
  have below: "markers_below s s'" using g(3) by (simp add: markers_below_def)
  have "recorded s' u" if "u \<in> set (ts @ [t\<lparr>pt_mapped := stored\<rparr>])" for u
    using that s'(2) assms(3) recorded_below [OF _ below] by (auto simp: s_def recorded_def)
  then have "tomb_effect E X (ts @ [t\<lparr>pt_mapped := stored\<rparr>]) s s'"
    using below f by (simp add: tomb_effect_def absent_def get_memory_def)
  moreover have "tomb_inv s'" using g(1) inv(2) same_rows_ok [OF f(1,2,3)] by (simp add: tomb_inv_def)
  ultimately show ?thesis using s'(1) f(1) by (simp add: record_marker_def s_def)
qed

lemma erase_step:
  assumes "tomb_inv s" "get_memory s i = Some r" "erasable E X r" "\<forall>t \<in> set ts. recorded s t" "i \<in> pt_id ` set ts"
    and "s' = snd (erase_memory_rows E actor i s)"
  shows "tomb_inv s'" "tomb_effect E X ts s s'"
proof -
  have run: "erase_memory_rows E actor i s = (fst (erase_memory_rows E actor i s), s')"
    by (simp add: assms(6))
  have ok: "store_ok s" using assms(1) by (simp add: tomb_inv_def)
  note e = erase_rows_effect [OF run ok]
  show "tomb_inv s'" using e(1,6) assms(1) by (simp add: tomb_inv_def tombs_ok_def)
  have "gone s' i" using e(2,4) assms(2) by simp
  then have "absent s' i" by (simp add: gone_def absent_def)
  moreover have "absent s j \<longrightarrow> absent s' j" for j
    using e(3) [of j] assms(2) unfolding absent_def assms(6) by (auto simp: erase_memory_rows_def Let_def)
  moreover have "recorded s' t" if "t \<in> set ts" for t
    using that assms(4) e(6) by (simp add: recorded_def)
  ultimately show "tomb_effect E X ts s s'"
    using assms(2,3,5) e(3) markers_below_refl [OF e(6)] by (auto simp: tomb_effect_def)
qed



lemma bump_store [simp]: "y_store (bump f y) = y_store y" "y_store (rejected y) = y_store y"
  by (simp_all add: bump_def rejected_def)

lemma unrestricted_read: "e_allowed E = None \<Longrightarrow> read_memory E s i = get_memory s i"
  by (simp add: read_memory_def authorize_workspace_id_def split: option.split)

lemma admitted_facts:
  assumes "tomb_verdict E X allow t s = Admitted stored changed" "e_allowed E = None"
    and "get_memory s (pt_id t) = Some r" "\<not> tombstone_target_is_held r"
  shows "erasable E X r"
  using assms
  by (auto simp: tomb_verdict_def Let_def unrestricted_read erasable_def tomb_scope_refused_def split: if_splits)

lemma effect_refl: "\<forall>u \<in> set ts. recorded s u \<Longrightarrow> tomb_effect E X ts s s"
  by (rule same_tables_effect) simp_all

lemma apply_tomb_dry:
  assumes "x_dry X"
  shows "\<exists>y' acc'. apply_tomb E X allow t (y, acc) = Inr (y', acc') \<and> y_store y' = y_store y"
  using assms
  by (cases "tomb_verdict E X allow t (y_store y)") (auto simp: apply_tomb_def audit_live_def Let_def)

lemma apply_tomb_live:
  assumes dev: "stable_device (e_lib E) (x_device X)" and free: "e_allowed E = None" and inv: "tomb_inv (y_store y)"
    and rec: "\<forall>u \<in> set acc. recorded (y_store y) u" and live: "\<not> x_dry X"
  shows "\<exists>y' new. apply_tomb E X allow t (y, acc) = Inr (y', acc @ new) \<and> tomb_inv (y_store y') \<and>
    tomb_effect E X (acc @ new) (y_store y) (y_store y')"
proof (cases "tomb_verdict E X allow t (y_store y)")
  case Refused
  then show ?thesis using inv effect_refl [OF rec] by (intro exI [of _ "rejected y"] exI [of _ "[]"]) (simp add: apply_tomb_def)
next
  case Refused_protected
  obtain y' where "audit_live E X ''sync_trust_conflict'' (pt_id t)
      ''peer erasure ignored because local record is protected'' (rejected y) = Inr y'"
    "tomb_inv (y_store y')" "tomb_effect E X acc (y_store y) (y_store y')"
    using audit_live_result [OF dev, where y = "rejected y" and ts = acc, unfolded bump_store, OF inv rec] by blast
  then show ?thesis using Refused_protected
    by (intro exI [of _ y'] exI [of _ "[]"]) (simp only: apply_tomb_def tomb_verdict.simps prod.case rbind_simps append_Nil2)
next
  case Device_not_allowed
  obtain y' where "audit_live E X ''sync_tombstone_held'' (pt_id t)
      ''peer erasure held: device not in erase allowlist'' (bump held_report y) = Inr y'"
    "tomb_inv (y_store y')" "tomb_effect E X acc (y_store y) (y_store y')"
    using audit_live_result [OF dev, where y = "bump held_report y" and ts = acc, unfolded bump_store, OF inv rec] by blast
  then show ?thesis using Device_not_allowed
    by (intro exI [of _ y'] exI [of _ "[]"]) (simp only: apply_tomb_def tomb_verdict.simps prod.case rbind_simps append_Nil2)
next
  case (Admitted stored changed)
  define new where "new = acc @ [t\<lparr>pt_mapped := stored\<rparr>]"
  define held where "held = (case read_memory E (y_store y) (pt_id t) of None \<Rightarrow> False
    | Some r \<Rightarrow> tombstone_target_is_held r)"
  obtain y1 where m: "record_marker E X t stored y = Inr y1" and i1: "tomb_inv (y_store y1)"
    and rows: "st_rows (y_store y1) = st_rows (y_store y)" and e1: "tomb_effect E X new (y_store y) (y_store y1)"
    using record_marker_result [OF Admitted inv rec] by (auto simp: new_def)
  have rec1: "\<forall>u \<in> set new. recorded (y_store y1) u" using e1 by (simp add: tomb_effect_def)
  have get: "get_memory (y_store y1) i = get_memory (y_store y) i" for i by (simp add: get_memory_def rows)
  note run = apply_tomb_def Let_def prod.case Admitted tomb_verdict.simps new_def [symmetric] held_def [symmetric]
    live if_False m rbind_simps
  have "\<exists>y'. apply_tomb E X allow t (y, acc) = Inr (y', new) \<and> tomb_inv (y_store y') \<and>
      tomb_effect E X new (y_store y) (y_store y')"
  proof (cases held)
    case True
    obtain y' where a: "audit_live E X ''sync_tombstone_held'' (pt_id t)
        ''peer erasure held: local record is quarantined/pending review'' (bump held_report y1) = Inr y'"
      "tomb_inv (y_store y')" "tomb_effect E X new (y_store y1) (y_store y')"
      using audit_live_result [OF dev, where y = "bump held_report y1" and ts = new, unfolded bump_store, OF i1 rec1] by blast
    show ?thesis
      using tomb_effect_trans [OF e1 a(3)] a(2) by (simp only: run True if_True a(1)) simp
  next
    case False
    define y2 where "y2 = (if read_memory E (y_store y) (pt_id t) = None then y1
      else y1\<lparr>y_store := snd (erase_memory_rows E ''sync_tombstone'' (pt_id t) (y_store y1))\<rparr>)"
    have "tomb_inv (y_store y2) \<and> tomb_effect E X new (y_store y1) (y_store y2)"
    proof (cases "get_memory (y_store y) (pt_id t)")
      case None
      then show ?thesis using i1 effect_refl [OF rec1] by (simp add: y2_def unrestricted_read [OF free])
    next
      case (Some r)
      have "erasable E X r"
        using admitted_facts [OF Admitted free Some] False Some by (simp add: held_def unrestricted_read [OF free])
      moreover have "pt_id t \<in> pt_id ` set new" by (auto simp: new_def image_iff)
      ultimately show ?thesis
        using erase_step [OF i1 _ _ rec1, where i = "pt_id t"] Some
        by (simp add: y2_def unrestricted_read [OF free] get)
    qed
    then have y2: "tomb_inv (y_store y2)" "tomb_effect E X new (y_store y) (y_store y2)"
      using tomb_effect_trans [OF e1] by auto
    define y3 where "y3 = (if changed then bump applied_report y2 else y2)"
    have "apply_tomb E X allow t (y, acc) = Inr (y3, new)"
      by (simp only: run False y2_def [symmetric] simp_thms y3_def)
    then show ?thesis using y2 by (intro exI [of _ y3]) (simp add: y3_def)
  qed
  then show ?thesis by (auto simp: new_def)
qed


lemma fold_tombs_live:
  assumes "stable_device (e_lib E) (x_device X)" "e_allowed E = None" "\<not> x_dry X"
    and "tomb_inv (y_store y)" "\<forall>u \<in> set acc. recorded (y_store y) u"
  shows "\<exists>y' new. rfold (apply_tomb E X allow) ts (y, acc) = Inr (y', acc @ new) \<and>
    tomb_inv (y_store y') \<and> tomb_effect E X (acc @ new) (y_store y) (y_store y')"
  using assms(4,5)
proof (induction ts arbitrary: y acc)
  case Nil
  then show ?case by (intro exI [of _ y] exI [of _ "[]"]) (simp add: effect_refl)
next
  case (Cons t ts)
  obtain y1 new1 where s: "apply_tomb E X allow t (y, acc) = Inr (y1, acc @ new1)" "tomb_inv (y_store y1)"
    "tomb_effect E X (acc @ new1) (y_store y) (y_store y1)"
    using apply_tomb_live [OF assms(1,2) Cons.prems assms(3)] by blast
  then have "\<forall>u \<in> set (acc @ new1). recorded (y_store y1) u" by (simp add: tomb_effect_def)
  then obtain y2 new2 where r: "rfold (apply_tomb E X allow) ts (y1, acc @ new1) = Inr (y2, (acc @ new1) @ new2)"
    "tomb_inv (y_store y2)" "tomb_effect E X ((acc @ new1) @ new2) (y_store y1) (y_store y2)"
    using Cons.IH [OF s(2)] by blast
  have "tomb_effect E X ((acc @ new1) @ new2) (y_store y) (y_store y2)"
    by (rule tomb_effect_trans [OF s(3) r(3)]) auto
  then show ?case using s(1) r(1,2) by (intro exI [of _ y2] exI [of _ "new1 @ new2"]) simp
qed

lemma fold_tombs_dry:
  "x_dry X \<Longrightarrow> \<exists>y' acc'. rfold (apply_tomb E X allow) ts (y, acc) = Inr (y', acc') \<and> y_store y' = y_store y"
proof (induction ts arbitrary: y acc)
  case (Cons t ts)
  obtain y1 acc1 where s: "apply_tomb E X allow t (y, acc) = Inr (y1, acc1)" "y_store y1 = y_store y"
    using apply_tomb_dry [OF Cons.prems] by blast
  then show ?case using Cons.IH [OF Cons.prems, of y1 acc1] by simp
qed simp

lemma parse_tombs_total:
  assumes "stable_device L src"
  shows "\<exists>ts. parse_tombstones L src dicts = Inr ts"
proof -
  have "normalise_device_id L (JStr src) = Inr src" using assms by (simp add: stable_device_def)
  then have "\<exists>ps. rmap (parse_tomb L src) dicts = Inr ps" using parse_tomb_total by (intro rmap_total) blast
  then show ?thesis by (auto simp: parse_tombstones_def Let_def)
qed

lemma apply_tombs_total:
  assumes "stable_device (e_lib E) (x_device X)" "e_allowed E = None"
    and "store_ok (y_store y)" "tombs_ok (y_store y)"
  shows "\<exists>y' admitted. apply_tombstones E X allow dicts y = Inr (y', admitted) \<and>
    (if x_dry X then y_store y' = y_store y else tomb_effect E X admitted (y_store y) (y_store y'))"
proof -
  obtain ts where ts: "parse_tombstones (e_lib E) (x_device X) dicts = Inr ts"
    using parse_tombs_total [OF assms(1)] by blast
  let ?y = "bump (\<lambda>p. p\<lparr>rp_rejected := rp_rejected p + malformed_tombs dicts\<rparr>) y"
  have "tomb_inv (y_store ?y)" using assms(3,4) by (simp add: tomb_inv_def)
  then have "\<exists>y' acc. rfold (apply_tomb E X allow) ts (?y, []) = Inr (y', acc) \<and>
      (if x_dry X then y_store y' = y_store ?y else tomb_effect E X acc (y_store ?y) (y_store y'))"
    using fold_tombs_dry [of X E allow ts ?y "[]"] fold_tombs_live [OF assms(1,2), of ?y "[]" allow ts]
    by (cases "x_dry X") auto
  then show ?thesis unfolding apply_tombstones_def ts rbind_simps bump_store .
qed


lemma demo_stable: "stable_device content_lib dev_a"
  using demo_device by (simp add: stable_device_def dev_a_def)

lemma sync_env_simps [simp]: "e_lib sync_env = content_lib" "e_allowed sync_env = None"
  "x_device demo_target = dev_a" "x_workspace demo_target = ''ws_a''" "\<not> x_dry demo_target"
  "y_store demo_sync = demo_store"
  by (simp_all add: sync_env_def demo_env_def demo_target_def demo_sync_def)

lemma demo_tombs_ok: "store_ok demo_store" "tombs_ok demo_store"
  using reachable_ok [OF demo_reachable] by (simp_all add: tombs_ok_def demo_store_tables)


text \<open>
  C11: A peer erases only rows of the receiving workspace (and of the selected repository) that are
  not approved, secret, session bound, quarantined or awaiting review, and that an admitted marker
  names; an erased row leaves no row, mirror entry, vector or link. Every other row is unchanged. Every
  admitted marker is on record as a remote erasure no later than the peer's, and the markers
  already on record only move down their lattice.
\<close>

theorem peer_erasure_confined:
  assumes "apply_tombstones E X allow dicts y = Inr (y', admitted)" "\<not> x_dry X"
    and "stable_device (e_lib E) (x_device X)" "e_allowed E = None"
    and "store_ok (y_store y)" "tombs_ok (y_store y)"
  shows "(\<forall>i. get_memory (y_store y') i = get_memory (y_store y) i \<or>
      (\<exists>r. get_memory (y_store y) i = Some r \<and> erasable E X r) \<and> absent (y_store y') i \<and> i \<in> pt_id ` set admitted) \<and>
    (\<forall>t \<in> set admitted. recorded (y_store y') t) \<and> markers_below (y_store y) (y_store y')"
  using apply_tombs_total [OF assms(3-6), of allow dicts] assms(1,2) by (auto simp: tomb_effect_def)

theorem peer_erasure_confined_witness:
  "\<exists>y' admitted. apply_tombstones sync_env demo_target None [JNull, demo_tomb_entry] demo_sync = Inr (y', admitted) \<and>
     get_memory (y_store y') ''mem_a'' = Some demo_row"
proof -
  obtain y' admitted where run:
    "apply_tombstones sync_env demo_target None [JNull, demo_tomb_entry] demo_sync = Inr (y', admitted)"
    using apply_tombs_total [of sync_env demo_target demo_sync None "[JNull, demo_tomb_entry]"]
      demo_stable demo_tombs_ok by auto
  have row: "get_memory demo_store ''mem_a'' = Some demo_row" by (simp add: demo_store_tables)
  have "\<not> erasable sync_env demo_target demo_row"
    using demo_trusted by (simp add: erasable_def protected_row_def prompt_eligible_def)
  moreover have "\<forall>i. get_memory (y_store y') i = get_memory demo_store i \<or>
      (\<exists>r. get_memory demo_store i = Some r \<and> erasable sync_env demo_target r) \<and> absent (y_store y') i \<and>
      i \<in> pt_id ` set admitted"
    using peer_erasure_confined [OF run] demo_stable demo_tombs_ok by simp
  ultimately show ?thesis using run row by (metis option.inject)
qed

end
