(* ===== verification/Visibility.thy ===== *)
theory Visibility
  imports StoreSteps
begin

text \<open>
  Which rows a read sees (\<^verbatim>\<open>engraphis/core/store.py\<close>): the SQL conditions of \<open>_where\<close> with the
  temporal ones of \<open>_memory_temporal_visibility_sql\<close>, the same rules in Python
  (\<open>memory_matches_filter\<close>), and the listings built on them.

  A SQL condition has three values, \<open>None\<close> standing for NULL; a row is selected when the
  conjunction of the conditions is true. The closures of a row are its \<open>memory_closures\<close> rows.

  Lemmas: the two ways of filtering select the same rows; a read with ancestors stays inside
  its session and repository; what is learned later does not change a historical view.
\<close>

section \<open>SQL conditions\<close>

type_synonym tri = "bool option"

fun tri_and :: "tri \<Rightarrow> tri \<Rightarrow> tri" where
  "tri_and (Some False) _ = Some False"
| "tri_and _ (Some False) = Some False"
| "tri_and (Some True) b = b"
| "tri_and None _ = None"

definition tri_not :: "tri \<Rightarrow> tri" where
  "tri_not a = map_option Not a"

definition tri_or :: "tri \<Rightarrow> tri \<Rightarrow> tri" where
  "tri_or a b = tri_not (tri_and (tri_not a) (tri_not b))"

definition sql_all :: "tri list \<Rightarrow> tri" where "sql_all cs = foldr tri_and cs (Some True)"
definition sql_any :: "tri list \<Rightarrow> tri" where "sql_any cs = foldr tri_or cs (Some False)"

definition sql_cmp :: "('a \<Rightarrow> 'b \<Rightarrow> bool) \<Rightarrow> 'a option \<Rightarrow> 'b option \<Rightarrow> tri" where
  "sql_cmp rel a b = (case (a, b) of (Some x, Some y) \<Rightarrow> Some (rel x y) | _ \<Rightarrow> None)"

definition sql_null :: "'a option \<Rightarrow> tri" where "sql_null a = Some (a = None)"

definition sql_in :: "'a option \<Rightarrow> 'a list \<Rightarrow> tri" where
  "sql_in a xs = (if xs = [] then Some False else sql_cmp (\<in>) a (Some (set xs)))"

definition selected :: "tri list \<Rightarrow> bool" where "selected cs \<longleftrightarrow> sql_all cs = Some True"

section \<open>The filter as SQL\<close>

definition given :: "string option \<Rightarrow> bool" where
  "given x \<longleftrightarrow> (case x of None \<Rightarrow> False | Some w \<Rightarrow> w \<noteq> [])"

text \<open>The world_at-time and the system-time anchor of a read.\<close>

definition temporal_anchors :: "pylib \<Rightarrow> search_filter option \<Rightarrow> real option \<Rightarrow> real \<times> real" where
  "temporal_anchors L flt valid_at =
     (let world_at = (case valid_at of Some t \<Rightarrow> Some t | None \<Rightarrow> (case flt of None \<Rightarrow> None | Some f \<Rightarrow> f_valid_at f));
          known_at = (case flt of None \<Rightarrow> None | Some f \<Rightarrow> f_known_at f)
      in (case world_at of None \<Rightarrow> lib_now L | Some t \<Rightarrow> t, case known_at of None \<Rightarrow> lib_now L | Some t \<Rightarrow> t))"

text \<open>The interval conditions of a row or of a link, on its five temporal columns.\<close>

definition interval_sql :: "real \<Rightarrow> real \<Rightarrow> real option \<Rightarrow> real option \<Rightarrow> real option \<Rightarrow> real option \<Rightarrow> real option \<Rightarrow> tri list" where
  "interval_sql world_at known_at begun ended recorded ingested expired =
     [sql_any [sql_null begun, sql_cmp (\<le>) begun (Some world_at)],
      sql_any [sql_null ended, sql_cmp (<) (Some world_at) ended,
               sql_all [tri_not (sql_null recorded), sql_cmp (<) (Some known_at) recorded]],
      sql_any [sql_null ingested, sql_cmp (\<le>) ingested (Some known_at)],
      sql_any [sql_null expired, sql_cmp (<) (Some known_at) expired]]"

definition temporal_sql :: "real \<Rightarrow> real \<Rightarrow> memory_record \<Rightarrow> tri list" where
  "temporal_sql world_at known_at r =
     interval_sql world_at known_at (valid_from r) (valid_to r) (valid_to_recorded_at r) (ingested_at r) (expired_at r)"

definition closure_sql :: "real \<Rightarrow> real \<Rightarrow> memory_record \<Rightarrow> tri" where
  \<comment> \<open>\<open>NOT EXISTS\<close> over the closures of the row\<close>
  "closure_sql world_at known_at r =
     Some (\<not> list_ex (\<lambda>(e, recorded). selected [sql_cmp (\<le>) (Some e) (Some world_at),
        sql_any [sql_null recorded, sql_cmp (\<le>) recorded (Some known_at)]]) (closure_observations r))"

definition memory_temporal_sql :: "pylib \<Rightarrow> search_filter option \<Rightarrow> memory_record \<Rightarrow> tri list" where
  "memory_temporal_sql L flt r =
     (case temporal_anchors L flt None of (world_at, known_at) \<Rightarrow>
        temporal_sql world_at known_at r @ [closure_sql world_at known_at r])"

definition scope_is :: "scope \<Rightarrow> memory_record \<Rightarrow> tri" where
  "scope_is c r = Some (scope r = c)"

definition ancestor_sql :: "search_filter \<Rightarrow> memory_record \<Rightarrow> tri" where
  "ancestor_sql f r =
     (let shared = Some (scope r \<in> {WORKSPACE, USER});
          session = sql_all [scope_is SESSION r, sql_cmp (=) (session_id r) (f_session_id f)];
          repo = sql_all [scope_is REPO r, sql_cmp (=) (repo_id r) (f_repo_id f)]
      in if given (f_session_id f) then
           (if given (f_repo_id f) then sql_any [session, repo, shared] else sql_any [session, shared])
         else if given (f_repo_id f) then sql_any [repo, shared]
         else tri_not (scope_is SESSION r))"

definition filter_sql :: "search_filter \<Rightarrow> memory_record \<Rightarrow> tri list" where
  "filter_sql f r =
     (if given (f_workspace_id f) then [sql_cmp (=) (workspace_id r) (f_workspace_id f)] else []) @
     (if f_include_ancestors f then [ancestor_sql f r]
      else (if given (f_repo_id f) then [sql_cmp (=) (repo_id r) (f_repo_id f)] else []) @
           (if given (f_session_id f) then [sql_cmp (=) (session_id r) (f_session_id f)] else [])) @
     (case f_scopes f of None \<Rightarrow> [] | Some cs \<Rightarrow> [sql_in (Some (scope r)) cs]) @
     (case f_mtypes f of None \<Rightarrow> [] | Some ms \<Rightarrow> [sql_in (Some (mtype r)) ms]) @
     (case f_modified_since f of None \<Rightarrow> [] | Some t \<Rightarrow> [sql_cmp (\<ge>) (ingested_at r) (Some t)])"

definition where_sql :: "store_env \<Rightarrow> search_filter option \<Rightarrow> bool \<Rightarrow> memory_record \<Rightarrow> tri list" where
  "where_sql E flt include_invalid r =
     (case e_allowed E of None \<Rightarrow> [] | Some ws \<Rightarrow> [sql_in (workspace_id r) ws]) @
     (case flt of None \<Rightarrow> [] | Some f \<Rightarrow> filter_sql f r) @
     (if include_invalid then [] else memory_temporal_sql (e_lib E) flt r)"

section \<open>The filter in Python\<close>

definition ancestor_visible :: "search_filter \<Rightarrow> memory_record \<Rightarrow> bool" where
  "ancestor_visible f r \<longleftrightarrow>
     (if given (f_session_id f) then
        (case scope r of
           SESSION \<Rightarrow> session_id r = f_session_id f
         | REPO \<Rightarrow> given (f_repo_id f) \<and> repo_id r = f_repo_id f
         | _ \<Rightarrow> True)
      else if given (f_repo_id f) then
        (case scope r of SESSION \<Rightarrow> False | REPO \<Rightarrow> repo_id r = f_repo_id f | _ \<Rightarrow> True)
      else scope r \<noteq> SESSION)"

definition filter_visible :: "search_filter \<Rightarrow> memory_record \<Rightarrow> bool" where
  "filter_visible f r \<longleftrightarrow>
     \<not> (given (f_workspace_id f) \<and> workspace_id r \<noteq> f_workspace_id f) \<and>
     (if f_include_ancestors f then ancestor_visible f r
      else \<not> (given (f_repo_id f) \<and> repo_id r \<noteq> f_repo_id f) \<and>
           \<not> (given (f_session_id f) \<and> session_id r \<noteq> f_session_id f)) \<and>
     (case f_scopes f of None \<Rightarrow> True | Some cs \<Rightarrow> scope r \<in> set cs) \<and>
     (case f_mtypes f of None \<Rightarrow> True | Some ms \<Rightarrow> mtype r \<in> set ms) \<and>
     (case f_modified_since f of None \<Rightarrow> True
      | Some t \<Rightarrow> \<not> max (case ingested_at r of None \<Rightarrow> 0 | Some i \<Rightarrow> i) 0 < t)"

definition memory_matches_filter :: "pylib \<Rightarrow> memory_record \<Rightarrow> search_filter option \<Rightarrow> real option \<Rightarrow> bool \<Rightarrow> bool result" where
  "memory_matches_filter L r flt at_time include_invalid =
     (if (case flt of None \<Rightarrow> False | Some f \<Rightarrow> \<not> filter_visible f r) then Inr False
      else if include_invalid then Inr True
      else
        case temporal_anchors L flt at_time of (valid_at, known_at) \<Rightarrow>
          if (case ingested_at r of None \<Rightarrow> False | Some i \<Rightarrow> known_at < i) then Inr False
          else if (case expired_at r of None \<Rightarrow> False | Some e \<Rightarrow> e \<le> known_at) then Inr False
          else if (case valid_from r of None \<Rightarrow> False | Some v \<Rightarrow> valid_at < v) then Inr False
          else rbind (effective_valid_to r (Some known_at)) (\<lambda>valid_to.
            Inr (case valid_to of None \<Rightarrow> True | Some v \<Rightarrow> \<not> v \<le> valid_at)))"

section \<open>Listings\<close>

definition row_prompt_eligible :: "pylib \<Rightarrow> memory_record \<Rightarrow> bool" where
  "row_prompt_eligible L r = prompt_eligible L (JObj (provenance r)) (JObj (metadata r))"

text \<open>
  The rows of a query, latest first and those without a clock last; rows of one instant in the
  order of the table.
\<close>

definition query_rows :: "store_env \<Rightarrow> search_filter option \<Rightarrow> bool \<Rightarrow> store \<Rightarrow> memory_record list" where
  "query_rows E flt include_invalid s =
     sort_key (\<lambda>r. case ingested_at r of None \<Rightarrow> (True, 0) | Some t \<Rightarrow> (False, - t))
       (filter (\<lambda>r. selected (where_sql E flt include_invalid r)) (map snd (st_rows s)))"

definition limit_rows :: "int \<Rightarrow> 'a list \<Rightarrow> 'a list" where
  \<comment> \<open>\<open>LIMIT n\<close>, where a negative bound is no bound\<close>
  "limit_rows n xs = (if n < 0 then xs else take (nat n) xs)"

fun stream_eligible :: "pylib \<Rightarrow> int option \<Rightarrow> memory_record list \<Rightarrow> memory_record list \<Rightarrow> memory_record list" where
  "stream_eligible L limit [] out = out"
| "stream_eligible L limit (r # rs) out =
     (if \<not> row_prompt_eligible L r then stream_eligible L limit rs out
      else let out = out @ [r]
           in if (case limit of None \<Rightarrow> False | Some n \<Rightarrow> n \<le> int (length out)) then out
              else stream_eligible L limit rs out)"

definition list_memories :: "store_env \<Rightarrow> search_filter option \<Rightarrow> bool \<Rightarrow> int option \<Rightarrow> bool \<Rightarrow> store \<Rightarrow> memory_record list" where
  "list_memories E flt include_invalid limit prompt_only s =
     (let rows = query_rows E flt include_invalid s
      in if prompt_only then
           (if (case limit of None \<Rightarrow> False | Some n \<Rightarrow> n \<le> 0) then []
            else stream_eligible (e_lib E) limit rows [])
         else (case limit of None \<Rightarrow> rows | Some n \<Rightarrow> if n = 0 then rows else limit_rows n rows))"

definition list_memory_ids :: "store_env \<Rightarrow> search_filter option \<Rightarrow> bool \<Rightarrow> int option \<Rightarrow> bool \<Rightarrow> store \<Rightarrow> string list" where
  "list_memory_ids E flt include_invalid limit prompt_only s =
     (if (case limit of None \<Rightarrow> False | Some n \<Rightarrow> n \<le> 0) then []
      else
        let rows = query_rows E flt include_invalid s
        in map mem_id (if prompt_only then stream_eligible (e_lib E) limit rows []
             else (case limit of None \<Rightarrow> rows | Some n \<Rightarrow> limit_rows n rows)))"

section \<open>Evaluation of the conditions\<close>

lemma tri_and_True [sql_simps]: "tri_and a b = Some True \<longleftrightarrow> a = Some True \<and> b = Some True"
  by (cases "(a, b)" rule: tri_and.cases) auto

lemma tri_and_False [sql_simps]: "tri_and a b = Some False \<longleftrightarrow> a = Some False \<or> b = Some False"
  by (cases "(a, b)" rule: tri_and.cases) auto

lemma tri_not_True [sql_simps]: "tri_not a = Some True \<longleftrightarrow> a = Some False"
  by (auto simp: tri_not_def)

lemma tri_not_False [sql_simps]: "tri_not a = Some False \<longleftrightarrow> a = Some True"
  by (auto simp: tri_not_def)

lemma tri_or_True [sql_simps]: "tri_or a b = Some True \<longleftrightarrow> a = Some True \<or> b = Some True"
  by (simp add: tri_or_def sql_simps)

lemma sql_all_simps [sql_simps]:
  "sql_all [] = Some True" "sql_all (c # cs) = Some True \<longleftrightarrow> c = Some True \<and> sql_all cs = Some True"
  by (simp_all add: sql_all_def sql_simps)

lemma sql_any_simps [sql_simps]:
  "sql_any [] = Some False" "sql_any (c # cs) = Some True \<longleftrightarrow> c = Some True \<or> sql_any cs = Some True"
  by (simp_all add: sql_any_def sql_simps)

lemma selected_simps [sql_simps]:
  "selected []" "selected (c # cs) \<longleftrightarrow> c = Some True \<and> selected cs"
  "selected (cs @ ds) \<longleftrightarrow> selected cs \<and> selected ds"
proof -
  show "selected []" and c: "selected (c # cs) \<longleftrightarrow> c = Some True \<and> selected cs" for c cs
    by (simp_all add: selected_def sql_simps)
  show "selected (cs @ ds) \<longleftrightarrow> selected cs \<and> selected ds"
    by (induction cs) (auto simp: selected_def sql_simps)
qed

lemma sql_cmp_True [sql_simps]: "sql_cmp rel a b = Some True \<longleftrightarrow> (\<exists>x y. a = Some x \<and> b = Some y \<and> rel x y)"
  by (auto simp: sql_cmp_def split: option.splits)

lemma sql_null_True [sql_simps]: "sql_null a = Some True \<longleftrightarrow> a = None" "sql_null a = Some False \<longleftrightarrow> a \<noteq> None"
  by (auto simp: sql_null_def)

lemma sql_in_True [sql_simps]: "sql_in a xs = Some True \<longleftrightarrow> (\<exists>x \<in> set xs. a = Some x)"
  by (auto simp: sql_in_def sql_cmp_True)

lemma given_Some: "given x \<longleftrightarrow> (\<exists>w. x = Some w \<and> w \<noteq> [])"
  by (auto simp: given_def split: option.splits)


section \<open>The two filters agree\<close>

lemma ancestor_agree: "ancestor_sql f r = Some True \<longleftrightarrow> ancestor_visible f r"
  by (cases "scope r") (auto simp: ancestor_sql_def ancestor_visible_def Let_def sql_simps scope_is_def given_Some)

text \<open>An observation that closes a view: it was known and its end had come.\<close>

definition closes :: "real \<Rightarrow> real \<Rightarrow> observation \<Rightarrow> bool" where
  "closes world_at known_at ob \<longleftrightarrow>
     fst ob \<le> world_at \<and> (case snd ob of None \<Rightarrow> True | Some t \<Rightarrow> t \<le> known_at)"

lemma closure_agree:
  "closure_sql world_at known_at r = Some True \<longleftrightarrow> (\<forall>ob \<in> set (closure_observations r). \<not> closes world_at known_at ob)"
proof -
  have "selected [sql_cmp (\<le>) (Some e) (Some world_at), sql_any [sql_null q, sql_cmp (\<le>) q (Some known_at)]]
      \<longleftrightarrow> closes world_at known_at (e, q)" for e q
    by (cases q) (simp_all add: sql_simps closes_def)
  then show ?thesis by (auto simp: closure_sql_def list_ex_iff)
qed

lemma scalar_agree:
  "sql_any [sql_null e, sql_cmp (<) (Some world_at) e,
      sql_all [tri_not (sql_null q), sql_cmp (<) (Some known_at) q]] = Some True
    \<longleftrightarrow> (case e of None \<Rightarrow> True | Some t \<Rightarrow> \<not> closes world_at known_at (t, q))"
  by (cases e; cases q) (simp_all add: sql_simps closes_def not_le)

lemma record_obs_split:
  "(\<forall>ob \<in> record_obs r. \<not> closes w k ob) \<longleftrightarrow>
    (\<forall>ob \<in> set (closure_observations r). \<not> closes w k ob) \<and>
    (case valid_to r of None \<Rightarrow> True | Some t \<Rightarrow> \<not> closes w k (t, valid_to_recorded_at r))"
  by (cases "valid_to r") (auto simp: record_obs_def obs_set_def)

text \<open>The scalar interval and the closures together are the observations of the record.\<close>

lemma ends_agree:
  assumes "card (record_obs r) \<le> MAX_CLOSURE_OBSERVATIONS"
  shows "(\<exists>v. effective_valid_to r (Some known_at) = Inr v \<and> (case v of None \<Rightarrow> True | Some e \<Rightarrow> world_at < e)) \<longleftrightarrow>
    (\<forall>ob \<in> record_obs r. \<not> closes world_at known_at ob)"
proof -
  let ?K = "known_ends (record_obs r) (Some known_at)"
  have "finite (record_obs r)" by (cases "valid_to r") (simp_all add: record_obs_def obs_set_def)
  then have fin: "finite ?K" by (rule finite_known_ends)
  have "(\<exists>v. effective_valid_to r (Some known_at) = Inr v \<and> (case v of None \<Rightarrow> True | Some e \<Rightarrow> world_at < e)) \<longleftrightarrow>
      (\<forall>e \<in> ?K. world_at < e)"
  proof (cases "?K = {}")
    case True
    then show ?thesis using assms by (simp add: effective_valid_to_Inr_iff)
  next
    case False
    then show ?thesis using assms fin by (simp add: effective_valid_to_Inr_iff)
  qed
  also have "\<dots> \<longleftrightarrow> (\<forall>ob \<in> record_obs r. \<not> closes world_at known_at ob)"
    by (auto simp: known_ends_def closes_def not_le split: option.splits) force+
  finally show ?thesis .
qed

lemma temporal_selected:
  "selected (temporal_sql world_at known_at r @ [closure_sql world_at known_at r]) \<longleftrightarrow>
    (case valid_from r of None \<Rightarrow> True | Some v \<Rightarrow> v \<le> world_at) \<and>
    (case ingested_at r of None \<Rightarrow> True | Some i \<Rightarrow> i \<le> known_at) \<and>
    (case expired_at r of None \<Rightarrow> True | Some e \<Rightarrow> known_at < e) \<and>
    (\<forall>ob \<in> record_obs r. \<not> closes world_at known_at ob)"
proof -
  have upto: "sql_any [sql_null a, sql_cmp (\<le>) a (Some b)] = Some True \<longleftrightarrow> (case a of None \<Rightarrow> True | Some v \<Rightarrow> v \<le> b)"
    for a and b :: real by (cases a) (simp_all add: sql_simps)
  have after: "sql_any [sql_null a, sql_cmp (<) (Some b) a] = Some True \<longleftrightarrow> (case a of None \<Rightarrow> True | Some v \<Rightarrow> b < v)"
    for a and b :: real by (cases a) (simp_all add: sql_simps)
  show ?thesis
    unfolding temporal_sql_def interval_sql_def selected_simps upto after scalar_agree closure_agree record_obs_split
    using selected_simps(1) by blast
qed

text \<open>Rows that differ only in observations that close no view at the anchors look alike.\<close>

definition same_view :: "real \<Rightarrow> real \<Rightarrow> memory_record \<Rightarrow> memory_record \<Rightarrow> bool" where
  "same_view w k r r' \<longleftrightarrow>
     workspace_id r' = workspace_id r \<and> repo_id r' = repo_id r \<and> session_id r' = session_id r \<and>
     scope r' = scope r \<and> mtype r' = mtype r \<and> valid_from r' = valid_from r \<and>
     ingested_at r' = ingested_at r \<and> expired_at r' = expired_at r \<and>
     (\<forall>ob. closes w k ob \<longrightarrow> (ob \<in> record_obs r' \<longleftrightarrow> ob \<in> record_obs r))"

lemma same_view_refl: "same_view w k r r"
  by (simp add: same_view_def)

lemma same_view_selected:
  assumes "same_view w k r r'" "temporal_anchors (e_lib E) flt None = (w, k)"
  shows "selected (where_sql E flt invalid r') = selected (where_sql E flt invalid r)"
proof -
  have e: "workspace_id r' = workspace_id r" "repo_id r' = repo_id r" "session_id r' = session_id r"
      "scope r' = scope r" "mtype r' = mtype r" "valid_from r' = valid_from r"
      "ingested_at r' = ingested_at r" "expired_at r' = expired_at r"
    and o: "\<And>ob. closes w k ob \<Longrightarrow> ob \<in> record_obs r' \<longleftrightarrow> ob \<in> record_obs r"
    using assms(1) unfolding same_view_def by blast+
  have f: "filter_sql f r' = filter_sql f r" for f
    unfolding filter_sql_def ancestor_sql_def scope_is_def e by (rule refl)
  have "selected (memory_temporal_sql (e_lib E) flt r') = selected (memory_temporal_sql (e_lib E) flt r)"
    unfolding memory_temporal_sql_def assms(2) prod.case temporal_selected e using o by blast
  then show ?thesis unfolding where_sql_def selected_simps(3) e f by simp
qed

lemma scoped_agree: "selected (if given x then [sql_cmp (=) y x] else []) \<longleftrightarrow> \<not> (given x \<and> y \<noteq> x)"
  by (auto simp: sql_simps given_Some)

lemma listed_agree:
  "selected (case xs of None \<Rightarrow> [] | Some cs \<Rightarrow> [sql_in (Some a) cs]) \<longleftrightarrow> (case xs of None \<Rightarrow> True | Some cs \<Rightarrow> a \<in> set cs)"
  by (cases xs) (auto simp: sql_simps)

text \<open>A row has a clock that is not negative, or the filter asks for a later one.\<close>

definition clock_comparable :: "search_filter \<Rightarrow> memory_record \<Rightarrow> bool" where
  "clock_comparable f r \<longleftrightarrow>
     (case f_modified_since f of None \<Rightarrow> True
      | Some t \<Rightarrow> 0 < t \<or> (case ingested_at r of None \<Rightarrow> False | Some i \<Rightarrow> 0 \<le> i))"

lemma since_agree:
  assumes "clock_comparable f r"
  shows "selected (case f_modified_since f of None \<Rightarrow> [] | Some t \<Rightarrow> [sql_cmp (\<ge>) (ingested_at r) (Some t)]) \<longleftrightarrow>
    (case f_modified_since f of None \<Rightarrow> True
      | Some t \<Rightarrow> \<not> max (case ingested_at r of None \<Rightarrow> 0 | Some i \<Rightarrow> i) 0 < t)"
  using assms
  by (cases "f_modified_since f"; cases "ingested_at r") (auto simp: clock_comparable_def sql_simps max_def)

lemma filter_agree:
  assumes "clock_comparable f r"
  shows "selected (filter_sql f r) \<longleftrightarrow> filter_visible f r"
proof -
  have "selected (if f_include_ancestors f then [ancestor_sql f r]
      else (if given (f_repo_id f) then [sql_cmp (=) (repo_id r) (f_repo_id f)] else []) @
           (if given (f_session_id f) then [sql_cmp (=) (session_id r) (f_session_id f)] else [])) \<longleftrightarrow>
     (if f_include_ancestors f then ancestor_visible f r
      else \<not> (given (f_repo_id f) \<and> repo_id r \<noteq> f_repo_id f) \<and>
           \<not> (given (f_session_id f) \<and> session_id r \<noteq> f_session_id f))"
    by (simp add: selected_simps ancestor_agree scoped_agree)
  then show ?thesis
    unfolding filter_sql_def filter_visible_def selected_simps(3) scoped_agree listed_agree since_agree [OF assms] by simp
qed


lemma stored_bounded: "row_ok r \<Longrightarrow> card (record_obs r) \<le> MAX_CLOSURE_OBSERVATIONS"
proof -
  assume ok: "row_ok r"
  then have c: "canonical (closure_observations r)" "obs_set [] (valid_to r) (valid_to_recorded_at r) \<subseteq> set (closure_observations r)"
    unfolding row_ok_def wf_record_def by blast+
  have "record_obs r = set (closure_observations r)"
    using c(2) by (auto simp: record_obs_def obs_set_def split: option.splits)
  then show ?thesis using c(1) canonical_card by metis
qed

section \<open>Listings\<close>

lemma stream_take:
  assumes "case limit of None \<Rightarrow> True | Some n \<Rightarrow> int (length out) < n"
  shows "stream_eligible L limit rs out =
    (case limit of None \<Rightarrow> out @ filter (row_prompt_eligible L) rs
     | Some n \<Rightarrow> take (nat n) (out @ filter (row_prompt_eligible L) rs))"
  using assms
proof (induction rs arbitrary: out)
  case Nil
  then show ?case by (auto split: option.splits)
next
  case (Cons r rs)
  show ?case
  proof (cases "row_prompt_eligible L r")
    case True
    show ?thesis
    proof (cases limit)
      case (Some n)
      then have n: "int (length out) < n" using Cons.prems by simp
      show ?thesis
      proof (cases "n \<le> int (length out) + 1")
        case True
        then have "nat n = length (out @ [r])" using n by simp
        then have "take (nat n) ((out @ [r]) @ xs) = out @ [r]" for xs by simp
        then show ?thesis using \<open>row_prompt_eligible L r\<close> True Some by simp
      next
        case False
        then show ?thesis using \<open>row_prompt_eligible L r\<close> Cons.IH [of "out @ [r]"] Some by (simp add: Let_def)
      qed
    qed (use True Cons.IH [of "out @ [r]"] in \<open>simp add: Let_def\<close>)
  next
    case False
    then show ?thesis using Cons by (cases limit) simp_all
  qed
qed

lemma prompt_listing:
  "list_memories E flt invalid limit True s =
    (let rows = filter (row_prompt_eligible (e_lib E)) (query_rows E flt invalid s)
     in case limit of None \<Rightarrow> rows | Some n \<Rightarrow> take (nat n) rows)"
  using stream_take [where limit = limit and out = "[]"]
  by (auto simp: list_memories_def Let_def split: option.splits)

lemma set_limit_rows: "set (limit_rows n xs) \<subseteq> set xs"
  by (auto simp: limit_rows_def dest: in_set_takeD)

lemma listed_selected:
  assumes "r \<in> set (list_memories E flt invalid limit prompt_only s)"
  shows "selected (where_sql E flt invalid r) \<and> r \<in> set (map snd (st_rows s)) \<and>
    (prompt_only \<longrightarrow> row_prompt_eligible (e_lib E) r)"
proof -
  have "r \<in> set (query_rows E flt invalid s) \<and> (prompt_only \<longrightarrow> row_prompt_eligible (e_lib E) r)"
  proof (cases prompt_only)
    case True
    then show ?thesis
      using assms prompt_listing [of E flt invalid limit s] by (auto simp: Let_def split: option.splits dest: in_set_takeD)
  next
    case False
    then show ?thesis
      using assms set_limit_rows [of _ "query_rows E flt invalid s"]
      by (auto simp: list_memories_def Let_def split: option.splits if_splits)
  qed
  then show ?thesis by (auto simp: query_rows_def)
qed

section \<open>Closing\<close>

lemma stored_obs: "row_ok r \<Longrightarrow> record_obs r = set (closure_observations r)"
proof -
  assume "row_ok r"
  then have "obs_set [] (valid_to r) (valid_to_recorded_at r) \<subseteq> set (closure_observations r)"
    unfolding row_ok_def wf_record_def by blast
  then show ?thesis by (auto simp: record_obs_def obs_set_def split: option.splits)
qed

lemma closed_same_view:
  assumes "row_ok r" "\<not> closes w k new"
    and r1: "r1 = r\<lparr>closure_observations := sort_key obs_key (List.insert new (closure_observations r))\<rparr>"
  shows "same_view w k r r1" "same_view w k r (r1\<lparr>valid_to := Some (fst new), valid_to_recorded_at := snd new\<rparr>)"
proof -
  have o: "record_obs r = set (closure_observations r)" by (rule stored_obs [OF assms(1)])
  have "record_obs r1 = insert new (record_obs r)"
    using o by (auto simp: r1 record_obs_def obs_set_def)
  then show "same_view w k r r1" using assms(2) by (auto simp: same_view_def r1)
  have "record_obs (r1\<lparr>valid_to := Some (fst new), valid_to_recorded_at := snd new\<rparr>) = insert new (record_obs r)"
    unfolding o by (auto simp: r1 record_obs_def obs_set_def)
  then show "same_view w k r (r1\<lparr>valid_to := Some (fst new), valid_to_recorded_at := snd new\<rparr>)"
    using assms(2) by (auto simp: same_view_def r1)
qed

lemma close_same_view:
  assumes "close_validity E mid end_at actor reason s = Inr s'" "store_ok s" "k < lib_now (e_lib E)" "get_memory s i = Some r"
  shows "\<exists>r'. get_memory s' i = Some r' \<and> same_view w k r r'"
proof -
  define new where "new = ((case end_at of None \<Rightarrow> lib_now (e_lib E) | Some t \<Rightarrow> t), Some (lib_now (e_lib E)))"
  obtain s1 where a: "audit (e_lib E) actor ''invalidate'' mid reason s1 = Inr s'"
    and s1: "s1 = s \<or> (\<exists>x x'. get_memory s mid = Some x \<and>
      x' = x\<lparr>closure_observations := sort_key obs_key (List.insert new (closure_observations x))\<rparr> \<and>
      s1 = put_row (if (case valid_to x of None \<Rightarrow> True | Some vt \<Rightarrow> vt > fst new)
                    then x'\<lparr>valid_to := Some (fst new), valid_to_recorded_at := snd new\<rparr> else x') s)"
    using assms(1)
    by (auto simp: close_validity_def rbind_eq_Inr_conv new_def Let_def not_le not_less
        split: option.splits if_splits)
  have n: "\<not> closes w k new" using assms(3) by (simp add: closes_def new_def)
  have "\<exists>r'. get_memory s1 i = Some r' \<and> same_view w k r r'"
    using s1
  proof (elim disjE exE conjE)
    assume "s1 = s"
    then show ?thesis using assms(4) same_view_refl by auto
  next
    fix x x'
    assume x: "get_memory s mid = Some x"
      and x': "x' = x\<lparr>closure_observations := sort_key obs_key (List.insert new (closure_observations x))\<rparr>"
      and s1: "s1 = put_row (if (case valid_to x of None \<Rightarrow> True | Some vt \<Rightarrow> vt > fst new)
                    then x'\<lparr>valid_to := Some (fst new), valid_to_recorded_at := snd new\<rparr> else x') s"
    have ok: "mem_id x = mid" "row_ok x" using get_ok [OF assms(2) x] by simp_all
    define z where "z = (if (case valid_to x of None \<Rightarrow> True | Some vt \<Rightarrow> vt > fst new)
                    then x'\<lparr>valid_to := Some (fst new), valid_to_recorded_at := snd new\<rparr> else x')"
    have z: "mem_id z = mid" by (simp add: z_def x' ok(1))
    have view: "same_view w k x z" unfolding z_def using closed_same_view [OF ok(2) n x'] by simp
    have "get_memory s1 i = (if i = mid then Some z else Some r)"
      using z assms(4) unfolding s1 z_def [symmetric] by (simp add: get_put)
    then show ?thesis using view same_view_refl x assms(4) by (cases "i = mid") auto
  qed
  then show ?thesis by (simp add: audit_get [OF a])
qed

section \<open>Properties\<close>


text \<open>
  C31: what a listing returns is inside its scope: rows of the workspaces the instance may read
  and of the workspace asked for, of no session but the one asked for, and with ancestors of no
  repository but the one asked for; a listing meant for a prompt holds eligible rows only.
\<close>

theorem listing_stays_in_scope:
  assumes "r \<in> set (list_memories E (Some f) invalid limit prompt_only s)"
  shows "(\<forall>ws. e_allowed E = Some ws \<longrightarrow> (\<exists>w \<in> set ws. workspace_id r = Some w)) \<and>
    (given (f_workspace_id f) \<longrightarrow> workspace_id r = f_workspace_id f) \<and>
    (f_include_ancestors f \<and> scope r = SESSION \<longrightarrow> given (f_session_id f) \<and> session_id r = f_session_id f) \<and>
    (f_include_ancestors f \<and> scope r = REPO \<and> (given (f_session_id f) \<or> given (f_repo_id f)) \<longrightarrow>
       given (f_repo_id f) \<and> repo_id r = f_repo_id f) \<and>
    (\<not> f_include_ancestors f \<and> given (f_session_id f) \<longrightarrow> session_id r = f_session_id f) \<and>
    (prompt_only \<longrightarrow> prompt_eligible (e_lib E) (JObj (provenance r)) (JObj (metadata r)))"
proof -
  note l = listed_selected [OF assms]
  then have w: "selected (case e_allowed E of None \<Rightarrow> [] | Some ws \<Rightarrow> [sql_in (workspace_id r) ws])"
    and f: "selected (filter_sql f r)"
    by (simp_all add: where_sql_def selected_simps(3))
  have "\<not> (given (f_workspace_id f) \<and> workspace_id r \<noteq> f_workspace_id f)"
    using f unfolding filter_sql_def selected_simps(3) scoped_agree by blast
  moreover have "ancestor_visible f r" if "f_include_ancestors f"
    using f that by (simp add: filter_sql_def selected_simps ancestor_agree)
  moreover have "session_id r = f_session_id f" if "\<not> f_include_ancestors f" "given (f_session_id f)"
    using f that by (auto simp: filter_sql_def selected_simps sql_cmp_True)
  ultimately show ?thesis
    using w l by (auto simp: ancestor_visible_def row_prompt_eligible_def sql_simps split: option.splits if_splits)
qed


text \<open>
  F: closing a row never changes what a read at an earlier system time sees, of that row or of
  any other.
\<close>

theorem history_is_immutable:
  assumes "close_validity E mid end_at actor reason s = Inr s'" "store_ok s" "get_memory s i = Some r"
    and "f_known_at f = Some k" "k < lib_now (e_lib E)"
  shows "\<exists>r'. get_memory s' i = Some r' \<and>
    selected (where_sql E (Some f) invalid r') = selected (where_sql E (Some f) invalid r)"
proof -
  obtain w where "temporal_anchors (e_lib E) (Some f) None = (w, k)"
    using assms(4) by (auto simp: temporal_anchors_def)
  then show ?thesis
    using close_same_view [OF assms(1,2,5,3), of w] same_view_selected by blast
qed


section \<open>Concrete reads\<close>

definition open_filter :: search_filter where
  "open_filter = \<lparr>f_workspace_id = None, f_repo_id = None, f_session_id = None, f_scopes = None, f_mtypes = None,
     f_graph_layers = None, f_as_of = None, f_include_ancestors = True, f_valid_at = None, f_known_at = Some (- 1),
     f_modified_since = None\<rparr>"

lemma demo_row_ok: "row_ok demo_row"
  using get_ok [OF reachable_ok [OF demo_reachable], of "''mem_a''" demo_row] by (simp add: demo_store_tables)

lemma demo_row_fields: "scope demo_row = REPO" "valid_from demo_row = Some 0" "closure_observations demo_row = []"
  by (simp_all add: demo_row_def default_clocks_def canonical_retention_def with_envelope_def Let_def demo_record_def
      plain_record_def blank_record_def content_lib_def default_time_def)


lemma listing_stays_in_scope_witness:
  "demo_row \<in> set (list_memories demo_env (Some open_filter) True None False demo_store) \<and> scope demo_row \<noteq> SESSION"
proof -
  have l: "demo_row \<in> set (list_memories demo_env (Some open_filter) True None False demo_store)"
    by (simp add: list_memories_def query_rows_def demo_store_tables where_sql_def filter_sql_def ancestor_sql_def
        open_filter_def given_def demo_env_def sql_simps scope_is_def demo_row_fields)
  show ?thesis
    using listing_stays_in_scope [OF l] l by (simp add: open_filter_def given_def)
qed

lemma history_is_immutable_witness:
  "\<exists>s' r'. close_validity demo_env ''mem_a'' None ''user'' [] demo_store = Inr s' \<and> get_memory s' ''mem_a'' = Some r' \<and>
    selected (where_sql demo_env (Some open_filter) False r') = selected (where_sql demo_env (Some open_filter) False demo_row)"
proof -
  have row: "get_memory demo_store ''mem_a'' = Some demo_row" by (simp add: demo_store_tables)
  have "validate_audit_actor ''user'' = Inr ''user''" by code_simp
  then obtain s' where s': "close_validity demo_env ''mem_a'' None ''user'' [] demo_store = Inr s'"
    by (auto simp: close_validity_def row demo_row_fields Let_def authorize_workspace_id_def demo_env_def
        MAX_CLOSURE_OBSERVATIONS_def audit_def content_lib_def)
  have "\<exists>r'. get_memory s' ''mem_a'' = Some r' \<and>
      selected (where_sql demo_env (Some open_filter) False r') = selected (where_sql demo_env (Some open_filter) False demo_row)"
    by (rule history_is_immutable [OF s' reachable_ok [OF demo_reachable] row, where k = "- 1"])
      (simp_all add: open_filter_def demo_env_def content_lib_def)
  with s' show ?thesis by blast
qed

text \<open>
  F: The two filters differ on a row without an ingestion clock: a bound of 0 on the modification
  time admits it in Python, where a missing clock counts as 0, and not in SQL, where the
  comparison with NULL is not true.
\<close>

theorem modified_since_paths_differ:
  "memory_matches_filter content_lib blank_record (Some (open_filter\<lparr>f_modified_since := Some 0\<rparr>)) None True = Inr True \<and>
   \<not> selected (where_sql demo_env (Some (open_filter\<lparr>f_modified_since := Some 0\<rparr>)) True blank_record)"
  by (simp add: memory_matches_filter_def filter_visible_def ancestor_visible_def open_filter_def given_def blank_record_def
      where_sql_def filter_sql_def sql_simps demo_env_def)

end
