(* ===== verification/SyncLinks.thy ===== *)
theory SyncLinks
  imports SyncTombs Visibility
begin

text \<open>
  The relationships of an untrusted bundle (\<open>_apply_links\<close> of \<^verbatim>\<open>engraphis/core/sync.py\<close>) on the link
  table of \<open>MemLinks\<close>: which entries are candidates, how a complete bi-temporal version and how a
  version without times are written, and the batch commits of the loop.

  Lemmas: a bundle only adds or supersedes versions, between rows of the receiving workspace that
  it applied itself and that may not enter a prompt; the metadata of links without times converge;
  an empty interval passes the checks of the loop and makes the store raise.
\<close>

section \<open>Candidates\<close>

record link_claim =
  lc_a :: string
  lc_b :: string
  lc_relation :: string
  lc_layer :: graph_layer
  lc_reason :: string

definition link_relation :: "pylib \<Rightarrow> obj \<Rightarrow> string" where
  "link_relation L d =
     (let c = clamp_str L (if py_truthy (jget d ''relation'') then jget d ''relation'' else JStr ''related'') 64
      in if c = [] then ''related'' else c)"

definition link_reason :: "pylib \<Rightarrow> obj \<Rightarrow> string" where
  "link_reason L d =
     clamp_str L (if py_truthy (jget d ''reason'') then jget d ''reason'' else JStr []) MAX_TITLE_CHARS"

text \<open>Rows a peer may connect: both in scope, the governed relations proven, neither trusted.\<close>

definition governed_ok :: "memory_record \<Rightarrow> memory_record \<Rightarrow> string \<Rightarrow> bool" where
  "governed_ok ma mb rel \<longleftrightarrow>
     (rel \<in> set GOVERNED_RELATIONS \<and> link_owner ma \<noteq> link_owner mb \<longrightarrow>
      validate_link_owner_rows ma mb rel True = Inr ())"

datatype link_verdict = Skipped | Refused_link | Candidate link_claim

definition endpoints_verdict :: "pylib \<Rightarrow> sync_target \<Rightarrow> memory_record \<Rightarrow> memory_record \<Rightarrow> link_claim \<Rightarrow> link_verdict" where
  "endpoints_verdict L X ma mb c =
     (if workspace_id ma \<noteq> Some (x_workspace X) \<or> workspace_id mb \<noteq> Some (x_workspace X) then Skipped
      else if x_only X \<noteq> None \<and> (repo_id ma \<noteq> x_only X \<or> repo_id mb \<noteq> x_only X) then Skipped
      else if \<not> governed_ok ma mb (lc_relation c) then Refused_link
      else if row_prompt_eligible L ma \<or> row_prompt_eligible L mb then Skipped
      else Candidate c)"

definition link_verdict_of :: "pylib \<Rightarrow> sync_target \<Rightarrow> record_map \<Rightarrow> json \<Rightarrow> link_verdict" where
  "link_verdict_of L X accepted entry =
     (if \<not> is_obj entry then Skipped
      else
        let d = as_obj entry; rel = link_relation L d; layer = normalize_graph_layer L (Raw (jget d ''layer'')) rel;
            reason = link_reason L d
        in if secret_kind L (JStr reason) \<noteq> None then Refused_link
           else (case (jget d ''a'', jget d ''b'') of
             (JStr a, JStr b) \<Rightarrow>
               if a = b then Skipped
               else (case (map_of accepted a, map_of accepted b) of
                 (Some ma, Some mb) \<Rightarrow>
                   endpoints_verdict L X ma mb
                     \<lparr>lc_a = a, lc_b = b, lc_relation = rel, lc_layer = layer, lc_reason = reason\<rparr>
               | _ \<Rightarrow> Skipped)
           | _ \<Rightarrow> Skipped))"

section \<open>Writing\<close>

definition TEMPORAL_FIELDS :: "string list" where
  "TEMPORAL_FIELDS = [''valid_from'', ''valid_to'', ''valid_to_recorded_at'', ''ingested_at'', ''expired_at'']"

definition peer_times :: "pylib \<Rightarrow> obj \<Rightarrow> link_times" where
  "peer_times L d =
     \<lparr>lt_from = clamp_world_ts L (jget d ''valid_from''), lt_to = clamp_world_ts L (jget d ''valid_to''),
      lt_recorded = clamp_ts L (jget d ''valid_to_recorded_at'') (lib_now L),
      lt_ingested = clamp_ts L (jget d ''ingested_at'') (lib_now L),
      lt_expired = clamp_ts L (jget d ''expired_at'') (lib_now L)\<rparr>"

text \<open>A partial, unreadable or reversed interval is rejected; an empty one is not.\<close>

definition times_refused :: "obj \<Rightarrow> link_times \<Rightarrow> bool" where
  "times_refused d t \<longleftrightarrow>
     \<not> jhas d ''valid_from'' \<or> \<not> jhas d ''ingested_at'' \<or> lt_from t = None \<or> lt_ingested t = None \<or>
     (lt_to t \<noteq> None \<and> the (lt_to t) < the (lt_from t)) \<or>
     list_ex (\<lambda>(f, v). jget d f \<noteq> JNull \<and> v = None)
       (zip TEMPORAL_FIELDS [lt_from t, lt_to t, lt_recorded t, lt_ingested t, lt_expired t])"

definition count_link :: "sync_report \<Rightarrow> sync_report" where
  "count_link p = p\<lparr>rp_links_added := Suc (rp_links_added p)\<rparr>"

definition count_link_update :: "sync_report \<Rightarrow> sync_report" where
  "count_link_update p = p\<lparr>rp_links_updated := Suc (rp_links_updated p)\<rparr>"

definition audit_link :: "store_env \<Rightarrow> sync_target \<Rightarrow> link_claim \<Rightarrow> store \<Rightarrow> store result" where
  "audit_link E X c s =
     audit (e_lib E) (peer_actor (e_lib E) (x_device X)) ''sync_link'' (lc_a c)
       (''linked to '' @ lc_b c @ '' with relation '' @ lc_relation c) s"

definition governed_claim :: "link_claim \<Rightarrow> bool" where
  "governed_claim c \<longleftrightarrow> lc_relation c \<in> set GOVERNED_RELATIONS"

definition write_link_version :: "store_env \<Rightarrow> sync_target \<Rightarrow> link_claim \<Rightarrow> link_times \<Rightarrow> sync_state \<Rightarrow> sync_state result" where
  "write_link_version E X c t y =
     (let s = y_store y;
          version = link_version (lc_a c) (lc_b c) (lc_relation c) (lc_layer c) (lc_reason c) (lib_now (e_lib E)) t
      in if list_ex (same_version version) (st_links s) then Inr y
         else rbind (if x_dry X then Inr s
                else rbind (add_link_version (e_lib E) (lc_a c) (lc_b c) (lc_relation c) (Layer (lc_layer c))
                              (lc_reason c) t (governed_claim c) s) (\<lambda>(inserted, s).
                       if inserted then audit_link E X c s else Inr s))
                (\<lambda>s. Inr (bump count_link (y\<lparr>y_store := s\<rparr>))))"

text \<open>A link without times joins the metadata of the live version.\<close>

definition write_plain_link :: "store_env \<Rightarrow> sync_target \<Rightarrow> link_claim \<Rightarrow> sync_state \<Rightarrow> sync_state result" where
  "write_plain_link E X c y =
     (let s = y_store y; L = e_lib E;
          write = (\<lambda>layer reason s. add_link L (lc_a c) (lc_b c) (lc_relation c) (Some (Layer layer)) reason no_times
            (governed_claim c) s)
      in case last_index (live_link (lc_a c) (lc_b c) (lc_relation c)) (st_links s) of
           Some i \<Rightarrow>
             let old = st_links s ! i;
                 layer = merge_graph_layers L (Layer (ln_layer old)) (Layer (lc_layer c)) (lc_relation c);
                 reason = max (ln_reason old) (lc_reason c)
             in if layer = ln_layer old \<and> reason = ln_reason old then Inr y
                else rbind (if x_dry X then Inr s else write layer reason s)
                       (\<lambda>s. Inr (bump count_link_update (y\<lparr>y_store := s\<rparr>)))
         | None \<Rightarrow>
             rbind (if x_dry X then Inr s else rbind (write (lc_layer c) (lc_reason c) s) (audit_link E X c))
               (\<lambda>s. Inr (bump count_link (y\<lparr>y_store := s\<rparr>))))"

definition write_link :: "store_env \<Rightarrow> sync_target \<Rightarrow> obj \<Rightarrow> link_claim \<Rightarrow> sync_state \<Rightarrow> sync_state result" where
  "write_link E X d c y =
     (if list_ex (jhas d) TEMPORAL_FIELDS then
        let t = peer_times (e_lib E) d
        in if times_refused d t then Inr (rejected y) else write_link_version E X c t y
      else write_plain_link E X c y)"

text \<open>
  The loop. Every 500th candidate commits what came before it; the first error rolls back to the
  last commit and stops.
\<close>

fun apply_links :: "store_env \<Rightarrow> sync_target \<Rightarrow> json list \<Rightarrow> nat \<Rightarrow> sync_state \<Rightarrow> sync_state \<Rightarrow>
    py_error option \<times> sync_state" where
  "apply_links E X [] pending committed y = (None, y)"
| "apply_links E X (entry # rest) pending committed y =
     (case link_verdict_of (e_lib E) X (y_accepted y) entry of
        Skipped \<Rightarrow> apply_links E X rest pending committed y
      | Refused_link \<Rightarrow> apply_links E X rest pending committed (rejected y)
      | Candidate c \<Rightarrow>
          let full = (APPLY_BATCH \<le> Suc pending);
              committed = (if full then y else committed); pending = (if full then 0 else Suc pending)
          in case write_link E X (as_obj entry) c y of
               Inl e \<Rightarrow> (Some e, committed)
             | Inr y \<Rightarrow> apply_links E X rest pending committed y)"

section \<open>What a bundle may do to the links\<close>

text \<open>A pair a peer may connect.\<close>

definition peer_pair :: "pylib \<Rightarrow> sync_target \<Rightarrow> record_map \<Rightarrow> string \<Rightarrow> string \<Rightarrow> bool" where
  "peer_pair L X accepted a b \<longleftrightarrow> a \<noteq> b \<and>
     (\<forall>i \<in> {a, b}. \<exists>r. map_of accepted i = Some r \<and> workspace_id r = Some (x_workspace X) \<and>
        (x_only X = None \<or> repo_id r = x_only X) \<and> \<not> row_prompt_eligible L r)"

lemma candidate_pair:
  "link_verdict_of L X accepted entry = Candidate c \<Longrightarrow> peer_pair L X accepted (lc_a c) (lc_b c)"
  by (auto simp: link_verdict_of_def endpoints_verdict_def peer_pair_def Let_def
      split: if_splits json.splits option.splits)

definition link_effect :: "pylib \<Rightarrow> sync_target \<Rightarrow> record_map \<Rightarrow> store \<Rightarrow> store \<Rightarrow> bool" where
  "link_effect L X accepted s s' \<longleftrightarrow>
     (\<forall>i. get_memory s' i = get_memory s i) \<and> st_tombs s' = st_tombs s \<and> (links_ok s \<longrightarrow> links_ok s') \<and>
     links_grow (st_links s) (st_links s') \<and>
     (\<forall>j. length (st_links s) \<le> j \<and> j < length (st_links s') \<longrightarrow>
        peer_pair L X accepted (ln_a (st_links s' ! j)) (ln_b (st_links s' ! j)))"

lemma link_kept_ends: "link_kept l l' \<Longrightarrow> ln_a l' = ln_a l \<and> ln_b l' = ln_b l"
  by (auto simp: link_kept_def)

lemma link_kept_trans: "link_kept a b \<Longrightarrow> link_kept b c \<Longrightarrow> link_kept a c"
  by (auto simp: link_kept_def)

lemma links_grow_trans: "links_grow a b \<Longrightarrow> links_grow b c \<Longrightarrow> links_grow a c"
  unfolding links_grow_def by (meson le_trans less_le_trans link_kept_trans)

lemma link_effect_refl: "link_effect L X accepted s s"
  by (auto simp: link_effect_def links_grow_refl)

lemma link_effect_trans:
  assumes "link_effect L X accepted a b" "link_effect L X accepted b c"
  shows "link_effect L X accepted a c"
proof -
  have g: "links_grow (st_links a) (st_links b)" "links_grow (st_links b) (st_links c)"
    using assms by (simp_all add: link_effect_def)
  have "peer_pair L X accepted (ln_a (st_links c ! j)) (ln_b (st_links c ! j))"
    if j: "length (st_links a) \<le> j" "j < length (st_links c)" for j
  proof (cases "j < length (st_links b)")
    case True
    then have "link_kept (st_links b ! j) (st_links c ! j)" using g(2) by (simp add: links_grow_def)
    then show ?thesis
      using True j(1) assms(1) link_kept_ends by (simp add: link_effect_def)
  qed (use j(2) assms(2) in \<open>simp add: link_effect_def\<close>)
  then show ?thesis using assms links_grow_trans [OF g] by (simp add: link_effect_def)
qed

text \<open>A step of the store on a pair, and audit entries after it.\<close>

lemma links_step_effect:
  assumes "links_step s s'" "peer_pair L X accepted a b"
    and "\<And>j. length (st_links s) \<le> j \<Longrightarrow> j < length (st_links s') \<Longrightarrow> same_pair a b (st_links s' ! j)"
  shows "link_effect L X accepted s s'"
proof -
  have o: "only_links s s'" using assms(1) by (simp add: links_step_def)
  have "peer_pair L X accepted (ln_a l) (ln_b l)" if "same_pair a b l" for l
    using that assms(2) by (auto simp: same_pair_def peer_pair_def)
  then have "\<forall>j. length (st_links s) \<le> j \<and> j < length (st_links s') \<longrightarrow>
      peer_pair L X accepted (ln_a (st_links s' ! j)) (ln_b (st_links s' ! j))" using assms(3) by blast
  then show ?thesis
    using assms(1) only_links_tables(5,9) [OF o] unfolding link_effect_def links_step_def by blast
qed

lemma audit_effect:
  assumes "link_effect L X accepted s s1" "audit L' actor action target detail s1 = Inr s2"
  shows "link_effect L X accepted s s2"
  using assms(1)
  unfolding link_effect_def links_ok_def linked_def audit_get [OF assms(2)] audit_tables(6,9) [OF assms(2)] .

lemma new_link_pair:
  assumes "add_link L a b relation layer reason t w s = Inr s'" "length (st_links s) \<le> j" "j < length (st_links s')"
  shows "same_pair a b (st_links s' ! j)"
proof -
  have live: "same_pair a b (st_links s ! i)" if "last_index (live_link a b relation) (st_links s) = Some i" for i
    using last_index_Some [OF that] by (simp add: live_link_def)
  show ?thesis
    using assms live
    by (auto simp: add_link_def Let_def rbind_eq_Inr_conv append_link_def supersede_link_def link_version_def
        nth_append same_pair_def split: if_splits option.splits)
qed

lemma new_version_pair:
  assumes "add_link_version L a b relation layer reason t w s = Inr (new, s')"
    and "length (st_links s) \<le> j" "j < length (st_links s')"
  shows "same_pair a b (st_links s' ! j)"
  using assms
  by (auto simp: add_link_version_def Let_def rbind_eq_Inr_conv append_link_def link_version_def
      nth_append same_pair_def split: if_splits)

lemma write_link_effect:
  assumes "write_link E X d c y = Inr y'" "peer_pair (e_lib E) X acc (lc_a c) (lc_b c)"
  shows "link_effect (e_lib E) X acc (y_store y) (y_store y')" "y_accepted y' = y_accepted y"
proof -
  note add = links_step_effect [OF add_link_step assms(2) new_link_pair]
    and version = links_step_effect [OF add_link_version_step assms(2) new_version_pair]
  show "link_effect (e_lib E) X acc (y_store y) (y_store y')"
    using assms(1)
    by (auto simp: write_link_def write_link_version_def write_plain_link_def audit_link_def Let_def rbind_eq_Inr_conv
        link_effect_refl split: if_splits option.splits intro: add version audit_effect)
  show "y_accepted y' = y_accepted y"
    using assms(1)
    by (auto simp: write_link_def write_link_version_def write_plain_link_def Let_def rbind_eq_Inr_conv
        bump_def rejected_def split: if_splits option.splits)
qed

lemma apply_links_effect:
  assumes "apply_links E X entries pending committed y = (err, y')" "y_accepted y = acc"
    and "link_effect (e_lib E) X acc s (y_store y)" "link_effect (e_lib E) X acc s (y_store committed)"
  shows "link_effect (e_lib E) X acc s (y_store y')"
  using assms
proof (induction entries arbitrary: pending committed y)
  case (Cons entry rest)
  show ?case
  proof (cases "link_verdict_of (e_lib E) X acc entry")
    case Skipped
    then show ?thesis using Cons by simp
  next
    case Refused_link
    have "y_accepted (rejected y) = acc" using Cons.prems(2) by (simp add: rejected_def)
    then show ?thesis using Cons.prems Refused_link by (intro Cons.IH [of pending committed "rejected y"]) simp_all
  next
    case (Candidate c)
    define full where "full = (APPLY_BATCH \<le> Suc pending)"
    let ?c = "if full then y else committed" and ?p = "if full then 0 else Suc pending"
    have c: "link_effect (e_lib E) X acc s (y_store ?c)" using Cons.prems(3,4) by simp
    show ?thesis
    proof (cases "write_link E X (as_obj entry) c y")
      case (Inl e)
      then have "y' = ?c" using Cons.prems(1,2) Candidate by (simp add: Let_def full_def)
      then show ?thesis using c by simp
    next
      case (Inr y1)
      note w = write_link_effect [OF Inr candidate_pair [OF Candidate]]
      have "apply_links E X rest ?p ?c y1 = (err, y')"
        using Cons.prems(1,2) Candidate Inr by (simp add: Let_def full_def)
      then show ?thesis
        using Cons.IH [OF _ _ link_effect_trans [OF Cons.prems(3) w(1)] c] w(2) Cons.prems(2) by simp
    qed
  qed
qed simp

section \<open>Convergence of the metadata\<close>

definition meta_join :: "graph_layer \<times> string \<Rightarrow> graph_layer \<times> string \<Rightarrow> graph_layer \<times> string" where
  "meta_join m n = (layer_max (fst m) (fst n), max (snd m) (snd n))"

interpretation link_meta: convergent_merge "\<lambda>_. True" meta_join
proof unfold_locales
  show "meta_join a b = meta_join b a" for a b
    using layers.join_commute [of "fst a" "fst b"] by (simp add: meta_join_def max.commute)
  show "meta_join (meta_join a b) c = meta_join a (meta_join b c)" for a b c
    using layers.join_assoc [of "fst a" "fst b" "fst c"] by (simp add: meta_join_def max.assoc)
  show "meta_join a a = a" for a using layers.join_idem [of "fst a"] by (simp add: meta_join_def)
qed simp

text \<open>The metadata of the live version of a pair.\<close>

definition live_meta :: "string \<Rightarrow> string \<Rightarrow> string \<Rightarrow> store \<Rightarrow> (graph_layer \<times> string) option" where
  "live_meta a b relation s =
     map_option (\<lambda>i. (ln_layer (st_links s ! i), ln_reason (st_links s ! i)))
       (last_index (live_link a b relation) (st_links s))"

definition claim_meta :: "link_claim \<Rightarrow> graph_layer \<times> string" where
  "claim_meta c = (lc_layer c, lc_reason c)"

definition claims_pair :: "string \<Rightarrow> string \<Rightarrow> string \<Rightarrow> link_claim \<Rightarrow> bool" where
  "claims_pair a b relation c \<longleftrightarrow> lc_relation c = relation \<and> {lc_a c, lc_b c} = {a, b}"

lemma claims_live: "claims_pair a b relation c \<Longrightarrow> live_link (lc_a c) (lc_b c) (lc_relation c) = live_link a b relation"
  by (auto simp: claims_pair_def live_link_def same_pair_def doubleton_eq_iff fun_eq_iff)

lemma last_index_snoc: "last_index P (xs @ [x]) = (if P x then Some (length xs) else last_index P xs)"
  by (induction xs) (auto split: option.splits)

lemma live_meta_append:
  assumes "live_link a b relation l"
  shows "live_meta a b relation (s\<lparr>st_links := ls @ [l]\<rparr>) = Some (ln_layer l, ln_reason l)"
  using assms by (simp add: live_meta_def last_index_snoc)

lemma links_ok_not_plain:
  assumes "links_ok s"
  shows "\<not> list_ex (same_version (link_version a b relation layer reason stamp no_times)) (st_links s)"
  using assms by (auto simp: links_ok_def list_ex_iff same_version_def link_version_def no_times_def)

lemma add_link_meta:
  assumes "add_link L a b relation (Some (Layer layer)) reason no_times w s = Inr s'" "links_ok s"
    and "\<forall>old. live_meta a b relation s = Some old \<longrightarrow> (layer, reason) \<noteq> old \<and> snd old \<le> reason"
  shows "live_meta a b relation s' = Some (layer, reason)"
proof (cases "last_index (live_link a b relation) (st_links s)")
  case None
  then have "s' = append_link (link_version a b relation layer reason (lib_now L) (default_times (lib_now L) no_times)) s"
    using assms(1) links_ok_not_plain [OF assms(2)]
    by (auto simp: add_link_def Let_def rbind_eq_Inr_conv no_times_def interval_reversed_def split: if_splits)
  moreover have "live_link a b relation
      (link_version a b relation layer reason (lib_now L) (default_times (lib_now L) no_times))"
    by (simp add: live_link_def same_pair_def link_version_def default_times_def no_times_def)
  ultimately show ?thesis
    unfolding append_link_def using live_meta_append by (simp add: link_version_def)
next
  case (Some i)
  let ?old = "st_links s ! i"
  have i: "live_link a b relation ?old" using last_index_Some [OF Some] by blast
  have o: "(layer, reason) \<noteq> (ln_layer ?old, ln_reason ?old)" "ln_reason ?old \<le> reason"
    using assms(3) Some by (auto simp: live_meta_def)
  then have "(if reason \<noteq> [] then reason else ln_reason ?old) = reason" by (cases "ln_reason ?old") auto
  then have "s' = supersede_link L i layer reason s"
    using assms(1) links_ok_not_plain [OF assms(2)] Some o(1)
    by (auto simp: add_link_def Let_def rbind_eq_Inr_conv split: if_splits)
  then show ?thesis
    using i by (simp only: supersede_link_def Let_def)
      (subst live_meta_append; simp add: live_link_def same_pair_def)
qed

lemma live_meta_audit: "audit L actor action target detail s = Inr s' \<Longrightarrow> live_meta a b relation s' = live_meta a b relation s"
  by (simp add: live_meta_def audit_tables)

lemma plain_link_joins:
  assumes "write_plain_link E X c y = Inr y'" "claims_pair a b relation c" "\<not> x_dry X" "links_ok (y_store y)"
  shows "live_meta a b relation (y_store y') =
    Some (case live_meta a b relation (y_store y) of None \<Rightarrow> claim_meta c | Some m \<Rightarrow> meta_join m (claim_meta c))"
proof -
  let ?s = "y_store y"
  note eq = claims_live [OF assms(2)]
  have meta: "live_meta (lc_a c) (lc_b c) (lc_relation c) s = live_meta a b relation s" for s
    by (simp add: live_meta_def eq)
  show ?thesis
  proof (cases "last_index (live_link a b relation) (st_links ?s)")
    case None
    then obtain s1 where add: "add_link (e_lib E) (lc_a c) (lc_b c) (lc_relation c) (Some (Layer (lc_layer c)))
        (lc_reason c) no_times (governed_claim c) ?s = Inr s1" and "audit_link E X c s1 = Inr (y_store y')"
      using assms(1,3) by (auto simp: write_plain_link_def eq rbind_eq_Inr_conv Let_def)
    moreover have none: "live_meta a b relation ?s = None" using None by (simp add: live_meta_def)
    ultimately show ?thesis
      using add_link_meta [OF add assms(4)] live_meta_audit by (simp add: meta audit_link_def claim_meta_def)
  next
    case (Some i)
    let ?old = "(ln_layer (st_links ?s ! i), ln_reason (st_links ?s ! i))"
    have old: "live_meta a b relation ?s = Some ?old" using Some by (simp add: live_meta_def)
    let ?layer = "merge_graph_layers (e_lib E) (Layer (fst ?old)) (Layer (lc_layer c)) (lc_relation c)"
    let ?reason = "max (snd ?old) (lc_reason c)"
    have j: "(?layer, ?reason) = meta_join ?old (claim_meta c)"
      by (simp add: merge_graph_layers_def meta_join_def claim_meta_def)
    show ?thesis
    proof (cases "(?layer, ?reason) = ?old")
      case True
      then have "y' = y" using assms(1) Some by (simp add: write_plain_link_def eq Let_def)
      then show ?thesis using old True j by simp
    next
      case False
      then have add: "add_link (e_lib E) (lc_a c) (lc_b c) (lc_relation c) (Some (Layer ?layer)) ?reason no_times
          (governed_claim c) ?s = Inr (y_store y')"
        using assms(1,3) Some by (auto simp: write_plain_link_def eq Let_def rbind_eq_Inr_conv)
      have "live_meta a b relation (y_store y') = Some (?layer, ?reason)"
        using add_link_meta [OF add assms(4)] False old by (simp add: meta)
      then show ?thesis using old j by simp
    qed
  qed
qed


lemma write_plain_ok:
  assumes "write_plain_link E X c y = Inr y'" "links_ok (y_store y)"
  shows "links_ok (y_store y')"
proof -
  have add: "links_ok s'" if "add_link L a b relation layer reason t w s = Inr s'" "links_ok s"
    for L a b relation layer reason t w s s'
    using add_link_step [OF that(1)] that(2) by (simp add: links_step_def)
  have aud: "links_ok s'" if "audit L actor action target detail s = Inr s'" "links_ok s"
    for L actor action target detail s s'
    using that(2) unfolding links_ok_def linked_def audit_get [OF that(1)] audit_tables(9) [OF that(1)] .
  show ?thesis
    using assms by (auto simp: write_plain_link_def audit_link_def Let_def rbind_eq_Inr_conv
        split: if_splits option.splits intro: add aud)
qed

lemma plain_links_join:
  assumes "rfold (write_plain_link E X) cs y = Inr y'" "\<forall>c \<in> set cs. claims_pair a b relation c"
    and "\<not> x_dry X" "links_ok (y_store y)" "live_meta a b relation (y_store y) = Some m"
  shows "live_meta a b relation (y_store y') = Some (link_meta.receive m (map claim_meta cs))"
  using assms
proof (induction cs arbitrary: y m)
  case Nil
  then show ?case by (simp add: link_meta.receive_def)
next
  case (Cons c cs)
  obtain y1 where w: "write_plain_link E X c y = Inr y1" and r: "rfold (write_plain_link E X) cs y1 = Inr y'"
    using Cons.prems(1) by (auto simp: rbind_eq_Inr_conv)
  have "live_meta a b relation (y_store y1) = Some (meta_join m (claim_meta c))"
    using plain_link_joins [OF w _ Cons.prems(3,4)] Cons.prems(2,5) by simp
  then show ?case
    using Cons.IH [OF r _ Cons.prems(3) write_plain_ok [OF w Cons.prems(4)]] Cons.prems(2)
    by (simp add: link_meta.receive_def)
qed

lemma plain_link_absorbed:
  assumes "live_meta (lc_a c) (lc_b c) (lc_relation c) (y_store y) = Some m" "meta_join m (claim_meta c) = m"
  shows "write_plain_link E X c y = Inr y"
  using assms by (auto simp: live_meta_def write_plain_link_def Let_def meta_join_def claim_meta_def merge_graph_layers_def)

section \<open>Properties\<close>

text \<open>
  F: Links without times converge: two replicas that hold the same live version of a relationship,
  or none, and successfully apply the same set of claims about it, each in its own order and with
  its own repetitions, hold a live version with the same layer and reason.
\<close>

theorem link_metadata_converges:
  assumes "rfold (write_plain_link E X) cs y = Inr y'" "rfold (write_plain_link E2 X2) ds z = Inr z'"
    and "\<forall>c \<in> set cs \<union> set ds. claims_pair a b relation c" "claim_meta ` set cs = claim_meta ` set ds"
    and "\<not> x_dry X" "\<not> x_dry X2" "links_ok (y_store y)" "links_ok (y_store z)"
    and "live_meta a b relation (y_store y) = live_meta a b relation (y_store z)"
  shows "live_meta a b relation (y_store y') = live_meta a b relation (y_store z')"
proof -
  define n where "n = live_meta a b relation (y_store y)"
  have run: "live_meta a b relation (y_store u') = (case n of Some m \<Rightarrow> Some (link_meta.receive m (map claim_meta ks))
      | None \<Rightarrow> (case ks of [] \<Rightarrow> None | k # _ \<Rightarrow> Some (link_meta.receive (claim_meta k) (map claim_meta ks))))"
    if r: "rfold (write_plain_link F Z) ks u = Inr u'" and c: "\<forall>c \<in> set ks. claims_pair a b relation c"
      and d: "\<not> x_dry Z" and l: "links_ok (y_store u)" and u: "live_meta a b relation (y_store u) = n"
    for F Z ks u u'
  proof (cases n)
    case (Some m)
    then show ?thesis using plain_links_join [OF r c d l] u by simp
  next
    case None
    show ?thesis
    proof (cases ks)
      case Nil
      then show ?thesis using r u None by simp
    next
      case (Cons k rest)
      obtain u1 where w: "write_plain_link F Z k u = Inr u1" and r1: "rfold (write_plain_link F Z) rest u1 = Inr u'"
        using r Cons by (auto simp: rbind_eq_Inr_conv)
      have "live_meta a b relation (y_store u1) = Some (claim_meta k)"
        using plain_link_joins [OF w _ d l] c Cons u None by simp
      then have "live_meta a b relation (y_store u') = Some (link_meta.receive (claim_meta k) (map claim_meta rest))"
        using plain_links_join [OF r1 _ d write_plain_ok [OF w l]] c Cons by simp
      then show ?thesis using None Cons link_meta.join_idem by (simp add: link_meta.receive_def)
    qed
  qed
  have y: "live_meta a b relation (y_store y') = (case n of Some m \<Rightarrow> Some (link_meta.receive m (map claim_meta cs))
      | None \<Rightarrow> (case cs of [] \<Rightarrow> None | k # _ \<Rightarrow> Some (link_meta.receive (claim_meta k) (map claim_meta cs))))"
    by (rule run [OF assms(1)]) (use assms n_def in auto)
  have z: "live_meta a b relation (y_store z') = (case n of Some m \<Rightarrow> Some (link_meta.receive m (map claim_meta ds))
      | None \<Rightarrow> (case ds of [] \<Rightarrow> None | k # _ \<Rightarrow> Some (link_meta.receive (claim_meta k) (map claim_meta ds))))"
    by (rule run [OF assms(2)]) (use assms n_def in auto)
  have conv: "link_meta.receive m (map claim_meta cs) = link_meta.receive m (map claim_meta ds)" for m
    by (rule link_meta.receive_converges) (use assms(4) in simp_all)
  have first: "link_meta.receive (claim_meta k) (map claim_meta cs) = link_meta.receive (claim_meta l) (map claim_meta ds)"
    if "cs = k # ks" "ds = l # ls" for k ks l ls
  proof -
    have "claim_meta k \<in> set (map claim_meta ds)" using assms(4) that(1) by auto
    then have "link_meta.receive (claim_meta k) (map claim_meta ds) = link_meta.receive (claim_meta l) (map claim_meta ds)"
      using that(2) by (intro link_meta.receive_member) simp_all
    then show ?thesis using conv by simp
  qed
  show ?thesis
  proof (cases n)
    case None
    show ?thesis
    proof (cases cs)
      case Nil
      then have "ds = []" using assms(4) by simp
      then show ?thesis unfolding y z using Nil None by simp
    next
      case (Cons k ks)
      then obtain l ls where d: "ds = l # ls" using assms(4) by (cases ds) auto
      show ?thesis unfolding y z using first [OF Cons d] by (simp add: None Cons d)
    qed
  qed (simp add: y z conv)
qed


text \<open>
  C23: The links of a bundle change no row and no marker, remove no version of a link and rewrite none
  but for its system end, and keep both endpoints of every version in one workspace; every version
  they add joins two rows of the receiving workspace (and of the selected repository) that the same
  bundle applied and that may not enter a prompt.
\<close>

theorem peer_links_confined:
  assumes "apply_links E X entries 0 y y = (err, y')"
  shows "(\<forall>i. get_memory (y_store y') i = get_memory (y_store y) i) \<and> st_tombs (y_store y') = st_tombs (y_store y) \<and>
    (links_ok (y_store y) \<longrightarrow> links_ok (y_store y')) \<and> links_grow (st_links (y_store y)) (st_links (y_store y')) \<and>
    (\<forall>j. length (st_links (y_store y)) \<le> j \<and> j < length (st_links (y_store y')) \<longrightarrow>
      peer_pair (e_lib E) X (y_accepted y) (ln_a (st_links (y_store y') ! j)) (ln_b (st_links (y_store y') ! j)))"
  using apply_links_effect [OF assms refl link_effect_refl link_effect_refl] unfolding link_effect_def .

text \<open>
  F: One link with an empty interval aborts a bundle: the loop admits a version whose end equals its
  start, the store rejects it with a ValueError nothing catches, and what came after the last
  commit is rolled back.
\<close>

theorem empty_interval_aborts:
  assumes "link_verdict_of (e_lib E) X (y_accepted y) entry = Candidate c" "\<not> x_dry X"
    and "list_ex (jhas (as_obj entry)) TEMPORAL_FIELDS" "t = peer_times (e_lib E) (as_obj entry)"
    and "\<not> times_refused (as_obj entry) t" "lt_to t = lt_from t"
    and "\<not> list_ex (same_version (link_version (lc_a c) (lc_b c) (lc_relation c) (lc_layer c) (lc_reason c)
      (lib_now (e_lib E)) t)) (st_links (y_store y))"
  shows "apply_links E X (entry # rest) 0 y y = (Some ValueError, y)"
proof -
  have "secret_kind (e_lib E) (JStr (lc_reason c)) = None"
    using assms(1) by (auto simp: link_verdict_of_def endpoints_verdict_def Let_def
        split: if_splits json.splits option.splits)
  then have r: "reject_secrets (e_lib E) [(''link reason'', JStr (lc_reason c))] = None"
    by (simp add: reject_secrets_def)
  obtain x where x: "lt_from t = Some x" using assms(5) by (auto simp: times_refused_def)
  have "add_link_version (e_lib E) (lc_a c) (lc_b c) (lc_relation c) (Layer (lc_layer c)) (lc_reason c) t w s =
      Inl ValueError" for w s
    using r x assms(6) by (simp add: add_link_version_def default_times_def interval_reversed_def Let_def)
  then have "write_link E X (as_obj entry) c y = Inl ValueError"
    using assms(2,3,5,7) by (simp add: write_link_def write_link_version_def assms(4) [symmetric] Let_def)
  then show ?thesis using assms(1) by (simp add: Let_def)
qed

definition peer_row :: "string \<Rightarrow> memory_record" where
  "peer_row i = plain_record\<lparr>mem_id := i, workspace_id := Some ''ws_a''\<rparr>"

definition pair_state :: sync_state where
  "pair_state = demo_sync\<lparr>y_store := empty_store\<lparr>st_rows := [(''mem_a'', peer_row ''mem_a''), (''mem_b'', peer_row ''mem_b'')]\<rparr>,
     y_accepted := [(''mem_a'', peer_row ''mem_a''), (''mem_b'', peer_row ''mem_b'')]\<rparr>"

definition demo_link :: obj where
  "demo_link = [(''a'', JStr ''mem_a''), (''b'', JStr ''mem_b'')]"

definition demo_claim :: link_claim where
  "demo_claim = \<lparr>lc_a = ''mem_a'', lc_b = ''mem_b'', lc_relation = ''related'', lc_layer = SEMANTIC_LAYER, lc_reason = []\<rparr>"

lemma no_secret_empty: "secret_kind content_lib (JStr []) = None"
  by code_simp

lemma peer_row_untrusted: "\<not> row_prompt_eligible content_lib (peer_row i)"
  by (simp add: row_prompt_eligible_def prompt_eligible_def provenance_is_approved_def provenance_is_trusted_def
      peer_row_def plain_record_def blank_record_def jget_def Let_def)

lemma demo_link_names: "link_relation content_lib demo_link = ''related''" "link_reason content_lib demo_link = []"
  "normalize_graph_layer content_lib (Raw (jget demo_link ''layer'')) ''related'' = SEMANTIC_LAYER"
proof -
  show "link_relation content_lib demo_link = ''related''"
    by (simp add: link_relation_def demo_link_def jget_def clamp_str_def strip_control_def control_char_def)
  show "link_reason content_lib demo_link = []"
    by (simp add: link_reason_def demo_link_def jget_def clamp_str_def strip_control_def)
  have "infer_graph_layer ''related'' = SEMANTIC_LAYER" by code_simp
  then show "normalize_graph_layer content_lib (Raw (jget demo_link ''layer'')) ''related'' = SEMANTIC_LAYER"
    by (simp add: demo_link_def jget_def str_or_empty_def strip_def lstrip_def py_lower_def)
qed


lemma demo_candidate:
  assumes "\<forall>k \<in> {''a'', ''b'', ''relation'', ''layer'', ''reason''}. jget d k = jget demo_link k"
  shows "link_verdict_of content_lib demo_target (y_accepted pair_state) (JObj d) = Candidate demo_claim"
proof -
  have j: "jget d ''a'' = JStr ''mem_a''" "jget d ''b'' = JStr ''mem_b''"
    using assms by (simp_all add: demo_link_def jget_def)
  have n: "link_relation content_lib d = ''related''" "link_reason content_lib d = []"
    "normalize_graph_layer content_lib (Raw (jget d ''layer'')) ''related'' = SEMANTIC_LAYER"
  proof -
    have e: "jget d ''relation'' = jget demo_link ''relation''" "jget d ''reason'' = jget demo_link ''reason''"
      "jget d ''layer'' = jget demo_link ''layer''" using assms by simp_all
    show "link_relation content_lib d = ''related''" "link_reason content_lib d = []"
      using demo_link_names(1,2) unfolding link_relation_def link_reason_def e .
    show "normalize_graph_layer content_lib (Raw (jget d ''layer'')) ''related'' = SEMANTIC_LAYER"
      unfolding e by (rule demo_link_names(3))
  qed
  have acc: "map_of (y_accepted pair_state) ''mem_a'' = Some (peer_row ''mem_a'')"
    "map_of (y_accepted pair_state) ''mem_b'' = Some (peer_row ''mem_b'')" by (simp_all add: pair_state_def)
  have "endpoints_verdict content_lib demo_target (peer_row ''mem_a'') (peer_row ''mem_b'') demo_claim = Candidate demo_claim"
    using peer_row_untrusted
    by (simp add: endpoints_verdict_def governed_ok_def demo_claim_def GOVERNED_RELATIONS_def peer_row_def demo_target_def)
  then show ?thesis
    by (simp add: link_verdict_of_def Let_def j n no_secret_empty acc demo_claim_def del: normalize_graph_layer.simps)
qed

lemma demo_valid: "validate_link_endpoints (y_store pair_state) ''mem_a'' ''mem_b'' ''related'' w = Inr ()"
  by (simp add: validate_link_endpoints_def validate_link_owner_rows_def get_memory_def pair_state_def peer_row_def
      link_owner_def)

lemma demo_link_added:
  "\<exists>y'. write_plain_link sync_env demo_target demo_claim pair_state = Inr y' \<and>
     live_meta ''mem_a'' ''mem_b'' ''related'' (y_store y') = Some (SEMANTIC_LAYER, []) \<and> length (st_links (y_store y')) = 1"
proof -
  let ?s = "y_store pair_state"
  have l: "st_links ?s = []" by (simp add: pair_state_def empty_store_def)
  have r: "reject_secrets content_lib [(''link reason'', JStr [])] = None"
    by (simp add: reject_secrets_def no_secret_empty)
  obtain v where v: "add_link content_lib ''mem_a'' ''mem_b'' ''related'' (Some (Layer SEMANTIC_LAYER)) [] no_times w ?s =
      Inr (append_link v ?s)" for w
    using r by (simp add: add_link_def demo_valid l Let_def no_times_def interval_reversed_def)
  obtain s2 where a: "audit_link sync_env demo_target demo_claim (append_link v ?s) = Inr s2"
    using stable_device_actor [OF demo_stable] by (simp add: audit_link_def audit_def)
  have "write_plain_link sync_env demo_target demo_claim pair_state = Inr (bump count_link (pair_state\<lparr>y_store := s2\<rparr>))"
    using a by (simp add: write_plain_link_def l demo_claim_def v Let_def)
  moreover have "live_meta ''mem_a'' ''mem_b'' ''related'' s2 = Some (SEMANTIC_LAYER, [])"
    using plain_link_joins [OF calculation, of "''mem_a''" "''mem_b''" "''related''"] l
    by (simp add: claims_pair_def demo_claim_def links_ok_def live_meta_def claim_meta_def)
  moreover have "length (st_links s2) = 1" using audit_tables(9) a by (simp add: audit_link_def append_link_def l)
  ultimately show ?thesis by (intro exI) auto
qed

theorem link_metadata_converges_witness:
  "\<exists>y' z'. rfold (write_plain_link sync_env demo_target) [demo_claim] pair_state = Inr y' \<and>
     rfold (write_plain_link sync_env demo_target) [demo_claim, demo_claim] pair_state = Inr z' \<and>
     live_meta ''mem_a'' ''mem_b'' ''related'' (y_store y') = live_meta ''mem_a'' ''mem_b'' ''related'' (y_store z')"
proof -
  obtain y' where y: "write_plain_link sync_env demo_target demo_claim pair_state = Inr y'"
    and m: "live_meta ''mem_a'' ''mem_b'' ''related'' (y_store y') = Some (SEMANTIC_LAYER, [])"
    using demo_link_added by blast
  have "write_plain_link sync_env demo_target demo_claim y' = Inr y'"
    using m by (intro plain_link_absorbed [where m = "(SEMANTIC_LAYER, [])"])
      (simp_all add: demo_claim_def meta_join_def claim_meta_def layer_max_def)
  then have r: "rfold (write_plain_link sync_env demo_target) [demo_claim] pair_state = Inr y'"
    "rfold (write_plain_link sync_env demo_target) [demo_claim, demo_claim] pair_state = Inr y'"
    using y by simp_all
  have "links_ok (y_store pair_state)" by (simp add: links_ok_def pair_state_def empty_store_def)
  then show ?thesis
    using link_metadata_converges [OF r, of "''mem_a''" "''mem_b''" "''related''"] r
    by (simp add: claims_pair_def demo_claim_def)
qed

theorem peer_links_confined_witness:
  "\<exists>y'. apply_links sync_env demo_target [JObj demo_link] 0 pair_state pair_state = (None, y') \<and>
     length (st_links (y_store y')) = 1 \<and> (\<forall>i. get_memory (y_store y') i = get_memory (y_store pair_state) i)"
proof -
  obtain y' where w: "write_plain_link sync_env demo_target demo_claim pair_state = Inr y'" "length (st_links (y_store y')) = 1"
    using demo_link_added by blast
  have "link_verdict_of content_lib demo_target (y_accepted pair_state) (JObj demo_link) = Candidate demo_claim"
    by (rule demo_candidate) simp
  moreover have "write_link sync_env demo_target demo_link demo_claim pair_state = Inr y'"
    using w by (simp add: write_link_def TEMPORAL_FIELDS_def demo_link_def jhas_def)
  ultimately have run: "apply_links sync_env demo_target [JObj demo_link] 0 pair_state pair_state = (None, y')"
    by (simp add: Let_def)
  show ?thesis using peer_links_confined [OF run] run w(2) by blast
qed

definition empty_link :: obj where
  "empty_link = demo_link @ [(''valid_from'', JFloat (Fin 5)), (''valid_to'', JFloat (Fin 5)), (''ingested_at'', JFloat (Fin 5))]"

theorem empty_interval_aborts_witness:
  "apply_links sync_env demo_target [JObj empty_link] 0 pair_state pair_state = (Some ValueError, pair_state)"
proof -
  have g: "jget empty_link k = (if k = ''valid_from'' \<or> k = ''valid_to'' \<or> k = ''ingested_at'' then JFloat (Fin 5) else jget demo_link k)"
    for k by (auto simp: empty_link_def demo_link_def jget_def)
  have c: "link_verdict_of content_lib demo_target (y_accepted pair_state) (JObj empty_link) = Candidate demo_claim"
    by (rule demo_candidate) (simp add: g)
  have j: "jget demo_link k = JNull" if "k \<in> set TEMPORAL_FIELDS" for k
    using that by (auto simp: TEMPORAL_FIELDS_def demo_link_def jget_def)
  have t: "peer_times content_lib empty_link =
      \<lparr>lt_from = Some 5, lt_to = Some 5, lt_recorded = None, lt_ingested = Some 5, lt_expired = None\<rparr>"
    by (simp add: peer_times_def g j TEMPORAL_FIELDS_def clamp_world_ts_def clamp_ts_def as_float_def WORLD_TS_MAX_def
        TS_FUTURE_SKEW_def) (simp add: content_lib_def)
  have f: "list_ex (jhas empty_link) TEMPORAL_FIELDS"
    by (simp add: TEMPORAL_FIELDS_def empty_link_def demo_link_def jhas_def)
  have ok: "\<not> times_refused empty_link (peer_times content_lib empty_link)"
    unfolding t by (simp add: times_refused_def TEMPORAL_FIELDS_def g j) (simp add: empty_link_def demo_link_def jhas_def jget_def)
  have l: "st_links (y_store pair_state) = []" by (simp add: pair_state_def empty_store_def)
  show ?thesis
    by (rule empty_interval_aborts [where c = demo_claim and t = "peer_times content_lib empty_link"])
      (use c f ok in \<open>simp_all add: l\<close>, simp add: t)
qed

end
