(* ===== verification/SyncFreshness.thy ===== *)
theory SyncFreshness
  imports SyncLinks "HOL-Library.Sublist"
begin

text \<open>
  Protection of sync against replayed snapshots (\<^verbatim>\<open>engraphis/core/sync.py\<close>): the checkpoint a device
  keeps for every peer, workspace and repository, the generation and hash chain a snapshot is
  stamped with (\<open>_stamp_snapshot\<close>), and the admission of an incoming one
  (\<open>_check_incoming_freshness\<close>).

  The engine is the environment of the store with the raw device identity, the serialiser and
  parser of the checkpoint text (\<open>json.dumps\<close> with sorted keys and \<open>json.loads\<close>) and of a payload
  (\<open>json.dumps\<close>, and \<open>json.loads\<close> with the hook that rejects non-finite constants), the two
  allow-lists of the engine, the workspace names the store itself is bound to, and the
  identifiers minted for the n-th new workspace and repository. What is assumed of the parser is
  that it reads back what was written.

  Lemmas: admitted generations never go back and form a chain, a snapshot is admitted by every
  peer that is not ahead of its sender, and a fork after a lost commit heals.
\<close>

section \<open>Checkpoints\<close>

record sync_engine =
  g_env :: store_env
  g_device :: json
  g_dump :: "json \<Rightarrow> string"
  g_load :: "string \<Rightarrow> json result"
  g_payload :: "json \<Rightarrow> string"
  g_parse :: "string \<Rightarrow> json result"
  g_allowed :: "string list option"
  g_erase :: "string list option"
  g_bound :: "string list option"
  g_new_workspace :: "nat \<Rightarrow> string"
  g_new_repo :: "nat \<Rightarrow> string"

abbreviation g_lib :: "sync_engine \<Rightarrow> pylib" where
  "g_lib G \<equiv> e_lib (g_env G)"

definition get_sync_state :: "store \<Rightarrow> string \<Rightarrow> string option" where
  "get_sync_state s key = map_of (st_state s) key"

definition set_sync_state :: "string \<Rightarrow> string \<Rightarrow> store \<Rightarrow> store" where
  "set_sync_state key v s = s\<lparr>st_state := AList.update key v (st_state s)\<rparr>"

definition checkpoint_key :: "pylib \<Rightarrow> string \<Rightarrow> string option \<Rightarrow> string \<Rightarrow> string" where
  "checkpoint_key L ws repo device =
     (let scope = take 24 (lib_sha256 L (ws @ [CHR 0x00] @ (case repo of None \<Rightarrow> [] | Some q \<Rightarrow> q)));
          dev = take 24 (lib_sha256 L device)
      in ''sync_snapshot:'' @ scope @ '':'' @ dev)"

definition valid_checkpoint :: "int \<Rightarrow> string \<Rightarrow> bool" where
  "valid_checkpoint generation state_hash \<longleftrightarrow>
     1 \<le> generation \<and> generation \<le> MAX_SYNC_GENERATION \<and> lower_hex 64 state_hash"

definition checkpoint_json :: "int \<Rightarrow> string \<Rightarrow> json" where
  "checkpoint_json generation state_hash =
     JObj [(''generation'', JInt generation), (''state_hash'', JStr state_hash)]"

text \<open>Whatever is wrong with a stored checkpoint, the error is the same.\<close>

definition load_snapshot_checkpoint :: "sync_engine \<Rightarrow> string \<Rightarrow> string option \<Rightarrow> string \<Rightarrow> store \<Rightarrow>
    (int \<times> string) option result" where
  "load_snapshot_checkpoint G ws repo device s =
     (case get_sync_state s (checkpoint_key (g_lib G) ws repo device) of
        None \<Rightarrow> Inr None
      | Some raw \<Rightarrow>
          (case g_load G raw of
             Inr (JObj d) \<Rightarrow>
               (case (jget d ''generation'', jget d ''state_hash'') of
                  (JInt generation, JStr state_hash) \<Rightarrow>
                    if valid_checkpoint generation state_hash then Inr (Some (generation, state_hash))
                    else Inl SyncError
                | _ \<Rightarrow> Inl SyncError)
           | _ \<Rightarrow> Inl SyncError))"

definition save_snapshot_checkpoint :: "sync_engine \<Rightarrow> string \<Rightarrow> string option \<Rightarrow> string \<Rightarrow> int \<Rightarrow> string \<Rightarrow>
    store \<Rightarrow> store" where
  "save_snapshot_checkpoint G ws repo device generation state_hash s =
     set_sync_state (checkpoint_key (g_lib G) ws repo device) (g_dump G (checkpoint_json generation state_hash)) s"

section \<open>Stamping\<close>

definition stamp_snapshot :: "sync_engine \<Rightarrow> obj \<Rightarrow> string \<Rightarrow> string option \<Rightarrow> bool \<Rightarrow> store \<Rightarrow> (obj \<times> store) result" where
  "stamp_snapshot G bundle ws repo save s =
     (if \<not> jhas bundle ''device_id'' then Inl KeyError
      else
        rbind (normalise_device_id (g_lib G) (jget bundle ''device_id'')) (\<lambda>device.
        rbind (load_snapshot_checkpoint G ws repo device s) (\<lambda>checkpoint.
        let generation = (case checkpoint of None \<Rightarrow> 1 | Some (g, _) \<Rightarrow> g + 1);
            previous = (case checkpoint of None \<Rightarrow> [] | Some (_, h) \<Rightarrow> h)
        in if generation > MAX_SYNC_GENERATION then Inl SyncError
           else
             let b = jset ''previous_hash'' (JStr previous) (jset ''generation'' (JInt generation) bundle);
                 tombstones = or_empty_list (jget b ''tombstones'')
             in rbind (py_len tombstones) (\<lambda>n.
                let b = jset ''tombstone_count'' (JInt (int n)) b;
                    b = jset ''tombstone_checkpoint'' (JStr (lib_stable_hash (g_lib G) tombstones)) b;
                    h = snapshot_hash (g_lib G) b;
                    b = jset ''state_hash'' (JStr h) b
                in Inr (b, if save then save_snapshot_checkpoint G ws repo device generation h s else s)))))"

section \<open>Admission\<close>

text \<open>The freshness of the snapshot, whether it is the first one, and whether it is a replay.\<close>

definition check_incoming_freshness :: "sync_engine \<Rightarrow> obj \<Rightarrow> string \<Rightarrow> string option \<Rightarrow> string \<Rightarrow> store \<Rightarrow>
    ((int \<times> string \<times> string) option \<times> bool \<times> bool) result" where
  "check_incoming_freshness G bundle ws repo device s =
     rbind (validated_snapshot_freshness (g_lib G) bundle) (\<lambda>freshness.
     rbind (load_snapshot_checkpoint G ws repo device s) (\<lambda>checkpoint.
       case freshness of
         None \<Rightarrow> if checkpoint \<noteq> None then Inl SyncError else Inr (None, False, False)
       | Some (generation, previous_hash, state_hash) \<Rightarrow>
           (case checkpoint of
              None \<Rightarrow> Inr (freshness, True, False)
            | Some (known_generation, known_hash) \<Rightarrow>
                if generation < known_generation then Inl SyncError
                else if generation = known_generation then
                  (if state_hash \<noteq> known_hash then Inl SyncError else Inr (freshness, False, True))
                else if generation = known_generation + 1 \<and> previous_hash \<noteq> known_hash then Inl SyncError
                else Inr (freshness, False, False))))"

text \<open>The admission followed by the checkpoint, which is what a successful apply leaves.\<close>

definition accept_snapshot :: "sync_engine \<Rightarrow> string \<Rightarrow> string option \<Rightarrow> string \<Rightarrow> obj \<Rightarrow> store \<Rightarrow> store result" where
  "accept_snapshot G ws repo device bundle s =
     rbind (check_incoming_freshness G bundle ws repo device s) (\<lambda>(freshness, _, _).
       Inr (case freshness of None \<Rightarrow> s
            | Some (generation, _, state_hash) \<Rightarrow> save_snapshot_checkpoint G ws repo device generation state_hash s))"


section \<open>Checkpoints and stamps\<close>

text \<open>What is assumed of the serialiser and the parser: a valid checkpoint is read back as written.\<close>

definition reads_back :: "sync_engine \<Rightarrow> bool" where
  "reads_back G \<longleftrightarrow> (\<forall>g h. valid_checkpoint g h \<longrightarrow>
     g_load G (g_dump G (checkpoint_json g h)) = Inr (checkpoint_json g h))"

definition hex_hashes :: "pylib \<Rightarrow> bool" where
  "hex_hashes L \<longleftrightarrow> (\<forall>v. lower_hex 64 (lib_stable_hash L v))"

text \<open>The generation and the predecessor hash of the snapshot that extends a checkpoint.\<close>

definition following :: "(int \<times> string) option \<Rightarrow> int \<times> string" where
  "following c = (case c of None \<Rightarrow> (1, []) | Some (g, h) \<Rightarrow> (g + 1, h))"

lemma load_save_checkpoint:
  assumes "reads_back G" "valid_checkpoint g h"
  shows "load_snapshot_checkpoint G ws repo d (save_snapshot_checkpoint G ws repo d g h s) = Inr (Some (g, h))"
proof -
  have "g_load G (g_dump G (checkpoint_json g h)) = Inr (checkpoint_json g h)"
    using assms by (simp add: reads_back_def)
  then show ?thesis
    using assms(2)
    by (simp add: load_snapshot_checkpoint_def save_snapshot_checkpoint_def get_sync_state_def
        set_sync_state_def update_conv checkpoint_json_def jget_def)
qed

lemma loaded_valid:
  "load_snapshot_checkpoint G ws repo d s = Inr (Some (g, h)) \<Longrightarrow> valid_checkpoint g h"
  by (auto simp: load_snapshot_checkpoint_def split: option.splits sum.splits json.splits if_splits)

lemma load_cong:
  "get_sync_state s (checkpoint_key (g_lib G) ws repo d) = get_sync_state s' (checkpoint_key (g_lib G) ws repo d)
    \<Longrightarrow> load_snapshot_checkpoint G ws repo d s = load_snapshot_checkpoint G ws repo d s'"
  by (simp add: load_snapshot_checkpoint_def)

lemma filter_jset:
  "\<not> P (k, v) \<Longrightarrow> (\<And>w. P (k, w) = P (k, v)) \<Longrightarrow> filter P (jset k v d) = filter P d"
  by (induction k v d rule: jset.induct) auto

lemma snapshot_hash_state: "snapshot_hash L (jset ''state_hash'' v b) = snapshot_hash L b"
  by (simp add: snapshot_hash_def filter_jset)

lemma validated_valid:
  assumes "validated_snapshot_freshness L b = Inr (Some (g, p, h))"
  shows "valid_checkpoint g h" "g = 1 \<Longrightarrow> p = []" "h = snapshot_hash L b"
  using assms
  by (auto simp: validated_snapshot_freshness_def valid_checkpoint_def rbind_eq_Inr_conv Let_def
      split: if_splits json.splits)

lemma stamp_snapshotE:
  assumes "stamp_snapshot G bundle ws repo save s = Inr (b, s')"
  obtains d c where
    "normalise_device_id (g_lib G) (jget bundle ''device_id'') = Inr d"
    "load_snapshot_checkpoint G ws repo d s = Inr c"
    "fst (following c) \<le> MAX_SYNC_GENERATION"
    "jget b ''generation'' = JInt (fst (following c))"
    "jget b ''previous_hash'' = JStr (snd (following c))"
    "jget b ''state_hash'' = JStr (snapshot_hash (g_lib G) b)"
    "jget b ''tombstone_checkpoint'' =
       JStr (lib_stable_hash (g_lib G) (or_empty_list (jget b ''tombstones'')))"
    "\<exists>n. py_len (or_empty_list (jget b ''tombstones'')) = Inr n \<and> jget b ''tombstone_count'' = JInt (int n)"
    "\<And>k. k \<notin> {''generation'', ''previous_hash'', ''state_hash'', ''tombstone_checkpoint'', ''tombstone_count''}
       \<Longrightarrow> jget b k = jget bundle k"
    "s' = (if save then save_snapshot_checkpoint G ws repo d (fst (following c)) (snapshot_hash (g_lib G) b) s else s)"
proof -
  obtain d c n where d: "normalise_device_id (g_lib G) (jget bundle ''device_id'') = Inr d"
    and c: "load_snapshot_checkpoint G ws repo d s = Inr c"
    and le: "fst (following c) \<le> MAX_SYNC_GENERATION"
    and n: "py_len (or_empty_list (jget bundle ''tombstones'')) = Inr n"
    and b: "\<exists>h b0. h = snapshot_hash (g_lib G) b0 \<and> b = jset ''state_hash'' (JStr h) b0
        \<and> b0 = jset ''tombstone_checkpoint'' (JStr (lib_stable_hash (g_lib G) (or_empty_list (jget bundle ''tombstones''))))
            (jset ''tombstone_count'' (JInt (int n))
              (jset ''previous_hash'' (JStr (snd (following c))) (jset ''generation'' (JInt (fst (following c))) bundle)))
        \<and> s' = (if save then save_snapshot_checkpoint G ws repo d (fst (following c)) h s else s)"
    using assms
    by (auto simp: stamp_snapshot_def following_def rbind_eq_Inr_conv Let_def jget_jset split: if_splits option.splits)
  then have "snapshot_hash (g_lib G) b = snapshot_hash (g_lib G) (jset ''tombstone_checkpoint'' (JStr (lib_stable_hash (g_lib G) (or_empty_list (jget bundle ''tombstones''))))
            (jset ''tombstone_count'' (JInt (int n))
              (jset ''previous_hash'' (JStr (snd (following c))) (jset ''generation'' (JInt (fst (following c))) bundle))))"
    by (auto simp: snapshot_hash_state)
  with b n show ?thesis
    by (intro that [OF d c le]) (auto simp: jget_jset)
qed

lemma stamp_keeps:
  assumes "stamp_snapshot G bundle ws repo save s = Inr (b, s')"
    and "k \<notin> {''generation'', ''previous_hash'', ''state_hash'', ''tombstone_checkpoint'', ''tombstone_count''}"
  shows "jget b k = jget bundle k"
proof (rule stamp_snapshotE [OF assms(1)])
  assume "\<And>k. k \<notin> {''generation'', ''previous_hash'', ''state_hash'', ''tombstone_checkpoint'', ''tombstone_count''}
       \<Longrightarrow> jget b k = jget bundle k"
  then show ?thesis using assms(2) .
qed

lemma following_hex:
  assumes "load_snapshot_checkpoint G ws repo d s = Inr c"
  shows "1 \<le> fst (following c)" "fst (following c) = 1 \<Longrightarrow> snd (following c) = []"
    "fst (following c) = 1 \<or> lower_hex 64 (snd (following c))"
  using loaded_valid [of G ws repo d s "fst (the c)" "snd (the c)"] assms
  by (auto simp: following_def valid_checkpoint_def split: option.splits)

text \<open>The validation of a stamped snapshot gives the extension of the sender's checkpoint.\<close>

lemma stamped_validated:
  assumes "stamp_snapshot G bundle ws repo save s = Inr (b, s')"
    and "normalise_device_id (g_lib G) (jget bundle ''device_id'') = Inr d"
    and "load_snapshot_checkpoint G ws repo d s = Inr c"
    and "hex_hashes (g_lib G)" "as_int (g_lib G) (jget bundle ''version'') 0 \<ge> 3"
  shows "validated_snapshot_freshness (g_lib G) b
    = Inr (Some (fst (following c), snd (following c), snapshot_hash (g_lib G) b))"
  using assms(1)
proof (rule stamp_snapshotE)
  fix d' c'
  assume *: "normalise_device_id (g_lib G) (jget bundle ''device_id'') = Inr d'"
    "load_snapshot_checkpoint G ws repo d' s = Inr c'"
    and le: "fst (following c') \<le> MAX_SYNC_GENERATION"
    and b: "jget b ''generation'' = JInt (fst (following c'))"
      "jget b ''previous_hash'' = JStr (snd (following c'))"
      "jget b ''state_hash'' = JStr (snapshot_hash (g_lib G) b)"
      "jget b ''tombstone_checkpoint'' = JStr (lib_stable_hash (g_lib G) (or_empty_list (jget b ''tombstones'')))"
      "\<exists>n. py_len (or_empty_list (jget b ''tombstones'')) = Inr n \<and> jget b ''tombstone_count'' = JInt (int n)"
    and other: "\<And>k. k \<notin> {''generation'', ''previous_hash'', ''state_hash'', ''tombstone_checkpoint'', ''tombstone_count''}
       \<Longrightarrow> jget b k = jget bundle k"
  have c: "c' = c" using * assms(2,3) by simp
  have v: "jget b ''version'' = jget bundle ''version''" by (rule other) simp
  have hex: "lower_hex 64 (lib_stable_hash (g_lib G) x)" for x
    using assms(4) by (simp add: hex_hashes_def)
  have "lower_hex 64 (snapshot_hash (g_lib G) b)" by (simp add: snapshot_hash_def hex)
  then show ?thesis
    using b assms(5) le following_hex [OF assms(3)] unfolding c
    by (auto simp: validated_snapshot_freshness_def v hex Let_def not_less)
qed


section \<open>The log of admitted snapshots\<close>

text \<open>How a checkpoint admits the next snapshot: first one, replay, or extension.\<close>

definition admits :: "(int \<times> string) option \<Rightarrow> int \<times> string \<times> string \<Rightarrow> bool" where
  "admits c f \<longleftrightarrow> (case (c, f) of (None, _) \<Rightarrow> True
     | (Some (k, kh), (g, p, h)) \<Rightarrow> k \<le> g \<and> (g = k \<longrightarrow> h = kh) \<and> (g = k + 1 \<longrightarrow> p = kh))"

lemma check_admits:
  assumes "load_snapshot_checkpoint G ws repo d s = Inr c"
  shows "(\<exists>b r. check_incoming_freshness G bundle ws repo d s = Inr (Some f, b, r)) \<longleftrightarrow>
    validated_snapshot_freshness (g_lib G) bundle = Inr (Some f) \<and> admits c f"
proof -
  obtain g p h where f: "f = (g, p, h)" by (cases f)
  consider (err) e where "validated_snapshot_freshness (g_lib G) bundle = Inl e"
    | (old) "validated_snapshot_freshness (g_lib G) bundle = Inr None"
    | (new) g' p' h' where "validated_snapshot_freshness (g_lib G) bundle = Inr (Some (g', p', h'))"
    by (cases "validated_snapshot_freshness (g_lib G) bundle") (auto, metis option.exhaust prod_cases3)
  then show ?thesis
  proof cases
    case new
    show ?thesis
    proof (cases c)
      case None
      then show ?thesis using new assms by (auto simp: check_incoming_freshness_def admits_def f)
    next
      case (Some k)
      then show ?thesis using new assms
        by (cases k) (auto simp: check_incoming_freshness_def admits_def f)
    qed
  qed (use assms in \<open>auto simp: check_incoming_freshness_def\<close>)
qed

lemma check_legacy:
  "check_incoming_freshness G bundle ws repo d s = Inr (None, b, r) \<Longrightarrow>
    load_snapshot_checkpoint G ws repo d s = Inr None"
proof -
  assume A: "check_incoming_freshness G bundle ws repo d s = Inr (None, b, r)"
  then obtain c where c: "load_snapshot_checkpoint G ws repo d s = Inr c"
    by (auto simp: check_incoming_freshness_def rbind_eq_Inr_conv)
  show ?thesis
    using A by (cases c) (auto simp: c check_incoming_freshness_def rbind_eq_Inr_conv split: option.splits if_splits)
qed

lemma accept_Some:
  assumes "load_snapshot_checkpoint G ws repo d s = Inr c"
    and "validated_snapshot_freshness (g_lib G) bundle = Inr (Some (g, p, h))" "admits c (g, p, h)"
  shows "accept_snapshot G ws repo d bundle s = Inr (save_snapshot_checkpoint G ws repo d g h s)"
proof -
  obtain b r where "check_incoming_freshness G bundle ws repo d s = Inr (Some (g, p, h), b, r)"
    using check_admits [OF assms(1)] assms(2,3) by blast
  then show ?thesis by (simp add: accept_snapshot_def)
qed

text \<open>
  One bundle after another is admitted, with any other change of the store in between that
  leaves this checkpoint alone.
\<close>

inductive admissions :: "sync_engine \<Rightarrow> string \<Rightarrow> string option \<Rightarrow> string \<Rightarrow> store \<Rightarrow>
    (int \<times> string \<times> string) list \<Rightarrow> store \<Rightarrow> bool" for G ws repo d s0 where
  Start: "admissions G ws repo d s0 [] s0"
| Admit: "admissions G ws repo d s0 fs s \<Longrightarrow>
    check_incoming_freshness G snap ws repo d s = Inr (Some (g, p, h), boot, dup) \<Longrightarrow>
    admissions G ws repo d s0 (fs @ [(g, p, h)]) (save_snapshot_checkpoint G ws repo d g h s)"
| Legacy: "admissions G ws repo d s0 fs s \<Longrightarrow>
    check_incoming_freshness G snap ws repo d s = Inr (None, boot, dup) \<Longrightarrow>
    admissions G ws repo d s0 fs s"
| Other: "admissions G ws repo d s0 fs s \<Longrightarrow>
    get_sync_state s' (checkpoint_key (g_lib G) ws repo d) = get_sync_state s (checkpoint_key (g_lib G) ws repo d) \<Longrightarrow>
    admissions G ws repo d s0 fs s'"

text \<open>Each entry of the log extends the one before it and repeats none with another content.\<close>

definition extends_log :: "int \<times> string \<times> string \<Rightarrow> int \<times> string \<times> string \<Rightarrow> bool" where
  "extends_log f f' \<longleftrightarrow> (case (f, f') of ((k, _, kh), (g, _, h)) \<Rightarrow> k \<le> g \<and> (g = k \<longrightarrow> h = kh))"

lemma extends_log_trans: "extends_log a b \<Longrightarrow> extends_log b c \<Longrightarrow> extends_log a c"
  by (auto simp: extends_log_def split: prod.splits)

definition checkpoint_of :: "int \<times> string \<times> string \<Rightarrow> int \<times> string" where
  "checkpoint_of f = (fst f, snd (snd f))"

lemma sorted_wrt_snoc_trans:
  assumes "\<And>a b c. R a b \<Longrightarrow> R b c \<Longrightarrow> R a c" and "sorted_wrt R xs" and "xs \<noteq> [] \<Longrightarrow> R (last xs) y"
  shows "sorted_wrt R (xs @ [y])"
proof (cases "xs = []")
  case False
  then obtain zs z where xs: "xs = zs @ [z]" by (metis rev_exhaust)
  have "R x y" if "x \<in> set xs" for x
    using that assms by (auto simp: xs sorted_wrt_append)
  then show ?thesis using assms(2) by (simp add: sorted_wrt_append)
qed simp

lemma admissions_log:
  assumes "admissions G ws repo d s0 fs s" "reads_back G"
  shows "sorted_wrt extends_log fs
    \<and> (\<forall>i. Suc i < length fs \<longrightarrow> admits (Some (checkpoint_of (fs ! i))) (fs ! Suc i))
    \<and> (fs \<noteq> [] \<longrightarrow> load_snapshot_checkpoint G ws repo d s = Inr (Some (checkpoint_of (last fs))))"
  using assms
proof (induction rule: admissions.induct)
  case (Admit fs s b g p h boot dup)
  then have valid: "validated_snapshot_freshness (g_lib G) b = Inr (Some (g, p, h))"
    by (auto simp: check_incoming_freshness_def rbind_eq_Inr_conv split: option.splits if_splits)
  have ok: "admits (Some (checkpoint_of (last fs))) (g, p, h)" if "fs \<noteq> []"
  proof -
    have "load_snapshot_checkpoint G ws repo d s = Inr (Some (checkpoint_of (last fs)))"
      using Admit.IH [OF Admit.prems] that by blast
    from check_admits [OF this, of b "(g, p, h)"] Admit.hyps(2) show ?thesis by blast
  qed
  have "sorted_wrt extends_log (fs @ [(g, p, h)])"
  proof (rule sorted_wrt_snoc_trans)
    show "extends_log (last fs) (g, p, h)" if "fs \<noteq> []"
      using ok [OF that] by (auto simp: admits_def extends_log_def checkpoint_of_def split: prod.splits)
    show "sorted_wrt extends_log fs" using Admit.IH [OF Admit.prems] by blast
  qed (rule extends_log_trans)
  moreover have "admits (Some (checkpoint_of ((fs @ [(g, p, h)]) ! i))) ((fs @ [(g, p, h)]) ! Suc i)"
    if "Suc i < length (fs @ [(g, p, h)])" for i
  proof (cases "Suc i < length fs")
    case True
    then show ?thesis using Admit.IH [OF Admit.prems] by (simp add: nth_append)
  next
    case False
    then have i: "i = length fs - 1" "Suc i = length fs" and fs: "fs \<noteq> []" using that by auto
    then show ?thesis using ok [OF fs] by (simp add: nth_append last_conv_nth)
  qed
  moreover have "load_snapshot_checkpoint G ws repo d (save_snapshot_checkpoint G ws repo d g h s)
      = Inr (Some (g, h))"
    using Admit.prems validated_valid(1) [OF valid] by (rule load_save_checkpoint)
  ultimately show ?case by (simp add: checkpoint_of_def)
next
  case (Other fs s s')
  then show ?case using load_cong [of s' G ws repo d s] by simp
qed auto

section \<open>Delivery\<close>

text \<open>Successive pushes of a device, each with its checkpoint committed.\<close>

fun stamps :: "sync_engine \<Rightarrow> string \<Rightarrow> string option \<Rightarrow> obj list \<Rightarrow> store \<Rightarrow> (obj list \<times> store) result" where
  "stamps G ws repo [] s = Inr ([], s)"
| "stamps G ws repo (b # bs) s =
     rbind (stamp_snapshot G b ws repo True s) (\<lambda>(b', s1).
     rbind (stamps G ws repo bs s1) (\<lambda>(bs', s2). Inr (b' # bs', s2)))"

text \<open>A peer's checkpoint is one the sender has left behind, or its present one.\<close>

definition lags :: "(int \<times> string) option \<Rightarrow> (int \<times> string) option \<Rightarrow> bool" where
  "lags r c \<longleftrightarrow> (case r of None \<Rightarrow> True
     | Some (k, kh) \<Rightarrow> (case c of None \<Rightarrow> False | Some (g, h) \<Rightarrow> k < g \<or> (k, kh) = (g, h)))"

lemma lags_admits: "lags r c \<Longrightarrow> admits r (fst (following c), snd (following c), h)"
  by (auto simp: lags_def admits_def following_def split: option.splits)

lemma lags_step: "lags r c \<Longrightarrow> lags r (Some (fst (following c), h))"
  by (auto simp: lags_def following_def split: option.splits)


definition pushable :: "string \<Rightarrow> obj \<Rightarrow> bool" where
  "pushable d b \<longleftrightarrow> jget b ''version'' = JInt 4 \<and> jget b ''device_id'' = JStr d"

lemma validated_cong:
  assumes "lib_stable_hash L' = lib_stable_hash L" "jget b ''version'' = JInt v"
  shows "validated_snapshot_freshness L' b = validated_snapshot_freshness L b"
proof -
  have "snapshot_hash L' = snapshot_hash L" using assms(1) by (auto simp: snapshot_hash_def)
  then show ?thesis
    unfolding validated_snapshot_freshness_def assms by (simp only: as_int_def py_int.simps)
qed

text \<open>One push and its admission by a peer that lags.\<close>

lemma stamp_step:
  assumes stamp: "stamp_snapshot G b ws repo True s = Inr (b', s1)"
    and G: "reads_back G" "hex_hashes (g_lib G)" "stable_device (g_lib G) d" "pushable d b"
    and c: "load_snapshot_checkpoint G ws repo d s = Inr c"
  defines "f \<equiv> (fst (following c), snd (following c), snapshot_hash (g_lib G) b')"
  shows "validated_snapshot_freshness (g_lib G) b' = Inr (Some f)"
    and "load_snapshot_checkpoint G ws repo d s1 = Inr (Some (checkpoint_of f))"
    and "jget b' ''version'' = JInt 4"
proof -
  have d: "normalise_device_id (g_lib G) (jget b ''device_id'') = Inr d"
    using G(3,4) by (simp add: pushable_def stable_device_def)
  have "as_int (g_lib G) (jget b ''version'') 0 \<ge> 3"
    using G(4) by (simp add: pushable_def as_int_def)
  with stamp d c G(2) show V: "validated_snapshot_freshness (g_lib G) b' = Inr (Some f)"
    unfolding f_def by (rule stamped_validated)
  show "jget b' ''version'' = JInt 4"
    using stamp G(4) by (rule_tac stamp_snapshotE [OF stamp]) (simp add: pushable_def)
  have "s1 = save_snapshot_checkpoint G ws repo d (fst f) (snd (snd f)) s"
    using d c by (rule_tac stamp_snapshotE [OF stamp]) (simp add: f_def)
  moreover have "valid_checkpoint (fst f) (snd (snd f))"
    using validated_valid(1) [of "g_lib G" b' "fst f" "fst (snd f)" "snd (snd f)"] V by simp
  ultimately show "load_snapshot_checkpoint G ws repo d s1 = Inr (Some (checkpoint_of f))"
    using load_save_checkpoint [OF G(1)] by (simp add: checkpoint_of_def)
qed

lemma deliver_lagging:
  assumes "stamps G ws repo bs s = Inr (snaps, s')" "subseq del snaps"
    and "\<forall>b\<in>set bs. pushable d b"
    and G: "reads_back G" "hex_hashes (g_lib G)" "stable_device (g_lib G) d"
    and H: "reads_back H" "lib_stable_hash (g_lib H) = lib_stable_hash (g_lib G)"
    and "load_snapshot_checkpoint G ws repo d s = Inr c" "load_snapshot_checkpoint H ws' repo' d r = Inr k" "lags k c"
  shows "\<exists>r'. rfold (accept_snapshot H ws' repo' d) del r = Inr r'"
  using assms(1-3) assms(9-)
proof (induction bs arbitrary: s snaps del c r k)
  case Nil
  then have "del = []" by auto
  then show ?case by simp
next
  case (Cons b bs)
  from Cons.prems(1) obtain b' s1 snaps' where stamp: "stamp_snapshot G b ws repo True s = Inr (b', s1)"
    and rest: "stamps G ws repo bs s1 = Inr (snaps', s')" and snaps: "snaps = b' # snaps'"
    by (auto simp: rbind_eq_Inr_conv split: prod.splits)
  have push: "pushable d b" "\<forall>b\<in>set bs. pushable d b" using Cons.prems(3) by auto
  note step = stamp_step [OF stamp G push(1) Cons.prems(4)]
  define f where "f = (fst (following c), snd (following c), snapshot_hash (g_lib G) b')"
  consider (skip) "subseq del snaps'" | (take) del' where "del = b' # del'" "subseq del' snaps'"
    using Cons.prems(2) unfolding snaps by (cases rule: list_emb.cases) auto
  then show ?case
  proof cases
    case skip
    have "lags k (Some (checkpoint_of f))"
      using lags_step [OF Cons.prems(6)] by (simp add: f_def checkpoint_of_def)
    then show ?thesis
      using Cons.IH [OF rest skip push(2) step(2) Cons.prems(5)] by (simp add: f_def)
  next
    case take
    let ?r = "save_snapshot_checkpoint H ws' repo' d (fst f) (snd (snd f)) r"
    have "validated_snapshot_freshness (g_lib H) b' = Inr (Some f)"
      using step(1) validated_cong [OF H(2) step(3)] by (simp add: f_def)
    moreover have "admits k f" unfolding f_def using Cons.prems(6) by (rule lags_admits)
    ultimately have acc: "accept_snapshot H ws' repo' d b' r = Inr ?r"
      using accept_Some [OF Cons.prems(5), of b' "fst f" "fst (snd f)" "snd (snd f)"] by simp
    have "valid_checkpoint (fst f) (snd (snd f))"
      using step(1) validated_valid(1) unfolding f_def by fastforce
    then have "load_snapshot_checkpoint H ws' repo' d ?r = Inr (Some (checkpoint_of f))"
      using load_save_checkpoint [OF H(1)] by (simp add: checkpoint_of_def)
    moreover have "lags (Some (checkpoint_of f)) (Some (checkpoint_of f))" by (simp add: lags_def split: prod.splits)
    ultimately show ?thesis
      using Cons.IH [OF rest take(2) push(2) step(2)] acc take(1) by (simp add: f_def)
  qed
qed


lemma accept_refused:
  assumes "validated_snapshot_freshness (g_lib G) b = Inr (Some f)"
    and "load_snapshot_checkpoint G ws repo d s = Inr c" "\<not> admits c f"
  shows "accept_snapshot G ws repo d b s = Inl SyncError"
proof -
  obtain g p h where f: "f = (g, p, h)" by (cases f)
  have "check_incoming_freshness G b ws repo d s = Inl SyncError"
    using assms by (cases c) (auto simp: check_incoming_freshness_def admits_def f split: if_splits)
  then show ?thesis by (simp add: accept_snapshot_def)
qed

section \<open>Properties\<close>

text \<open>
  C12: whatever else happens to a store, the snapshots of one device it admits never go back in
  generation, and no generation is admitted with two different contents; two admitted in
  direct succession with successive generations are linked by hash; and once one is admitted
  a bundle of the old format, which carries no generation, is refused.
\<close>

theorem no_rollback:
  assumes "reads_back G" "admissions G ws repo d s0 adm s" "i < j" "j < length adm"
    and "adm ! i = (g, p, h)" "adm ! j = (g', p', h')"
  shows "g \<le> g' \<and> (g' = g \<longrightarrow> h' = h) \<and> (j = i + 1 \<and> g' = g + 1 \<longrightarrow> p' = h)
    \<and> (as_int (g_lib G) (jget bundle ''version'') 0 < 3 \<longrightarrow> accept_snapshot G ws repo d bundle s = Inl SyncError)"
proof -
  note L = admissions_log [OF assms(2,1)]
  have "extends_log (adm ! i) (adm ! j)" using L assms(3,4) by (simp add: sorted_wrt_iff_nth_less)
  then have order: "g \<le> g' \<and> (g' = g \<longrightarrow> h' = h)" by (simp add: extends_log_def assms)
  have "adm \<noteq> []" using assms(4) by auto
  then have c: "load_snapshot_checkpoint G ws repo d s = Inr (Some (checkpoint_of (last adm)))" using L by blast
  have old: "accept_snapshot G ws repo d bundle s = Inl SyncError"
    if "as_int (g_lib G) (jget bundle ''version'') 0 < 3"
    using that by (simp add: accept_snapshot_def check_incoming_freshness_def validated_snapshot_freshness_def c)
  have "admits (Some (g, h)) (g', p', h')" if "j = i + 1"
    using L assms(4) that unfolding checkpoint_of_def by (metis Suc_eq_plus1 assms(5,6) fst_conv snd_conv)
  then have "j = i + 1 \<and> g' = g + 1 \<longrightarrow> p' = h" by (auto simp: admits_def)
  then show ?thesis using order old by blast
qed

text \<open>
  C20: whatever part of a device's successive pushes reaches a peer that has none of them yet,
  in the order pushed, the peer admits every one of them; it never stops making progress
  because some were lost on the way.
\<close>

theorem pushes_admitted:
  assumes "reads_back G" "reads_back H" "hex_hashes (g_lib G)" "lib_stable_hash (g_lib H) = lib_stable_hash (g_lib G)"
    and "stable_device (g_lib G) d" "\<forall>b\<in>set bs. pushable d b"
    and "stamps G ws repo bs s = Inr (snaps, s')" "subseq received snaps"
    and "load_snapshot_checkpoint G ws repo d s = Inr c" "load_snapshot_checkpoint H ws' repo' d r = Inr None"
  shows "\<exists>r'. rfold (accept_snapshot H ws' repo' d) received r = Inr r'"
  using assms by (intro deliver_lagging [OF assms(7,8,6,1,3,5,2,4,9,10)]) (simp add: lags_def)



section \<open>A concrete run\<close>

text \<open>A library whose hash of a snapshot is decided by its workspace name.\<close>

definition demo_hash :: "json \<Rightarrow> string" where
  "demo_hash v = replicate 64 (if jget (as_obj v) ''workspace_name'' = JStr ''b'' then CHR ''b'' else CHR ''a'')"

definition demo_engine :: sync_engine where
  "demo_engine = \<lparr>g_env = sync_env\<lparr>e_lib := content_lib\<lparr>lib_stable_hash := demo_hash,
       lib_sha256 := (\<lambda>_. replicate 64 (CHR ''0''))\<rparr>\<rparr>, g_device = JStr dev_a,
     g_dump = (\<lambda>v. case (jget (as_obj v) ''generation'', jget (as_obj v) ''state_hash'') of
        (JInt g, JStr h) \<Rightarrow> h @ replicate (nat g) (CHR ''x'') | _ \<Rightarrow> []),
     g_load = (\<lambda>t. Inr (checkpoint_json (int (length t) - 64) (take 64 t))),
     g_payload = (\<lambda>_. []), g_parse = (\<lambda>_. Inl ValueError),
     g_allowed = None, g_erase = None, g_bound = None,
     g_new_workspace = (\<lambda>n. ''ws_'' @ replicate n (CHR ''0'')),
     g_new_repo = (\<lambda>n. ''repo_'' @ replicate n (CHR ''0''))\<rparr>"

definition demo_push :: "string \<Rightarrow> obj" where
  "demo_push name = [(''format'', JStr ''engraphis-sync''), (''version'', JInt 4), (''device_id'', JStr dev_a), (''workspace_name'', JStr name)]"

lemma demo_engine_ok:
  "reads_back demo_engine" "hex_hashes (g_lib demo_engine)" "stable_device (g_lib demo_engine) dev_a"
  "pushable dev_a (demo_push name)"
proof -
  show "reads_back demo_engine"
    by (auto simp: reads_back_def demo_engine_def valid_checkpoint_def lower_hex_def checkpoint_json_def jget_def)
  show "hex_hashes (g_lib demo_engine)"
    by (auto simp: hex_hashes_def demo_engine_def demo_hash_def lower_hex_def LOWER_HEX_def list_all_iff)
  show "stable_device (g_lib demo_engine) dev_a"
    using demo_device by (auto simp: stable_device_def dev_a_def)
  show "pushable dev_a (demo_push name)" by (simp add: pushable_def demo_push_def jget_def)
qed

lemma demo_freshness: "load_snapshot_checkpoint demo_engine ws repo d empty_store = Inr None"
  by (simp add: load_snapshot_checkpoint_def get_sync_state_def empty_store_def)

text \<open>A push of this device succeeds whenever its checkpoint does not exhaust the generations.\<close>

lemma demo_stamp:
  assumes "load_snapshot_checkpoint demo_engine ws repo dev_a s = Inr c" "fst (following c) \<le> MAX_SYNC_GENERATION"
  shows "\<exists>b s'. stamp_snapshot demo_engine (demo_push name) ws repo save s = Inr (b, s')
    \<and> (\<not> save \<longrightarrow> s' = s)
    \<and> (save \<longrightarrow> load_snapshot_checkpoint demo_engine ws repo dev_a s' = Inr (Some (fst (following c), snapshot_hash (g_lib demo_engine) b)))
    \<and> snapshot_hash (g_lib demo_engine) b = replicate 64 (if name = ''b'' then CHR ''b'' else CHR ''a'')"
proof -
  have d: "normalise_device_id (g_lib demo_engine) (jget (demo_push name) ''device_id'') = Inr dev_a"
    by (simp add: demo_push_def jget_def demo_device)
  have ok: "\<exists>b s'. stamp_snapshot demo_engine (demo_push name) ws repo save s = Inr (b, s')"
    using assms by (auto simp: stamp_snapshot_def d Let_def following_def jget_jset split: option.splits)
      (auto simp: demo_push_def jhas_def jget_def or_empty_list_def)
  then obtain b s' where st: "stamp_snapshot demo_engine (demo_push name) ws repo save s = Inr (b, s')" by blast
  have name: "jget (filter (\<lambda>(key, _). key \<notin> {''created_at'', ''state_hash''}) b) ''workspace_name'' = JStr name"
  proof -
    have "jget b ''workspace_name'' = JStr name"
      by (rule stamp_snapshotE [OF st]) (simp add: demo_push_def jget_def)
    moreover have "map_of (filter (\<lambda>(key, _). key \<notin> {''created_at'', ''state_hash''}) b) ''workspace_name''
        = map_of b ''workspace_name''"
      by (induction b) auto
    ultimately show ?thesis by (simp add: jget_def)
  qed
  have hash: "snapshot_hash (g_lib demo_engine) b = replicate 64 (if name = ''b'' then CHR ''b'' else CHR ''a'')"
    using name by (simp add: snapshot_hash_def demo_engine_def demo_hash_def)
  have "s' = s" if "\<not> save" using that by (rule_tac stamp_snapshotE [OF st]) simp
  moreover have "load_snapshot_checkpoint demo_engine ws repo dev_a s'
      = Inr (Some (fst (following c), snapshot_hash (g_lib demo_engine) b))" if save
    using stamp_step(2) [OF _ demo_engine_ok(1,2,3,4) assms(1)] st that by (simp add: checkpoint_of_def)
  ultimately show ?thesis using st hash by blast
qed


lemma demo_first:
  obtains b s where "stamp_snapshot demo_engine (demo_push name) ws repo save empty_store = Inr (b, s)"
    "\<not> save \<longrightarrow> s = empty_store"
    "save \<longrightarrow> load_snapshot_checkpoint demo_engine ws repo dev_a s = Inr (Some (1, snapshot_hash (g_lib demo_engine) b))"
    "snapshot_hash (g_lib demo_engine) b = replicate 64 (if name = ''b'' then CHR ''b'' else CHR ''a'')"
  using demo_stamp [OF demo_freshness, of name ws repo save]
  by (auto simp: following_def MAX_SYNC_GENERATION_def push_bit_eq_mult)

lemma demo_next:
  assumes "load_snapshot_checkpoint demo_engine ws repo dev_a s = Inr (Some (g, h))" "g < 100"
  obtains b s' where "stamp_snapshot demo_engine (demo_push name) ws repo True s = Inr (b, s')"
    "load_snapshot_checkpoint demo_engine ws repo dev_a s' = Inr (Some (g + 1, snapshot_hash (g_lib demo_engine) b))"
  using demo_stamp [OF assms(1), of name True] assms(2)
  by (auto simp: following_def MAX_SYNC_GENERATION_def push_bit_eq_mult)

lemma no_rollback_witness:
  "\<exists>adm s. admissions demo_engine ''ws'' None dev_a empty_store adm s \<and> length adm = 2
    \<and> fst (adm ! 0) \<le> fst (adm ! 1) \<and> fst (snd (adm ! 1)) = snd (snd (adm ! 0))
    \<and> accept_snapshot demo_engine ''ws'' None dev_a [] s = Inl SyncError"
proof -
  let ?E = demo_engine and ?h = "snapshot_hash (g_lib demo_engine)"
  obtain b s where b: "stamp_snapshot ?E (demo_push ''a'') ''ws'' None True empty_store = Inr (b, s)"
    "load_snapshot_checkpoint ?E ''ws'' None dev_a s = Inr (Some (1, ?h b))"
    by (rule demo_first [of "''a''" "''ws''" None True]) simp
  obtain b' s' where b': "stamp_snapshot ?E (demo_push ''a'') ''ws'' None True s = Inr (b', s')"
    by (rule demo_next [OF b(2)]) simp_all
  note v = stamp_step(1) [OF b(1) demo_engine_ok demo_freshness] stamp_step(1) [OF b'(1) demo_engine_ok b(2)]
  let ?r = "save_snapshot_checkpoint ?E ''ws'' None dev_a 1 (?h b) empty_store"
  have V: "validated_snapshot_freshness (g_lib ?E) b = Inr (Some (1, [], ?h b))"
    "validated_snapshot_freshness (g_lib ?E) b' = Inr (Some (2, ?h b, ?h b'))"
    using v by (simp_all add: following_def)
  have r: "load_snapshot_checkpoint ?E ''ws'' None dev_a ?r = Inr (Some (1, ?h b))"
    by (rule load_save_checkpoint [OF demo_engine_ok(1) validated_valid(1) [OF V(1)]])
  have "admissions ?E ''ws'' None dev_a empty_store ([] @ [(1, [], ?h b)]) ?r"
    by (rule admissions.Admit [where snap = b and boot = True and dup = False, OF admissions.Start])
      (simp add: check_incoming_freshness_def V demo_freshness)
  then have adm: "admissions ?E ''ws'' None dev_a empty_store (([] @ [(1, [], ?h b)]) @ [(2, ?h b, ?h b')])
      (save_snapshot_checkpoint ?E ''ws'' None dev_a 2 (?h b') ?r)" (is "admissions _ _ _ _ _ ?adm ?s")
    by (rule admissions.Admit [where snap = b' and boot = False and dup = False])
      (simp add: check_incoming_freshness_def V r)
  have "1 \<le> (2::int) \<and> ((2::int) = 1 \<longrightarrow> ?h b' = ?h b) \<and> (1 = 0 + (1::nat) \<and> (2::int) = 1 + 1 \<longrightarrow> ?h b = ?h b)
    \<and> (as_int (g_lib ?E) (jget [] ''version'') 0 < 3 \<longrightarrow> accept_snapshot ?E ''ws'' None dev_a [] ?s = Inl SyncError)"
    by (rule no_rollback [OF demo_engine_ok(1) adm, of 0 1]) simp_all
  then have "accept_snapshot ?E ''ws'' None dev_a [] ?s = Inl SyncError"
    by (simp add: as_int_def jget_def)
  with adm show ?thesis by (intro exI [where x = ?adm] exI [where x = ?s]) simp
qed

lemma pushes_admitted_witness:
  "\<exists>b1 b2 s r. stamps demo_engine ''ws'' None [demo_push ''a'', demo_push ''b''] empty_store = Inr ([b1, b2], s)
    \<and> rfold (accept_snapshot demo_engine ''ws2'' None dev_a) [b2] empty_store = Inr r"
proof -
  let ?E = demo_engine
  obtain b s where b: "stamp_snapshot ?E (demo_push ''a'') ''ws'' None True empty_store = Inr (b, s)"
    "load_snapshot_checkpoint ?E ''ws'' None dev_a s = Inr (Some (1, snapshot_hash (g_lib ?E) b))"
    by (rule demo_first [of "''a''" "''ws''" None True]) simp
  obtain b' s' where b': "stamp_snapshot ?E (demo_push ''b'') ''ws'' None True s = Inr (b', s')"
    by (rule demo_next [OF b(2)]) simp_all
  have st: "stamps ?E ''ws'' None [demo_push ''a'', demo_push ''b''] empty_store = Inr ([b, b'], s')"
    by (simp add: b b')
  have "\<exists>r. rfold (accept_snapshot ?E ''ws2'' None dev_a) [b'] empty_store = Inr r"
    by (rule pushes_admitted [OF demo_engine_ok(1,1,2) refl demo_engine_ok(3) _ st _ demo_freshness demo_freshness])
      (simp_all add: demo_engine_ok)
  with st show ?thesis by blast
qed


end
