(* ===== verification/SyncFrame.thy ===== *)
theory SyncFrame
  imports SyncFreshness
begin

text \<open>
  What the three passes of a bundle (rows, markers, links) leave alone. The interface
  \<open>entry_writes\<close> is a relation between stores that every audit entry keeps; \<open>row_writes\<close>,
  \<open>marker_writes\<close> and \<open>link_writes\<close> extend it by the other writes of one pass each, and a relation
  with these laws holds between the stores before and after that pass.

  It is used for the tables a pass does not own, for the freshness of minted identifiers, and
  for a dry run, where the relation is equality.
\<close>

section \<open>Relations every write keeps\<close>

locale entry_writes =
  fixes E :: store_env and dry :: bool and R :: "store \<Rightarrow> store \<Rightarrow> bool"
  assumes refl: "R s s"
    and trans: "R a b \<Longrightarrow> R b c \<Longrightarrow> R a c"
    and entry: "\<not> dry \<Longrightarrow> audit (e_lib E) actor action target detail s = Inr s' \<Longrightarrow> R s s'"
begin

lemma rejected_R: "R (y_store y) (y_store (rejected y))"
  by (simp add: rejected_def refl)

end

locale row_writes = entry_writes +
  assumes row: "\<not> dry \<Longrightarrow> sync_write E r s = Inr (r', s') \<Longrightarrow> R s s'"
begin

lemma preserve_R:
  assumes "preserve_hlc_conflict E dry x r y = Inr y'"
  shows "R (y_store y) (y_store y')"
proof -
  have create: "R (y_store y) (y_store y')" if "create_successor E dry cid p detail y = Inr y'" for cid p detail
    using that trans row entry refl
    by (auto simp: create_successor_def rbind_eq_Inr_conv split: if_splits) blast
  have extend: "R (y_store y) (y_store y')" if "extend_successor E dry cid held p marker y = Inr y'" for cid held p marker
    using that row refl by (cases dry) (auto simp: extend_successor_def rbind_eq_Inr_conv split: if_splits)
  show ?thesis
    using assms create extend refl
    by (auto simp: preserve_hlc_conflict_def rbind_eq_Inr_conv Let_def split: option.splits prod.splits)
qed

lemma approved_R:
  assumes "apply_to_approved E X x r y = Inr y'" "x_dry X = dry"
  shows "R (y_store y) (y_store y')"
proof -
  obtain r' z where o: "reject_value_errors y (preserve_hlc_conflict E dry x r' y) = Inr z"
    and rest: "(case z of Inl y \<Rightarrow> Inr y
     | Inr y \<Rightarrow>
         rbind (if \<not> dry \<and> content r \<noteq> content x
                then audit (e_lib E) (peer_actor (e_lib E) (x_device X)) ''sync_trust_conflict'' (mem_id x)
                       ''peer content ignored because local record is explicitly trusted'' (y_store y)
                else Inr (y_store y)) (\<lambda>s.
         Inr (y\<lparr>y_store := s, y_accepted := AList.update (mem_id r) x (y_accepted y),
                y_report := count_unchanged (y_report y)\<rparr>))) = Inr y'"
    using assms unfolding apply_to_approved_def rbind_eq_Inr_conv by blast
  show ?thesis
  proof (cases z)
    case (Inl y1)
    then have "y' = rejected y"
      using o rest by (auto simp: reject_value_errors_def split: sum.splits if_splits)
    then show ?thesis using rejected_R [of y] by simp
  next
    case (Inr y1)
    then have "R (y_store y) (y_store y1)"
      using o by (auto simp: reject_value_errors_def intro: preserve_R split: sum.splits if_splits)
    moreover have "R (y_store y1) (y_store y')"
      using rest refl by (auto simp: Inr rbind_eq_Inr_conv intro: entry split: if_splits)
    ultimately show ?thesis by (rule trans)
  qed
qed

lemma join_R:
  assumes "join_row E X existing r y = Inr (Joined r1 m y1)" "x_dry X = dry"
  shows "R (y_store y) (y_store y1)"
  using assms refl
  by (auto simp: join_row_def rbind_eq_Inr_conv Let_def intro: preserve_R split: if_splits option.splits)

lemma persist_R:
  assumes "\<not> dry" "persist_new E d r s = Inr (r', s')"
  shows "R s s'"
proof -
  obtain s1 s2 msg where w: "sync_write E r s = Inr (r', s1)"
    and a: "audit (e_lib E) (peer_actor (e_lib E) d) ''sync_add'' (mem_id r') msg s1 = Inr s2"
    and q: "(if metadata_is_quarantined (JObj (metadata r'))
            then audit (e_lib E) ''poisoning_policy'' ''sync_quarantine'' (mem_id r')
                   ''synced record quarantined by deterministic policy'' s2
            else Inr s2) = Inr s'"
    using assms(2) unfolding persist_new_def rbind_eq_Inr_conv split_def by fastforce
  have "R s2 s'" using q entry [OF assms(1)] refl by (auto split: if_splits)
  then show ?thesis using row [OF assms(1) w] entry [OF assms(1) a] trans by blast
qed

lemma add_R:
  assumes "add_row E X r y = Inr y'" "x_dry X = dry"
  shows "R (y_store y) (y_store y')"
  using assms refl by (auto simp: add_row_def rbind_eq_Inr_conv intro: persist_R split: if_splits)

lemma update_R:
  assumes "update_row E X x m mid y = Inr y'" "x_dry X = dry"
  shows "R (y_store y) (y_store y')"
proof -
  have "R (y_store y) s"
    if "sync_write E m (y_store y) = Inr (r, s1)" "audit (e_lib E) actor ''sync_overwrite'' target msg s1 = Inr s" "\<not> dry"
    for r s1 s actor target msg
    using row [OF that(3,1)] entry [OF that(3,2)] by (rule trans)
  then show ?thesis
    using assms refl by (auto simp: update_row_def rbind_eq_Inr_conv split: if_splits)
qed

lemma one_R:
  assumes "apply_one E X tombs d row y = Inr y'" "x_dry X = dry"
  shows "R (y_store y) (y_store y')"
proof -
  have step: "R (y_store y) (y_store y')"
    if "(case join_row E X existing r y of
                   Inl e \<Rightarrow> if e \<in> value_errors then Inr (rejected y) else Inl e
                 | Inr Over_budget \<Rightarrow>
                     Inr (rejected (y\<lparr>y_report := (y_report y)\<lparr>rp_budget := Suc (rp_budget (y_report y))\<rparr>\<rparr>))
                 | Inr Bad_interval \<Rightarrow> Inr (rejected y)
                 | Inr (Joined r m y) \<Rightarrow>
                     (case existing of None \<Rightarrow> add_row E X r y
                      | Some x \<Rightarrow> update_row E X x m (mem_id r) y)) = Inr y'" for existing r
    using that assms(2) refl
    by (auto simp: rejected_def split: sum.splits if_splits join_outcome.splits option.splits
        intro: trans [OF join_R] add_R update_R)
  show ?thesis
  proof (cases row)
    case None
    then show ?thesis using assms(1) rejected_R [of y] by (simp add: apply_one_def)
  next
    case (Some r)
    show ?thesis
    proof (cases "rescope X tombs d r")
      case None
      then show ?thesis using assms(1) rejected_R [of y] by (simp add: apply_one_def Some)
    next
      case (Some r0)
      then show ?thesis
        using assms step unfolding apply_one_def \<open>row = Some r\<close> option.case Some Let_def rbind_eq_Inr_conv
        by (auto simp: rbind_eq_Inr_conv intro: approved_R rejected_R split: if_splits)
    qed
  qed
qed

lemma batch_R:
  assumes "apply_batch E X tombs rows y = Inr y'" "x_dry X = dry"
  shows "R (y_store y) (y_store y')"
proof -
  obtain parsed where run: "rfold (\<lambda>(d, row) y. apply_one E X tombs (as_obj d) row y) (zip rows parsed)
         (y\<lparr>y_known := batch_known E X parsed y\<rparr>) = Inr y'"
    using assms(1) unfolding apply_batch_def rbind_eq_Inr_conv by blast
  show ?thesis
    by (rule rfold_invariant [OF run, where P = "\<lambda>u. R (y_store y) (y_store u)"])
      (use assms(2) in \<open>auto intro: refl trans one_R split: prod.splits\<close>)
qed

lemma batches_R:
  "apply_batches E X tombs bs y = (err, y') \<Longrightarrow> x_dry X = dry \<Longrightarrow> R (y_store y) (y_store y')"
  by (induction bs arbitrary: y) (auto intro: refl trans batch_R split: sum.splits)

lemma memories_R:
  "apply_memories E X tombs rows y = (err, y') \<Longrightarrow> x_dry X = dry \<Longrightarrow> R (y_store y) (y_store y')"
  by (auto simp: apply_memories_def refl intro: batches_R split: sum.splits)

end


section \<open>Markers and links\<close>

locale marker_writes = entry_writes +
  assumes marker: "\<not> dry \<Longrightarrow> add_memory_tombstone E mid t dev ws repo cls s = Inr s' \<Longrightarrow> R s s'"
    and erased: "\<not> dry \<Longrightarrow> R s (snd (erase_memory_rows E actor mid s))"
begin

lemma audit_live_R:
  assumes "audit_live E X action target detail y = Inr y'" "x_dry X = dry"
  shows "R (y_store y) (y_store y')"
  using assms by (auto simp: audit_live_def rbind_eq_Inr_conv intro: refl entry split: if_splits)

lemma marker_R:
  assumes "record_marker E X t stored y = Inr y'" "\<not> dry"
  shows "R (y_store y) (y_store y')"
  using assms by (auto simp: record_marker_def rbind_eq_Inr_conv intro: marker)

lemma tomb_R:
  assumes "apply_tomb E X allow t (y, acc) = Inr (y', acc')" "x_dry X = dry"
  shows "R (y_store y) (y_store y')"
proof (cases "tomb_verdict E X allow t (y_store y)")
  case Refused
  then show ?thesis using assms(1) rejected_R [of y] by (auto simp: apply_tomb_def)
next
  case Refused_protected
  then show ?thesis
    using assms audit_live_R [of X _ _ _ "rejected y"] rejected_R [of y]
    by (auto simp: apply_tomb_def rbind_eq_Inr_conv intro: trans)
next
  case Device_not_allowed
  then show ?thesis
    using assms audit_live_R [of X _ _ _ "bump held_report y"]
    by (auto simp: apply_tomb_def rbind_eq_Inr_conv bump_def)
next
  case (Admitted stored changed)
  have held: "R (y_store y) (y_store y')"
    if "(if dry then Inr y else record_marker E X t stored y) = Inr y1"
      "audit_live E X action target detail (bump held_report y1) = Inr y'" for y1 action target detail
  proof (rule trans)
    show "R (y_store y) (y_store y1)" using that(1) refl marker_R by (auto split: if_splits)
    show "R (y_store y1) (y_store y')" using audit_live_R [OF that(2) assms(2)] by (simp add: bump_def)
  qed
  have erase: "R (y_store y) (snd (erase_memory_rows E actor mid (y_store y1)))"
    if "record_marker E X t stored y = Inr y1" "\<not> dry" for y1 actor mid
    using marker_R [OF that] erased [OF that(2)] by (rule trans)
  show ?thesis
    using assms held erase refl marker_R
    by (auto simp: apply_tomb_def Admitted Let_def rbind_eq_Inr_conv bump_def split: if_splits)
qed

lemma tombs_R:
  assumes "apply_tombstones E X allow dicts y = Inr (y', acc)" "x_dry X = dry"
  shows "R (y_store y) (y_store y')"
proof -
  obtain ts where run: "rfold (apply_tomb E X allow) ts
      (bump (\<lambda>p. p\<lparr>rp_rejected := rp_rejected p + malformed_tombs dicts\<rparr>) y, []) = Inr (y', acc)"
    using assms(1) unfolding apply_tombstones_def rbind_eq_Inr_conv by blast
  have "R (y_store y) (y_store (fst (y', acc)))"
  proof (rule rfold_invariant [OF run])
    show "R (y_store y) (y_store (fst (bump (\<lambda>p. p\<lparr>rp_rejected := rp_rejected p + malformed_tombs dicts\<rparr>) y, [])))"
      by (simp add: bump_def refl)
  next
    fix t u v
    assume "R (y_store y) (y_store (fst u))" "apply_tomb E X allow t u = Inr v"
    then show "R (y_store y) (y_store (fst v))"
      using trans tomb_R [of X allow t "fst u" "snd u" "fst v" "snd v"] assms(2) by auto
  qed
  then show ?thesis by simp
qed

end

locale link_writes = entry_writes +
  assumes links: "\<not> dry \<Longrightarrow> only_links s s' \<Longrightarrow> R s s'"
begin

lemma link_R:
  assumes "write_link E X d c y = Inr y'" "x_dry X = dry"
  shows "R (y_store y) (y_store y')"
proof -
  have version: "R s s'" if "\<not> dry" "add_link_version L a b rel layer reason t g s = Inr (ins, s')"
    for s s' L a b rel layer reason t g ins
    using add_link_version_step [OF that(2)] links [OF that(1)] by (simp add: links_step_def)
  have plain: "R s s'" if "\<not> dry" "add_link L a b rel layer reason t g s = Inr s'"
    for s s' L a b rel layer reason t g
    using add_link_step [OF that(2)] links [OF that(1)] by (simp add: links_step_def)
  have logged: "R s s'" if "\<not> dry" "audit_link E X c s = Inr s'" for s s'
    using that entry by (simp add: audit_link_def)
  have "R (y_store y) (y_store y')" if "write_link_version E X c t y = Inr y'" for t
    using that assms(2) refl
    by (auto simp: write_link_version_def rbind_eq_Inr_conv Let_def bump_def split: if_splits
        intro: version trans [OF version logged])
  moreover have "R (y_store y) (y_store y')" if "write_plain_link E X c y = Inr y'"
    using that assms(2) refl
    by (auto simp: write_plain_link_def rbind_eq_Inr_conv Let_def bump_def split: if_splits option.splits
        intro: plain trans [OF plain logged])
  ultimately show ?thesis
    using assms(1) rejected_R [of y] by (auto simp: write_link_def Let_def split: if_splits)
qed

lemma links_R:
  assumes "apply_links E X entries n committed y = (err, y')" "x_dry X = dry" "R (y_store y0) (y_store y)"
    and "R (y_store y0) (y_store committed)"
  shows "R (y_store y0) (y_store y')"
  using assms(1,3,4)
proof (induction entries arbitrary: n committed y)
  case (Cons e es)
  show ?case
  proof (cases "link_verdict_of (e_lib E) X (y_accepted y) e")
    case Skipped
    then show ?thesis using Cons by simp
  next
    case Refused_link
    then show ?thesis using Cons by (simp add: rejected_def)
  next
    case (Candidate c)
    define full where "full = (APPLY_BATCH \<le> Suc n)"
    define com where "com = (if full then y else committed)"
    have com: "R (y_store y0) (y_store com)" using Cons.prems by (simp add: com_def)
    show ?thesis
    proof (cases "write_link E X (as_obj e) c y")
      case (Inl err')
      then have "y' = com" using Cons.prems(1) Candidate by (simp add: com_def full_def)
      then show ?thesis using com by simp
    next
      case (Inr y1)
      then have "apply_links E X es (if full then 0 else Suc n) com y1 = (err, y')"
        using Cons.prems(1) Candidate by (simp add: com_def full_def Let_def split: if_splits)
      moreover have "R (y_store y0) (y_store y1)"
        using Cons.prems(2) link_R [OF Inr assms(2)] by (rule trans)
      ultimately show ?thesis using Cons.IH com by blast
    qed
  qed
qed simp

end

locale pass_writes = row_writes + marker_writes + link_writes

section \<open>The relations used\<close>

lemma sync_write_state:
  assumes "sync_write E r s = Inr (r', s')"
  shows "st_state s' = st_state s"
proof -
  obtain s1 where w: "add_memory_impl E False True r s = Inr (r', s1)" and s': "st_state s' = st_state s1"
    using sync_write_impl [OF assms] by (metis store.select_convs(8) store.surjective store.update_convs(4))
  obtain p y where l: "locate_row E False p s = Inr y" and s1: "s1 = store_row (fst (snd y)) r' (snd (snd y))"
    using w unfolding add_memory_impl_def Let_def rbind_eq_Inr_conv split_def
    by (auto simp: rbind_eq_Inr_conv split: if_splits)
  have "st_state (snd (snd y)) = st_state s"
    using l by (auto simp: locate_row_def mint_id_def Let_def rbind_eq_Inr_conv audit_tables split: if_splits option.splits)
  then show ?thesis by (simp add: s' s1 store_row_def fts_upsert_def Let_def)
qed

lemma only_links_state: "only_links s s' \<Longrightarrow> st_state s' = st_state s"
  unfolding only_links_def by (metis store.select_convs(8) store.surjective store.update_convs(9))

lemma erase_tables:
  "st_state (snd (erase_memory_rows E actor mid s)) = st_state s"
  "st_minted (snd (erase_memory_rows E actor mid s)) = st_minted s"
  "get_memory (snd (erase_memory_rows E actor mid s)) i \<in> {None, get_memory s i}"
  by (auto simp: erase_memory_rows_def Let_def get_memory_def delete_conv' split: option.splits)

text \<open>No pass touches the local synchronisation state; a dry run changes nothing.\<close>

interpretation passes: pass_writes E dry "\<lambda>s s'. st_state s' = st_state s" for E dry
  by unfold_locales (auto simp: sync_write_state audit_tables add_tombstone_frame only_links_state erase_tables)

interpretation dry_run: pass_writes E True "(=)" for E
  by unfold_locales auto

text \<open>Markers never bring a row into being.\<close>

definition fewer_rows :: "store \<Rightarrow> store \<Rightarrow> bool" where
  "fewer_rows s s' \<longleftrightarrow> st_minted s' = st_minted s \<and> (\<forall>i. get_memory s' i \<in> {None, get_memory s i})"

interpretation fewer: marker_writes E dry fewer_rows for E dry
proof unfold_locales
  show "fewer_rows a c" if "fewer_rows a b" "fewer_rows b c" for a b c
    using that unfolding fewer_rows_def by (metis insert_iff singletonD)
  show "fewer_rows s (snd (erase_memory_rows E actor mid s))" for actor mid s
    using erase_tables by (simp add: fewer_rows_def)
qed (auto simp: fewer_rows_def audit_tables audit_get add_tombstone_frame get_memory_def)

lemma fewer_fresh: "fewer_rows s s' \<Longrightarrow> mint_fresh E s \<Longrightarrow> mint_fresh E s'"
  unfolding fewer_rows_def mint_fresh_def by (metis insert_iff singletonD)

end
