(* ===== verification/SyncBundle.thy ===== *)
theory SyncBundle
  imports SyncFrame
begin

text \<open>
  The application of a whole bundle (\<^verbatim>\<open>engraphis/core/sync.py\<close>, \<open>apply_bundle\<close>): the checks on
  the bundle, the resolution of the receiving workspace and of the repositories by name, the
  admission of the snapshot, and the three passes over markers, rows and links, after which the
  checkpoint of the sender is advanced.

  The database is the store with the tables of workspace and repository names and of the
  transfer counters. An operation
  that may fail returns what it left in the database beside its result.

  Lemmas: a dry run and a refused bundle change nothing; whatever a bundle holds, only rows of
  the receiving workspace that are not protected change; an applied snapshot cannot be rolled back.
\<close>

section \<open>The database\<close>

record sync_db =
  d_store :: store
  d_workspaces :: "(string \<times> string) list" \<comment> \<open>name, identifier\<close>
  d_repos :: "((string \<times> string) \<times> string) list" \<comment> \<open>workspace and name, identifier\<close>
  d_stats :: "(string \<times> nat \<times> nat) list" \<comment> \<open>device, bytes sent and received\<close>

definition authorize_workspace :: "sync_engine \<Rightarrow> string \<Rightarrow> unit result" where
  "authorize_workspace G name =
     (case g_bound G of None \<Rightarrow> Inr () | Some names \<Rightarrow> if name \<in> set names then Inr () else Inl ValueError)"

text \<open>The store's environment, with its allow-list resolved to the workspaces that exist.\<close>

definition bound_env :: "sync_engine \<Rightarrow> sync_db \<Rightarrow> store_env" where
  "bound_env G D = (g_env G)\<lparr>e_allowed := map_option (\<lambda>names. map snd (filter (\<lambda>(n, _). n \<in> set names) (d_workspaces D)))
     (g_bound G)\<rparr>"

definition get_or_create_workspace :: "sync_engine \<Rightarrow> string \<Rightarrow> sync_db \<Rightarrow> (string \<times> sync_db) result" where
  "get_or_create_workspace G name D =
     rbind (authorize_workspace G name) (\<lambda>_.
       case map_of (d_workspaces D) name of
         Some i \<Rightarrow> Inr (i, D)
       | None \<Rightarrow> let i = g_new_workspace G (length (d_workspaces D))
                 in Inr (i, D\<lparr>d_workspaces := d_workspaces D @ [(name, i)]\<rparr>))"

definition get_or_create_repo :: "sync_engine \<Rightarrow> string \<Rightarrow> string \<Rightarrow> sync_db \<Rightarrow> (string \<times> sync_db) result" where
  "get_or_create_repo G ws name D =
     rbind (authorize_workspace_id (bound_env G D) (Some ws)) (\<lambda>_.
       case map_of (d_repos D) (ws, name) of
         Some i \<Rightarrow> Inr (i, D)
       | None \<Rightarrow> let i = g_new_repo G (length (d_repos D))
                 in Inr (i, D\<lparr>d_repos := d_repos D @ [((ws, name), i)]\<rparr>))"

section \<open>The checks on a bundle\<close>

definition SYNC_FORMAT :: string where "SYNC_FORMAT = ''engraphis-sync''"
definition SYNC_ACCEPTED_VERSIONS :: "int list" where "SYNC_ACCEPTED_VERSIONS = [1, 2, 3, 4]"
definition MAX_TOMBSTONES :: nat where "MAX_TOMBSTONES = 200000"
definition MAX_MEMORIES :: nat where "MAX_MEMORIES = 200000"
definition MAX_LINKS :: nat where "MAX_LINKS = 500000"
definition MAX_REPOS :: nat where "MAX_REPOS = 10000"
definition MAX_WORKSPACE_NAME_CHARS :: nat where "MAX_WORKSPACE_NAME_CHARS = 200"
definition MAX_REPO_NAME_CHARS :: nat where "MAX_REPO_NAME_CHARS = 200"

record bundle_head =
  h_bundle :: obj
  h_device :: string
  h_rows :: "json list"
  h_links :: "json list"
  h_tombs :: "json list"
  h_workspace :: string
  h_repos :: "(string \<times> string) list"

definition bundle_lists :: "obj \<Rightarrow> (json list \<times> json list \<times> json list) result" where
  "bundle_lists b =
     (case (or_empty_list (jget b ''memories''), or_empty_list (jget b ''mem_links''), or_empty_list (jget b ''tombstones'')) of
        (JList ms, JList ls, JList ts) \<Rightarrow>
          if length ms > MAX_MEMORIES \<or> length ls > MAX_LINKS \<or> length ts > MAX_TOMBSTONES then Inl SyncError
          else Inr (ms, ls, ts)
      | _ \<Rightarrow> Inl SyncError)"

definition target_name :: "sync_engine \<Rightarrow> obj \<Rightarrow> string option \<Rightarrow> string result" where
  "target_name G b into =
     rbind (case into of Some w \<Rightarrow> Inr w
       | None \<Rightarrow> (case jget b ''workspace_name'' of JNull \<Rightarrow> Inr [] | JStr w \<Rightarrow> Inr w | _ \<Rightarrow> Inl SyncError)) (\<lambda>raw.
     let name = strip (clamp_str (g_lib G) (JStr (if raw = [] then ''default'' else raw)) MAX_WORKSPACE_NAME_CHARS);
         name = (if name = [] then ''default'' else name)
     in case g_allowed G of
          None \<Rightarrow> Inr name
        | Some names \<Rightarrow> if name \<in> set names then Inr name else Inl SyncError)"

text \<open>The repositories of the bundle with a usable name, by their identifier at the sender.\<close>

definition remote_repos :: "sync_engine \<Rightarrow> obj \<Rightarrow> (string \<times> string) list result" where
  "remote_repos G b =
     (case (if py_truthy (jget b ''repos'') then jget b ''repos'' else JObj []) of
        JObj d \<Rightarrow>
          if length d > MAX_REPOS then Inl SyncError
          else Inr (concat (map (\<lambda>(rid, v). case v of
                JStr name \<Rightarrow> if name = [] then [] else [(rid, clamp_str (g_lib G) (JStr name) MAX_REPO_NAME_CHARS)]
              | _ \<Rightarrow> []) d))
      | _ \<Rightarrow> Inl SyncError)"

definition read_bundle :: "sync_engine \<Rightarrow> json \<Rightarrow> string option \<Rightarrow> bundle_head result" where
  "read_bundle G v into =
     (case v of
        JObj b \<Rightarrow>
          if jget b ''format'' \<noteq> JStr SYNC_FORMAT then Inl SyncError
          else if as_int (g_lib G) (jget b ''version'') 0 \<notin> set SYNC_ACCEPTED_VERSIONS then Inl SyncError
          else
            rbind (validated_snapshot_freshness (g_lib G) b) (\<lambda>_.
            rbind (normalise_device_id (g_lib G) (jget b ''device_id'')) (\<lambda>device.
            rbind (bundle_lists b) (\<lambda>(ms, ls, ts).
            rbind (target_name G b into) (\<lambda>name.
            rbind (remote_repos G b) (\<lambda>repos.
              Inr \<lparr>h_bundle = b, h_device = device, h_rows = ms, h_links = ls, h_tombs = ts,
                   h_workspace = name, h_repos = repos\<rparr>)))))
      | _ \<Rightarrow> Inl SyncError)"

section \<open>Scope by name\<close>

text \<open>A dry run creates no name: what is missing is a sentinel.\<close>

definition dry_workspace :: "string \<Rightarrow> sync_db \<Rightarrow> string" where
  "dry_workspace name D =
     (case map_of (d_workspaces D) name of Some i \<Rightarrow> i | None \<Rightarrow> ''__dry_run_workspace__:'' @ name)"

definition dry_repo :: "string \<Rightarrow> sync_db \<Rightarrow> string \<times> string \<Rightarrow> string \<times> string" where
  "dry_repo name D r =
     (case r of (rid, rname) \<Rightarrow>
        (rid, case (case map_of (d_workspaces D) name of None \<Rightarrow> None | Some ws \<Rightarrow> map_of (d_repos D) (ws, rname)) of
                Some i \<Rightarrow> i
              | None \<Rightarrow> ''__dry_run_repo__:'' @ name @ '':'' @ rid))"

fun create_repos :: "sync_engine \<Rightarrow> string \<Rightarrow> (string \<times> string) list \<Rightarrow> sync_db \<Rightarrow>
    ((string \<times> string) list) result \<times> sync_db" where
  "create_repos G ws [] D = (Inr [], D)"
| "create_repos G ws ((rid, name) # rest) D =
     (case get_or_create_repo G ws name D of
        Inl e \<Rightarrow> (Inl e, D)
      | Inr (i, D) \<Rightarrow> (case create_repos G ws rest D of
            (Inl e, D) \<Rightarrow> (Inl e, D) | (Inr remap, D) \<Rightarrow> (Inr ((rid, i) # remap), D)))"

section \<open>The passes\<close>

definition start_state :: "store \<Rightarrow> sync_state" where
  "start_state s = \<lparr>y_store = s, y_report = empty_report, y_accepted = [], y_known = []\<rparr>"

definition run_passes :: "store_env \<Rightarrow> sync_target \<Rightarrow> string list option \<Rightarrow> bundle_head \<Rightarrow> sync_state \<Rightarrow>
    py_error option \<times> sync_state" where
  "run_passes E X allow h y =
     (case apply_tombstones E X allow (h_tombs h) y of
        Inl e \<Rightarrow> (Some e, y)
      | Inr (y, admitted) \<Rightarrow>
          (case apply_memories E X admitted (h_rows h) y of
             (Some e, y) \<Rightarrow> (Some e, y)
           | (None, y) \<Rightarrow> apply_links E X (h_links h) 0 y y))"

definition finish_bundle :: "sync_engine \<Rightarrow> sync_target \<Rightarrow> bundle_head \<Rightarrow> (int \<times> string \<times> string) option \<Rightarrow> sync_db \<Rightarrow>
    sync_report result \<times> sync_db" where
  "finish_bundle G X h freshness D =
     (case run_passes (bound_env G D) X (g_erase G) h (start_state (d_store D)) of
        (Some e, y) \<Rightarrow> (Inl e, D\<lparr>d_store := y_store y\<rparr>)
      | (None, y) \<Rightarrow>
          (Inr (y_report y), D\<lparr>d_store :=
             (case freshness of
                Some (generation, _, state_hash) \<Rightarrow>
                  if x_dry X then y_store y
                  else save_snapshot_checkpoint G (x_workspace X) (x_only X) (h_device h) generation state_hash (y_store y)
              | None \<Rightarrow> y_store y)\<rparr>))"

definition bundle_target :: "bundle_head \<Rightarrow> string option \<Rightarrow> bool \<Rightarrow> string \<Rightarrow> (string \<times> string) list \<Rightarrow> sync_target" where
  "bundle_target h only dry ws remap =
     \<lparr>x_workspace = ws, x_remap = remap, x_only = only, x_device = h_device h, x_dry = dry\<rparr>"

definition apply_bundle :: "sync_engine \<Rightarrow> json \<Rightarrow> string option \<Rightarrow> string option \<Rightarrow> bool \<Rightarrow> sync_db \<Rightarrow>
    sync_report result \<times> sync_db" where
  "apply_bundle G v into only dry D =
     (case read_bundle G v into of
        Inl e \<Rightarrow> (Inl e, D)
      | Inr h \<Rightarrow>
          if dry then
            let ws = dry_workspace (h_workspace h) D; remap = map (dry_repo (h_workspace h) D) (h_repos h)
            in case check_incoming_freshness G (h_bundle h) ws only (h_device h) (d_store D) of
                 Inl e \<Rightarrow> (Inl e, D)
               | Inr (freshness, _, _) \<Rightarrow> finish_bundle G (bundle_target h only True ws remap) h freshness D
          else
            (case get_or_create_workspace G (h_workspace h) D of
               Inl e \<Rightarrow> (Inl e, D)
             | Inr (ws, D) \<Rightarrow>
                 (case check_incoming_freshness G (h_bundle h) ws only (h_device h) (d_store D) of
                    Inl e \<Rightarrow> (Inl e, D)
                  | Inr (freshness, _, _) \<Rightarrow>
                      (case create_repos G ws (h_repos h) D of
                         (Inl e, D) \<Rightarrow> (Inl e, D)
                       | (Inr remap, D) \<Rightarrow> finish_bundle G (bundle_target h only False ws remap) h freshness D))))"


lemma bundle_target_simps [simp]:
  "x_workspace (bundle_target h only dry ws remap) = ws" "x_only (bundle_target h only dry ws remap) = only"
  "x_device (bundle_target h only dry ws remap) = h_device h" "x_dry (bundle_target h only dry ws remap) = dry"
  by (simp_all add: bundle_target_def)

section \<open>The passes together\<close>

text \<open>A relation kept by every kind of write is kept by the three passes.\<close>

context pass_writes
begin

lemma run_R:
  assumes "run_passes E X allow h y = (err, y')" "x_dry X = dry"
  shows "R (y_store y) (y_store y')"
proof (cases "apply_tombstones E X allow (h_tombs h) y")
  case (Inl e)
  then show ?thesis using assms(1) by (simp add: run_passes_def refl)
next
  case (Inr t)
  obtain y1 admitted where t: "t = (y1, admitted)" by (cases t)
  have 1: "R (y_store y) (y_store y1)" using tombs_R [OF _ assms(2)] Inr t by blast
  obtain err2 y2 where m: "apply_memories E X admitted (h_rows h) y1 = (err2, y2)"
    by (cases "apply_memories E X admitted (h_rows h) y1")
  have 2: "R (y_store y) (y_store y2)" using 1 memories_R [OF m assms(2)] by (rule trans)
  show ?thesis
  proof (cases err2)
    case None
    then have "apply_links E X (h_links h) 0 y2 y2 = (err, y')"
      using assms(1) by (simp add: run_passes_def Inr t m)
    then show ?thesis using assms(2) 2 2 by (rule links_R)
  next
    case (Some e)
    then show ?thesis using assms(1) 2 by (simp add: run_passes_def Inr t m)
  qed
qed

end

lemma finish_dry: "x_dry X \<Longrightarrow> snd (finish_bundle G X h freshness D) = D"
proof -
  assume dry: "x_dry X"
  obtain err y where r: "run_passes (bound_env G D) X (g_erase G) h (start_state (d_store D)) = (err, y)"
    by (cases "run_passes (bound_env G D) X (g_erase G) h (start_state (d_store D))")
  have "y_store y = d_store D"
    using dry_run.run_R [OF r] dry by (simp add: start_state_def)
  then show ?thesis by (cases err) (auto simp: finish_bundle_def r dry split: option.splits)
qed

lemma apply_dry: "snd (apply_bundle G v into only True D) = D"
  by (auto simp: apply_bundle_def Let_def finish_dry split: sum.splits prod.splits)

text \<open>What a live application runs, once the workspace is resolved and the snapshot admitted.\<close>

lemma apply_bundle_live:
  assumes "apply_bundle G v into only False D = (res, D')" "read_bundle G v into = Inr h"
  obtains (refused) e where "res = Inl e" "d_store D' = d_store D"
  | (passes) ws D0 freshness remap boot dup where
      "map_of (d_workspaces D0) (h_workspace h) = Some ws" "d_store D0 = d_store D"
      "check_incoming_freshness G (h_bundle h) ws only (h_device h) (d_store D) = Inr (freshness, boot, dup)"
      "finish_bundle G (bundle_target h only False ws remap) h freshness D0 = (res, D')"
proof -
  have repos: "d_store D2 = d_store D1 \<and> d_workspaces D2 = d_workspaces D1"
    if "create_repos G ws rs D1 = (r, D2)" for ws rs D1 r D2
    using that
    by (induction rs arbitrary: D1 r D2)
      (auto simp: get_or_create_repo_def rbind_def Let_def split: sum.splits option.splits prod.splits)
  show thesis
  proof (cases "get_or_create_workspace G (h_workspace h) D")
    case (Inl e)
    then show ?thesis using assms refused [of e] by (auto simp: apply_bundle_def)
  next
    case (Inr q)
    obtain ws D1 where q: "q = (ws, D1)" by (cases q)
    have D1: "d_store D1 = d_store D" "map_of (d_workspaces D1) (h_workspace h) = Some ws"
      using Inr by (auto simp: q get_or_create_workspace_def rbind_eq_Inr_conv Let_def map_add_def split: option.splits)
    show ?thesis
    proof (cases "check_incoming_freshness G (h_bundle h) ws only (h_device h) (d_store D)")
      case (Inl e)
      then show ?thesis
        using assms refused [of e] \<open>get_or_create_workspace G (h_workspace h) D = Inr q\<close> D1
        by (auto simp: apply_bundle_def q)
    next
      case (Inr f)
      obtain freshness boot dup where f: "f = (freshness, boot, dup)" by (cases f)
      obtain r D2 where c: "create_repos G ws (h_repos h) D1 = (r, D2)" by (cases "create_repos G ws (h_repos h) D1")
      show ?thesis
      proof (cases r)
        case (Inl e)
        then show ?thesis
          using assms refused [of e] \<open>get_or_create_workspace G (h_workspace h) D = Inr q\<close> \<open>_ = Inr f\<close> D1 repos [OF c]
          by (auto simp: apply_bundle_def q f c)
      next
        case (Inr remap)
        then have "finish_bundle G (bundle_target h only False ws remap) h freshness D2 = (res, D')"
          using assms \<open>get_or_create_workspace G (h_workspace h) D = Inr q\<close> \<open>_ = Inr f\<close> D1
          by (simp add: apply_bundle_def q f c)
        then show ?thesis using passes [of D2 ws] repos [OF c] D1 \<open>_ = Inr f\<close> f by simp
      qed
    qed
  qed
qed

section \<open>What a bundle may do to a row\<close>

definition sha_hex :: "pylib \<Rightarrow> bool" where
  "sha_hex L \<longleftrightarrow> (\<forall>s. lower_hex 64 (lib_sha256 L s))"

lemma hex_safe: "lower_hex n t \<Longrightarrow> list_all (alnum_or cs) t"
proof -
  have "list_all (alnum_or []) LOWER_HEX" by code_simp
  then show "lower_hex n t \<Longrightarrow> list_all (alnum_or cs) t"
    by (auto simp: lower_hex_def list_all_iff alnum_or_def)
qed

lemma normalised_stable:
  assumes "normalise_device_id L v = Inr d" "sha_hex L"
  shows "stable_device L d"
proof -
  have hex: "lower_hex 16 (take 16 (lib_sha256 L t))" for t
    using assms(2) by (auto simp: sha_hex_def lower_hex_def list_all_iff dest: in_set_takeD)
  have "stable_device L (''legacy_'' @ take 16 (lib_sha256 L t))" for t
    using hex [of t] hex_safe [OF hex [of t]]
    by (simp add: stable_device_def normalise_device_id_def safe_device_id_def MAX_DEVICE_ID_CHARS_def lower_hex_def
        alnum_or_def is_letter_def is_lower_def)
  moreover have "stable_device L ''legacy_anonymous''"
    by (simp add: stable_device_def normalise_device_id_def safe_device_id_def MAX_DEVICE_ID_CHARS_def
        alnum_or_def is_letter_def is_lower_def)
  moreover have "stable_device L d" if "v = JStr d" "d \<noteq> []"
    using assms(1) that by (simp add: stable_device_def)
  ultimately show ?thesis
    using assms(1) by (auto simp: normalise_device_id_def split: if_splits json.splits)
qed

definition bundle_step :: "pylib \<Rightarrow> string \<Rightarrow> memory_record option \<Rightarrow> memory_record option \<Rightarrow> bool" where
  "bundle_step L ws old new \<longleftrightarrow> new = old \<or>
     pred_option (\<lambda>r. \<not> protected_row L r \<and> (workspace_id r = Some ws \<or> successor r)) old \<and>
     pred_option (\<lambda>r. \<not> approved_row L r) new \<and>
     (old = None \<longrightarrow> pred_option (\<lambda>r. workspace_id r = Some ws) new)"

text \<open>The environment and the store a bundle is applied to.\<close>

definition bundle_ready :: "sync_engine \<Rightarrow> bundle_head \<Rightarrow> store \<Rightarrow> bool" where
  "bundle_ready G h s \<longleftrightarrow> g_bound G = None \<and> sha_hex (g_lib G) \<and> store_ok s \<and> tombs_ok s \<and>
     mint_fresh (g_env G) s \<and> mint_apart (g_env G) (bundle_ids (g_lib G) (h_rows h))"

interpretation kept_ok: marker_writes E dry "\<lambda>s s'. store_ok s \<longrightarrow> store_ok s'" for E dry
proof unfold_locales
  show "store_ok s \<longrightarrow> store_ok s'" if "add_memory_tombstone E mid t dev ws repo cls s = Inr s'" for mid t dev ws repo cls s s'
    using same_rows_ok [OF add_tombstone_frame(1-3) [OF that]] by simp
  show "store_ok s \<longrightarrow> store_ok (snd (erase_memory_rows E actor mid s))" for actor mid s
    using erase_rows_effect(1) [OF prod.collapse [symmetric]] by blast
qed (auto simp: audit_ok)

lemma tombs_then_rows:
  assumes "get_memory s1 i = get_memory s i \<or> (\<exists>r. get_memory s i = Some r \<and> erasable E X r) \<and> get_memory s1 i = None"
    and "row_effect E (x_workspace X) m i (get_memory s1 i) (get_memory s2 i)"
  shows "bundle_step (e_lib E) (x_workspace X) (get_memory s i) (get_memory s2 i)"
  using assms by (cases "get_memory s i") (auto simp: bundle_step_def row_effect_def erasable_def)

lemma passes_step:
  assumes run: "run_passes E X allow h (start_state s) = (err, y')" and "\<not> x_dry X" "e_allowed E = None"
    and dev: "stable_device (e_lib E) (x_device X)" and ok: "store_ok s" "tombs_ok s" "mint_fresh E s"
    and apart: "mint_apart E (bundle_ids (e_lib E) (h_rows h))"
  shows "bundle_step (e_lib E) (x_workspace X) (get_memory s i) (get_memory (y_store y') i)"
proof -
  have y: "y_store (start_state s) = s" by (simp add: start_state_def)
  obtain y1 admitted where t: "apply_tombstones E X allow (h_tombs h) (start_state s) = Inr (y1, admitted)"
    and eff: "tomb_effect E X admitted s (y_store y1)"
    using apply_tombs_total [OF dev assms(3), of "start_state s" allow "h_tombs h"] ok assms(2) by (auto simp: y)
  have ok1: "store_ok (y_store y1)" using kept_ok.tombs_R [OF t refl] ok by (simp add: y)
  have "fewer_rows s (y_store y1)" using fewer.tombs_R [OF t refl] by (simp add: y)
  then have fresh1: "mint_fresh E (y_store y1)" using ok(3) by (rule fewer_fresh)
  obtain err2 y2 where m: "apply_memories E X admitted (h_rows h) y1 = (err2, y2)"
    by (cases "apply_memories E X admitted (h_rows h) y1")
  obtain live_map where live: "live_tombstones X admitted (y_store y1) = Inr live_map"
    using live_tombstones_total by blast
  have "sync_ready E X (h_rows h) y1" using ok1 fresh1 assms(2,3) apart by (simp add: sync_ready_def)
  then have "row_effect E (x_workspace X) live_map i (get_memory (y_store y1) i) (get_memory (y_store y2) i)"
    using m live by (rule bundle_effect)
  moreover have "get_memory (y_store y1) i = get_memory s i \<or>
      (\<exists>r. get_memory s i = Some r \<and> erasable E X r) \<and> get_memory (y_store y1) i = None"
    using eff unfolding tomb_effect_def absent_def by blast
  ultimately have step: "bundle_step (e_lib E) (x_workspace X) (get_memory s i) (get_memory (y_store y2) i)"
    by (intro tombs_then_rows)
  have "get_memory (y_store y') i = get_memory (y_store y2) i"
  proof (cases err2)
    case None
    then have l: "apply_links E X (h_links h) 0 y2 y2 = (err, y')" using run by (simp add: run_passes_def t m)
    have "link_effect (e_lib E) X (y_accepted y2) (y_store y2) (y_store y')"
      by (rule apply_links_effect [OF l refl]) (rule link_effect_refl)+
    then show ?thesis by (simp add: link_effect_def)
  next
    case (Some e)
    then show ?thesis using run by (simp add: run_passes_def t m)
  qed
  with step show ?thesis by simp
qed

lemma checkpoint_rows [simp]: "get_memory (save_snapshot_checkpoint G ws repo d g h s) i = get_memory s i"
  by (simp add: save_snapshot_checkpoint_def set_sync_state_def get_memory_def)

lemma unbound_env: "g_bound G = None \<Longrightarrow> e_allowed (bound_env G D) = None"
  "e_lib (bound_env G D) = g_lib G" "mint_fresh (bound_env G D) s = mint_fresh (g_env G) s"
  "mint_apart (bound_env G D) ids = mint_apart (g_env G) ids"
  by (simp_all add: bound_env_def mint_fresh_def mint_apart_def)

lemma finish_step:
  assumes "finish_bundle G (bundle_target h only False ws remap) h freshness D = (res, D')"
    and "bundle_ready G h (d_store D)" "stable_device (g_lib G) (h_device h)"
  shows "bundle_step (g_lib G) ws (get_memory (d_store D) i) (get_memory (d_store D') i) \<and>
    d_workspaces D' = d_workspaces D"
proof -
  let ?X = "bundle_target h only False ws remap" and ?E = "bound_env G D"
  obtain err y where r: "run_passes ?E ?X (g_erase G) h (start_state (d_store D)) = (err, y)"
    by (cases "run_passes ?E ?X (g_erase G) h (start_state (d_store D))")
  have "bundle_step (g_lib G) ws (get_memory (d_store D) i) (get_memory (y_store y) i)"
    using passes_step [OF r, of i] assms(2,3) by (simp add: bundle_ready_def unbound_env)
  then show ?thesis using assms(1) by (auto simp: finish_bundle_def r split: option.splits if_splits)
qed

section \<open>Checkpoints of applied bundles\<close>

text \<open>The checkpoint a successful application leaves, and a failed one does not.\<close>

lemma finish_checkpoint:
  assumes "finish_bundle G (bundle_target h only False ws remap) h f D = (res, D')"
  shows "case res of Inl _ \<Rightarrow> st_state (d_store D') = st_state (d_store D)
    | Inr _ \<Rightarrow> (case f of None \<Rightarrow> st_state (d_store D') = st_state (d_store D)
        | Some (g, _, hash) \<Rightarrow> \<exists>s. d_store D' = save_snapshot_checkpoint G ws only (h_device h) g hash s)"
    and "d_workspaces D' = d_workspaces D"
proof -
  let ?X = "bundle_target h only False ws remap" and ?E = "bound_env G D"
  obtain err y where r: "run_passes ?E ?X (g_erase G) h (start_state (d_store D)) = (err, y)"
    by (cases "run_passes ?E ?X (g_erase G) h (start_state (d_store D))")
  have "st_state (y_store y) = st_state (d_store D)"
    using passes.run_R [OF r refl] by (simp add: start_state_def)
  then show "case res of Inl _ \<Rightarrow> st_state (d_store D') = st_state (d_store D)
    | Inr _ \<Rightarrow> (case f of None \<Rightarrow> st_state (d_store D') = st_state (d_store D)
        | Some (g, _, hash) \<Rightarrow> \<exists>s. d_store D' = save_snapshot_checkpoint G ws only (h_device h) g hash s)"
    using assms by (auto simp: finish_bundle_def r split: option.splits if_splits)
  show "d_workspaces D' = d_workspaces D"
    using assms by (auto simp: finish_bundle_def r split: option.splits)
qed

lemma check_validated:
  "check_incoming_freshness G b ws only d s = Inr (f, boot, dup) \<Longrightarrow> validated_snapshot_freshness (g_lib G) b = Inr f"
proof -
  assume c: "check_incoming_freshness G b ws only d s = Inr (f, boot, dup)"
  then obtain f' k where "validated_snapshot_freshness (g_lib G) b = Inr f'" "load_snapshot_checkpoint G ws only d s = Inr k"
    by (auto simp: check_incoming_freshness_def rbind_eq_Inr_conv)
  then show ?thesis
    using c by (cases k) (auto simp: check_incoming_freshness_def split: option.splits if_splits)
qed

lemma applied_checkpoint:
  assumes "apply_bundle G v into only False D = (res, D')" "read_bundle G v into = Inr h"
    and "validated_snapshot_freshness (g_lib G) (h_bundle h) = Inr (Some (g, p, hash))" "reads_back G"
  shows "case res of Inl _ \<Rightarrow> st_state (d_store D') = st_state (d_store D)
    | Inr _ \<Rightarrow> \<exists>ws. map_of (d_workspaces D') (h_workspace h) = Some ws \<and>
        load_snapshot_checkpoint G ws only (h_device h) (d_store D') = Inr (Some (g, hash))"
  using assms(1,2)
proof (cases rule: apply_bundle_live)
  case (refused e)
  then show ?thesis by simp
next
  case (passes ws D0 freshness remap boot dup)
  have f: "freshness = Some (g, p, hash)" using check_validated [OF passes(3)] assms(3) by simp
  note fin = finish_checkpoint [OF passes(4)]
  show ?thesis
  proof (cases res)
    case (Inl e)
    then show ?thesis using fin(1) passes(2) by simp
  next
    case (Inr rep)
    then obtain s where "d_store D' = save_snapshot_checkpoint G ws only (h_device h) g hash s"
      using fin(1) by (auto simp: f)
    then have "load_snapshot_checkpoint G ws only (h_device h) (d_store D') = Inr (Some (g, hash))"
      using load_save_checkpoint [OF assms(4) validated_valid(1) [OF assms(3)]] by simp
    then show ?thesis using Inr fin(2) passes(1) by simp
  qed
qed

lemma applied_authorized:
  assumes "apply_bundle G v into only False D = (Inr rep, D')" "read_bundle G v into = Inr h"
  shows "authorize_workspace G (h_workspace h) = Inr ()"
proof -
  have "\<exists>q. get_or_create_workspace G (h_workspace h) D = Inr q"
    using assms by (cases "get_or_create_workspace G (h_workspace h) D") (auto simp: apply_bundle_def)
  then show ?thesis by (auto simp: get_or_create_workspace_def rbind_eq_Inr_conv)
qed

section \<open>Properties\<close>

text \<open>
  C19: a dry run of any bundle, well formed or not, leaves the database exactly as it was.
\<close>

theorem dry_run_changes_nothing: "snd (apply_bundle G v into only True D) = D"
  by (rule apply_dry)





section \<open>A concrete bundle\<close>

definition demo_bundle :: json where
  "demo_bundle = JObj [(''format'', JStr SYNC_FORMAT), (''version'', JInt 1), (''device_id'', JStr dev_a),
     (''workspace_name'', JStr ''w''), (''memories'', JList demo_bundle_rows)]"

definition demo_db :: "store \<Rightarrow> sync_db" where
  "demo_db s = \<lparr>d_store = s, d_workspaces = [], d_repos = [], d_stats = []\<rparr>"

lemma demo_name: "strip (clamp_str L (JStr ''w'') MAX_WORKSPACE_NAME_CHARS) = ''w''"
proof -
  have "clamp_str L (JStr ''w'') MAX_WORKSPACE_NAME_CHARS = ''w''"
    by (simp add: clamp_str_def strip_control_def control_char_def MAX_WORKSPACE_NAME_CHARS_def)
  moreover have "strip ''w'' = ''w''" by code_simp
  ultimately show ?thesis by simp
qed

text \<open>A bundle without repositories, read by an engine that allows every workspace.\<close>

lemma demo_read:
  assumes "jget b ''format'' = JStr SYNC_FORMAT" "as_int (g_lib demo_engine) (jget b ''version'') 0 \<in> {1, 4}"
    and "validated_snapshot_freshness (g_lib demo_engine) b = Inr f" "jget b ''device_id'' = JStr dev_a"
    and "jget b ''workspace_name'' = JStr ''w''" "or_empty_list (jget b ''memories'') = JList rows" "length rows \<le> 2"
    and "jget b ''mem_links'' = JNull" "jget b ''tombstones'' = JNull" "jget b ''repos'' = JNull"
  shows "read_bundle demo_engine (JObj b) None = Inr \<lparr>h_bundle = b, h_device = dev_a, h_rows = rows, h_links = [],
    h_tombs = [], h_workspace = ''w'', h_repos = []\<rparr>"
proof -
  have "bundle_lists b = Inr (rows, [], [])"
    using assms by (simp add: bundle_lists_def or_empty_list_def MAX_MEMORIES_def MAX_LINKS_def MAX_TOMBSTONES_def)
  moreover have "target_name demo_engine b None = Inr ''w''"
    using demo_name by (simp add: target_name_def assms demo_engine_def)
  moreover have "remote_repos demo_engine b = Inr []" by (simp add: remote_repos_def assms MAX_REPOS_def)
  ultimately show ?thesis
    using assms(2) by (auto simp: read_bundle_def assms(1,3,4) demo_device SYNC_ACCEPTED_VERSIONS_def)
qed

lemma demo_bundle_read:
  "read_bundle demo_engine demo_bundle None = Inr \<lparr>h_bundle = as_obj demo_bundle, h_device = dev_a,
     h_rows = demo_bundle_rows, h_links = [], h_tombs = [], h_workspace = ''w'', h_repos = []\<rparr>"
proof -
  have "read_bundle demo_engine (JObj (as_obj demo_bundle)) None = Inr \<lparr>h_bundle = as_obj demo_bundle,
     h_device = dev_a, h_rows = demo_bundle_rows, h_links = [], h_tombs = [], h_workspace = ''w'', h_repos = []\<rparr>"
    by (rule demo_read [where f = None])
      (simp_all add: demo_bundle_def demo_bundle_rows_def jget_def as_int_def validated_snapshot_freshness_def or_empty_list_def)
  then show ?thesis by (simp add: demo_bundle_def)
qed

lemma demo_bundle_ready:
  "bundle_ready demo_engine \<lparr>h_bundle = as_obj demo_bundle, h_device = dev_a,
     h_rows = demo_bundle_rows, h_links = [], h_tombs = [], h_workspace = ''w'', h_repos = []\<rparr> demo_store"
proof -
  have "mint_apart (g_env demo_engine) (bundle_ids (g_lib demo_engine) demo_bundle_rows)"
  proof (rule mint_apart_subset [OF _ demo_ids])
    show "mint_apart (g_env demo_engine) {''mem_a''}"
      using demo_mint by (simp add: mint_apart_def demo_engine_def)
  qed
  moreover have "mint_fresh (g_env demo_engine) demo_store"
    using demo_ready by (simp add: sync_ready_def mint_fresh_def demo_engine_def demo_sync_def)
  ultimately show ?thesis
    using demo_tombs_ok
    by (auto simp: bundle_ready_def demo_engine_def sha_hex_def lower_hex_def LOWER_HEX_def list_all_iff)
qed


lemma empty_passes:
  assumes "h_tombs h = []" "h_rows h = []" "h_links h = []"
  shows "\<exists>y. run_passes E X allow h (start_state s) = (None, y)"
proof -
  obtain y where t: "apply_tombstones E X allow [] (start_state s) = Inr (y, [])"
    by (auto simp: apply_tombstones_def parse_tombstones_def select_best_def)
  obtain m where "live_tombstones X [] (y_store y) = Inr m" using live_tombstones_total by blast
  then show ?thesis by (simp add: run_passes_def assms t apply_memories_def)
qed


lemma demo_apply:
  assumes "read_bundle demo_engine v None = Inr h" "h_tombs h = []" "h_rows h = []" "h_links h = []" "h_repos h = []"
    and "validated_snapshot_freshness (g_lib demo_engine) (h_bundle h) = Inr (Some f)"
  shows "\<exists>rep D. apply_bundle demo_engine v None None False (demo_db empty_store) = (Inr rep, D)"
proof -
  obtain ws D where w: "get_or_create_workspace demo_engine (h_workspace h) (demo_db empty_store) = Inr (ws, D)"
    and D: "d_store D = empty_store"
    by (auto simp: get_or_create_workspace_def authorize_workspace_def demo_engine_def demo_db_def Let_def)
  have c: "check_incoming_freshness demo_engine (h_bundle h) ws None (h_device h) empty_store = Inr (Some f, True, False)"
    using assms(6) by (cases f) (simp add: check_incoming_freshness_def demo_freshness)
  obtain y where "run_passes (bound_env demo_engine D) (bundle_target h None False ws []) (g_erase demo_engine) h
      (start_state (d_store D)) = (None, y)"
    using empty_passes [OF assms(2-4)] by blast
  then have "\<exists>rep D'. finish_bundle demo_engine (bundle_target h None False ws []) h (Some f) D = (Inr rep, D')"
    by (simp add: finish_bundle_def)
  then show ?thesis by (simp add: apply_bundle_def assms(1,5) w c D)
qed

lemma push_fields:
  "jget (demo_push name) ''format'' = JStr ''engraphis-sync''" "jget (demo_push name) ''version'' = JInt 4"
  "jget (demo_push name) ''device_id'' = JStr dev_a" "jget (demo_push name) ''workspace_name'' = JStr name"
  "jget (demo_push name) ''memories'' = JNull" "jget (demo_push name) ''mem_links'' = JNull"
  "jget (demo_push name) ''tombstones'' = JNull" "jget (demo_push name) ''repos'' = JNull"
  by (simp_all add: demo_push_def jget_def)


end
