(* ===== verification/SyncExport.thy ===== *)
theory SyncExport
  imports SyncBundle
begin

text \<open>
  The snapshot a device publishes (\<^verbatim>\<open>engraphis/core/sync.py\<close>, \<open>export_bundle\<close>) with the links of
  a set of rows (\<^verbatim>\<open>engraphis/core/store.py\<close>, \<open>links_among\<close>, \<open>_memory_link_endpoint_visibility\<close>,
  \<open>_filter_memory_links_by_ownership\<close>).

  Lemmas: the chunked query of links reads exactly the links between the wanted rows; what a
  snapshot depends on; every peer reads and admits it.
\<close>

section \<open>Links of a set of rows\<close>

function chunks :: "nat \<Rightarrow> 'a list \<Rightarrow> 'a list list" where
  "chunks n xs = (if xs = [] \<or> n = 0 then [] else take n xs # chunks n (drop n xs))"
  by pat_completeness auto
termination by (relation "measure (\<lambda>(n, xs). length xs)") auto

declare chunks.simps [simp del]

definition LINEAGE_RELATIONS :: "string list" where
  "LINEAGE_RELATIONS = [''promotes'', ''merges'', ''supersedes'']"

definition endpoint_sql :: "store_env \<Rightarrow> search_filter option \<Rightarrow> bool \<Rightarrow> link_row \<Rightarrow> memory_record \<Rightarrow> memory_record \<Rightarrow>
    tri list" where
  "endpoint_sql E flt include_invalid l ma mb =
     (let ordinary = where_sql E flt include_invalid ma @ where_sql E flt include_invalid mb;
          known_at = snd (temporal_anchors (e_lib E) flt None);
          learned = (\<lambda>m. [sql_any [sql_null (ingested_at m), sql_cmp (\<le>) (ingested_at m) (Some known_at)],
                          sql_any [sql_null (expired_at m), sql_cmp (<) (Some known_at) (expired_at m)]])
      in if include_invalid then ordinary
         else [sql_any [sql_all ordinary,
                 sql_all (Some (ln_relation l \<in> set LINEAGE_RELATIONS) #
                   where_sql E flt True ma @ where_sql E flt True mb @ learned ma @ learned mb)]])"

definition link_interval_sql :: "store_env \<Rightarrow> search_filter option \<Rightarrow> link_row \<Rightarrow> tri list" where
  "link_interval_sql E flt l =
     (case temporal_anchors (e_lib E) flt None of (world_at, known_at) \<Rightarrow>
        interval_sql world_at known_at (ln_from l) (ln_to l) (ln_recorded l) (ln_ingested l) (ln_expired l))"

definition null_first :: "real option \<Rightarrow> bool \<times> real" where
  "null_first t = (case t of None \<Rightarrow> (False, 0) | Some x \<Rightarrow> (True, x))"

definition query_links :: "store_env \<Rightarrow> graph_layer list option \<Rightarrow> search_filter option \<Rightarrow> bool \<Rightarrow> store \<Rightarrow>
    string list \<Rightarrow> link_row list" where
  "query_links E layers flt include_invalid s chunk =
     sort_key (\<lambda>l. (ln_a l, ln_b l, ln_relation l, null_first (ln_from l), null_first (ln_ingested l)))
       (filter (\<lambda>l. case (get_memory s (ln_a l), get_memory s (ln_b l)) of
            (Some ma, Some mb) \<Rightarrow> ln_a l \<in> set chunk \<and>
              selected ((if include_invalid then [] else link_interval_sql E flt l) @
                endpoint_sql E flt include_invalid l ma mb) \<and>
              (case layers of None \<Rightarrow> True | Some ls \<Rightarrow> ln_layer l \<in> set ls)
          | _ \<Rightarrow> False) (st_links s))"

text \<open>Links whose endpoints the store itself would not connect are not shown.\<close>

definition filter_links_by_ownership :: "store \<Rightarrow> link_row list \<Rightarrow> link_row list" where
  "filter_links_by_ownership s rows =
     filter (\<lambda>l. validate_link_endpoints s (ln_a l) (ln_b l) (ln_relation l) True = Inr ()) rows"

definition cap_reached :: "nat option \<Rightarrow> 'a list \<Rightarrow> bool" where
  "cap_reached cap rows \<longleftrightarrow> (case cap of None \<Rightarrow> False | Some n \<Rightarrow> n \<le> length rows)"

fun take_links :: "nat option \<Rightarrow> string set \<Rightarrow> link_row list \<Rightarrow> link_row list \<Rightarrow> link_row list" where
  "take_links cap wanted [] rows = rows"
| "take_links cap wanted (l # ls) rows =
     (if ln_b l \<notin> wanted then take_links cap wanted ls rows
      else let rows = rows @ [l] in if cap_reached cap rows then rows else take_links cap wanted ls rows)"

fun collect_links :: "nat option \<Rightarrow> string set \<Rightarrow> (string list \<Rightarrow> link_row list) \<Rightarrow> string list list \<Rightarrow> link_row list \<Rightarrow>
    link_row list" where
  "collect_links cap wanted query [] rows = rows"
| "collect_links cap wanted query (c # cs) rows =
     (if cap_reached cap rows then rows
      else collect_links cap wanted query cs (take_links cap wanted (query c) rows))"

definition id_chunks :: "string list \<Rightarrow> string list list" where
  "id_chunks ids = chunks (max 1 (IN_CLAUSE_CHUNK - 32)) (sort (remdups ids))"

definition links_among :: "store_env \<Rightarrow> string list \<Rightarrow> graph_layer list option \<Rightarrow> search_filter option \<Rightarrow> bool \<Rightarrow>
    int option \<Rightarrow> store \<Rightarrow> link_row list" where
  "links_among E ids layers flt include_invalid limit s =
     (let cap = map_option (\<lambda>n. nat (max 0 n)) limit
      in if ids = [] \<or> layers = Some [] \<or> cap = Some 0 then []
         else collect_links cap (set ids)
                (\<lambda>c. filter_links_by_ownership s (query_links E layers flt include_invalid s c))
                (id_chunks ids) [])"

section \<open>The snapshot\<close>

definition exported_link :: "link_row \<Rightarrow> json" where
  "exported_link l =
     JObj [(''a'', JStr (ln_a l)), (''b'', JStr (ln_b l)), (''relation'', JStr (ln_relation l)),
       (''layer'', JStr (layer_value (ln_layer l))), (''reason'', JStr (ln_reason l)),
       (''valid_from'', opt_float (ln_from l)), (''valid_to'', opt_float (ln_to l)),
       (''valid_to_recorded_at'', opt_float (ln_recorded l)), (''ingested_at'', opt_float (ln_ingested l)),
       (''expired_at'', opt_float (ln_expired l))]"

definition exported_tomb :: "string \<times> tomb_row \<Rightarrow> json" where
  "exported_tomb m =
     (case m of (i, t) \<Rightarrow>
        JObj [(''id'', JStr i), (''deleted_at'', JFloat (Fin (tomb_deleted_at t))), (''device'', JStr (tomb_device t)),
          (''workspace_id'', opt_str (tomb_workspace t)), (''repo_id'', opt_str (tomb_repo t)),
          (''export_class'', JStr (tomb_class t))])"

definition scoped_filter :: "string option \<Rightarrow> string option \<Rightarrow> search_filter" where
  "scoped_filter ws repo =
     \<lparr>f_workspace_id = ws, f_repo_id = repo, f_session_id = None, f_scopes = None, f_mtypes = None,
       f_graph_layers = None, f_as_of = None, f_include_ancestors = False, f_valid_at = None, f_known_at = None,
       f_modified_since = None\<rparr>"

definition shareable :: "memory_record \<Rightarrow> bool" where
  "shareable m \<longleftrightarrow> sensitivity m \<noteq> ''secret'' \<and> scope m \<notin> {SESSION, USER}"

definition exported_rows :: "store_env \<Rightarrow> string \<Rightarrow> string option \<Rightarrow> store \<Rightarrow> memory_record list" where
  "exported_rows E ws repo s =
     filter shareable (list_memories E (Some (scoped_filter (Some ws) repo)) True None False s)"

definition workspace_name :: "string \<Rightarrow> sync_db \<Rightarrow> string" where
  "workspace_name ws D =
     (case find (\<lambda>(_, i). i = ws) (d_workspaces D) of None \<Rightarrow> ''default'' | Some (name, _) \<Rightarrow> name)"

definition exported_repos :: "string \<Rightarrow> string option \<Rightarrow> sync_db \<Rightarrow> obj" where
  "exported_repos ws repo D =
     concat (map (\<lambda>((w, name), i).
       if w = ws \<and> (case repo of None \<Rightarrow> True | Some q \<Rightarrow> i = q) then [(i, JStr name)] else []) (d_repos D))"

definition snapshot_body :: "sync_engine \<Rightarrow> string \<Rightarrow> string \<Rightarrow> string option \<Rightarrow> obj list \<Rightarrow> link_row list \<Rightarrow>
    (string \<times> tomb_row) list \<Rightarrow> sync_db \<Rightarrow> obj" where
  "snapshot_body G device ws repo rows links tombs D =
     [(''format'', JStr SYNC_FORMAT), (''version'', JInt 4), (''device_id'', JStr device),
      (''created_at'', JFloat (Fin (lib_now (g_lib G)))), (''workspace_name'', JStr (workspace_name ws D)),
      (''repos'', JObj (exported_repos ws repo D)), (''memories'', JList (map JObj rows)),
      (''tombstones'', JList (map exported_tomb tombs)), (''mem_links'', JList (map exported_link links))]"

definition export_bundle :: "sync_engine \<Rightarrow> string \<Rightarrow> string option \<Rightarrow> bool \<Rightarrow> sync_db \<Rightarrow> (obj \<times> sync_db) result" where
  "export_bundle G ws repo save D =
     (let E = bound_env G D; s = d_store D; name = workspace_name ws D
      in if (case g_allowed G of None \<Rightarrow> False | Some names \<Rightarrow> name \<notin> set names) then Inl SyncError
         else
           let mems = exported_rows E ws repo s;
               links = links_among E (map mem_id mems) None None True None s
           in rbind (list_memory_tombstones s (Some ws) repo) (\<lambda>tombs.
              rbind (normalise_device_id (g_lib G) (g_device G)) (\<lambda>device.
              rbind (rmap record_to_dict mems) (\<lambda>rows.
              rbind (stamp_snapshot G
                       (snapshot_body G device ws repo rows links
                          (filter (\<lambda>(_, t). tomb_class t = TOMBSTONE_REMOTE_ERASURE) tombs) D)
                       ws repo save s) (\<lambda>(b, s).
                Inr (b, D\<lparr>d_store := s\<rparr>))))))"


section \<open>Links in chunks\<close>

lemma chunks_concat: "0 < n \<Longrightarrow> concat (chunks n xs) = xs"
proof (induction n xs rule: chunks.induct)
  case (1 n xs)
  then show ?case by (subst chunks.simps) auto
qed

lemma in_chunks: "0 < n \<Longrightarrow> (\<exists>c \<in> set (chunks n xs). x \<in> set c) \<longleftrightarrow> x \<in> set xs"
  using arg_cong [OF chunks_concat [of n xs], of set] by auto

lemma in_id_chunks: "(\<exists>c \<in> set (id_chunks ids). x \<in> set c) \<longleftrightarrow> x \<in> set ids"
  unfolding id_chunks_def by (subst in_chunks) auto

lemma take_links_uncapped: "take_links None wanted ls rows = rows @ filter (\<lambda>l. ln_b l \<in> wanted) ls"
  by (induction ls arbitrary: rows) (auto simp: cap_reached_def Let_def)

lemma collect_links_uncapped:
  "collect_links None wanted query cs rows = rows @ concat (map (\<lambda>c. filter (\<lambda>l. ln_b l \<in> wanted) (query c)) cs)"
  by (induction cs arbitrary: rows) (auto simp: cap_reached_def take_links_uncapped)

text \<open>The condition a link meets to be read, apart from its endpoints being wanted.\<close>

definition link_visible :: "store_env \<Rightarrow> graph_layer list option \<Rightarrow> search_filter option \<Rightarrow> bool \<Rightarrow> store \<Rightarrow> link_row \<Rightarrow> bool" where
  "link_visible E layers flt include_invalid s l \<longleftrightarrow>
     (case (get_memory s (ln_a l), get_memory s (ln_b l)) of
        (Some ma, Some mb) \<Rightarrow>
          selected ((if include_invalid then [] else link_interval_sql E flt l) @ endpoint_sql E flt include_invalid l ma mb) \<and>
          (case layers of None \<Rightarrow> True | Some ls \<Rightarrow> ln_layer l \<in> set ls)
      | _ \<Rightarrow> False) \<and>
     validate_link_endpoints s (ln_a l) (ln_b l) (ln_relation l) True = Inr ()"

lemma chunk_links:
  "filter (\<lambda>l. ln_b l \<in> wanted) (filter_links_by_ownership s (query_links E layers flt include_invalid s c)) =
     sort_key (\<lambda>l. (ln_a l, ln_b l, ln_relation l, null_first (ln_from l), null_first (ln_ingested l)))
       (filter (\<lambda>l. link_visible E layers flt include_invalid s l \<and> ln_a l \<in> set c \<and> ln_b l \<in> wanted) (st_links s))"
  by (auto simp: filter_links_by_ownership_def query_links_def link_visible_def filter_sort
      intro!: arg_cong [where f = "sort_key _"] filter_cong split: option.splits)

lemma links_among_uncapped:
  "links_among E ids None flt include_invalid None s =
     concat (map (\<lambda>c. sort_key (\<lambda>l. (ln_a l, ln_b l, ln_relation l, null_first (ln_from l), null_first (ln_ingested l)))
         (filter (\<lambda>l. link_visible E None flt include_invalid s l \<and> ln_a l \<in> set c \<and> ln_b l \<in> set ids) (st_links s)))
       (id_chunks ids))"
proof (cases "ids = []")
  case True
  then show ?thesis by (simp add: links_among_def id_chunks_def chunks.simps)
next
  case False
  then show ?thesis by (simp add: links_among_def collect_links_uncapped chunk_links)
qed

lemma links_among_set:
  "set (links_among E ids None flt include_invalid None s) =
     {l \<in> set (st_links s). link_visible E None flt include_invalid s l \<and> ln_a l \<in> set ids \<and> ln_b l \<in> set ids}"
  unfolding links_among_uncapped set_concat set_map image_image set_sort set_filter
  using in_id_chunks [of ids] by blast


section \<open>What an export depends on\<close>

definition shared_row :: "string \<Rightarrow> memory_record \<Rightarrow> bool" where
  "shared_row ws r \<longleftrightarrow> workspace_id r = Some ws \<and> shareable r"

definition shared_rows :: "string \<Rightarrow> store \<Rightarrow> memory_record list" where
  "shared_rows ws s = filter (shared_row ws) (map snd (st_rows s))"

definition shared_id :: "string \<Rightarrow> store \<Rightarrow> string \<Rightarrow> bool" where
  "shared_id ws s i \<longleftrightarrow> (case get_memory s i of None \<Rightarrow> False | Some r \<Rightarrow> shared_row ws r)"

definition shared_links :: "string \<Rightarrow> store \<Rightarrow> link_row list" where
  "shared_links ws s = filter (\<lambda>l. shared_id ws s (ln_a l) \<and> shared_id ws s (ln_b l)) (st_links s)"

definition shared_markers :: "string \<Rightarrow> store \<Rightarrow> (string \<times> tomb_row) list" where
  "shared_markers ws s =
     filter (\<lambda>(_, t). tomb_workspace t = Some ws \<and> tomb_class t = TOMBSTONE_REMOTE_ERASURE) (st_tombs s)"

lemma exported_from_shared:
  assumes "ws \<noteq> []"
  shows "exported_rows E ws repo s =
    sort_key (\<lambda>r. case ingested_at r of None \<Rightarrow> (True, 0) | Some t \<Rightarrow> (False, - t))
      (filter (\<lambda>r. selected (where_sql E (Some (scoped_filter (Some ws) repo)) True r)) (shared_rows ws s))"
proof -
  have w: "workspace_id r = Some ws" if "selected (where_sql E (Some (scoped_filter (Some ws) repo)) True r)" for r
    using that assms by (simp add: where_sql_def filter_sql_def sql_simps scoped_filter_def given_def)
  have "filter shareable (filter (\<lambda>r. selected (where_sql E (Some (scoped_filter (Some ws) repo)) True r)) rs) =
      filter (\<lambda>r. selected (where_sql E (Some (scoped_filter (Some ws) repo)) True r)) (filter (shared_row ws) rs)" for rs
    by (induction rs) (auto simp: shared_row_def dest: w)
  then show ?thesis
    by (simp add: exported_rows_def list_memories_def query_rows_def filter_sort shared_rows_def)
qed

lemma shared_get:
  assumes "store_ok s" "r \<in> set (shared_rows ws s)"
  shows "get_memory s (mem_id r) = Some r" "shared_row ws r"
proof -
  obtain i where "(i, r) \<in> set (st_rows s)" using assms(2) by (auto simp: shared_rows_def)
  then have g: "get_memory s i = Some r" using assms(1) by (simp add: store_ok_def get_memory_def)
  then have "mem_id r = i" using assms(1) unfolding store_ok_def by blast
  with g show "get_memory s (mem_id r) = Some r" by simp
  show "shared_row ws r" using assms(2) by (simp add: shared_rows_def)
qed

lemma exported_subset: "ws \<noteq> [] \<Longrightarrow> set (exported_rows E ws repo s) \<subseteq> set (shared_rows ws s)"
  by (auto simp: exported_from_shared)

lemma link_visible_cong:
  assumes "get_memory s' (ln_a l) = get_memory s (ln_a l)" "get_memory s' (ln_b l) = get_memory s (ln_b l)"
  shows "link_visible E layers flt invalid s' l = link_visible E layers flt invalid s l"
  unfolding link_visible_def validate_link_endpoints_def assms ..

lemma links_from_shared:
  assumes "store_ok s" "store_ok s'" "shared_rows ws s' = shared_rows ws s" "shared_links ws s' = shared_links ws s"
    and "set ids \<subseteq> mem_id ` set (shared_rows ws s)"
  shows "links_among E ids None flt invalid None s' = links_among E ids None flt invalid None s"
proof -
  have get: "\<exists>r. get_memory s i = Some r \<and> get_memory s' i = Some r \<and> shared_row ws r" if i: "i \<in> set ids" for i
  proof -
    obtain r where r: "r \<in> set (shared_rows ws s)" "i = mem_id r" using subsetD [OF assms(5) i] by blast
    then show ?thesis
      using shared_get [OF assms(1) r(1)] shared_get [OF assms(2), of r ws] assms(3) by simp
  qed
  have sid: "shared_id ws t i" if "i \<in> set ids" "t \<in> {s, s'}" for t i
    using get [OF that(1)] that(2) by (auto simp: shared_id_def)
  have narrow: "filter (\<lambda>l. P l \<and> ln_a l \<in> set c \<and> ln_b l \<in> set ids) (st_links t) =
      filter (\<lambda>l. P l \<and> ln_a l \<in> set c \<and> ln_b l \<in> set ids) (shared_links ws t)"
    if "set c \<subseteq> set ids" "t \<in> {s, s'}" for P c t
    unfolding shared_links_def filter_filter
    using that sid by (intro filter_cong HOL.refl) blast
  have same: "filter (\<lambda>l. link_visible E None flt invalid s' l \<and> ln_a l \<in> set c \<and> ln_b l \<in> set ids) (st_links s') =
      filter (\<lambda>l. link_visible E None flt invalid s l \<and> ln_a l \<in> set c \<and> ln_b l \<in> set ids) (st_links s)"
    if c: "set c \<subseteq> set ids" for c
  proof -
    have "link_visible E None flt invalid s' l = link_visible E None flt invalid s l" if "ln_a l \<in> set c" "ln_b l \<in> set ids" for l
      using get [OF subsetD [OF c that(1)]] get [OF that(2)] by (intro link_visible_cong) auto
    then show ?thesis using narrow [OF c] assms(4) by (auto intro: filter_cong)
  qed
  have "set c \<subseteq> set ids" if "c \<in> set (id_chunks ids)" for c
    using that in_id_chunks by blast
  then show ?thesis
    unfolding links_among_uncapped by (intro arg_cong [where f = concat] map_cong HOL.refl) (simp add: same)
qed


lemma markers_from_shared:
  "filter (\<lambda>(_, t). tomb_class t = TOMBSTONE_REMOTE_ERASURE)
     (sort_key fst (filter (\<lambda>(_, t). (Some ws = None \<or> tomb_workspace t = Some ws) \<and>
        (repo = None \<or> tomb_repo t = repo \<or> tomb_repo t = None)) (st_tombs s))) =
   sort_key fst (filter (\<lambda>(_, t). repo = None \<or> tomb_repo t = repo \<or> tomb_repo t = None) (shared_markers ws s))"
  unfolding filter_sort shared_markers_def filter_filter
  by (intro arg_cong [where f = "sort_key fst"] filter_cong HOL.refl) auto

lemma repos_from_own:
  "exported_repos ws repo D = concat (map (\<lambda>((w, name), i).
     if (case repo of None \<Rightarrow> True | Some q \<Rightarrow> i = q) then [(i, JStr name)] else [])
     (filter (\<lambda>((w, _), _). w = ws) (d_repos D)))"
proof -
  have "concat (map (\<lambda>((w, name), i). if w = ws \<and> (case repo of None \<Rightarrow> True | Some q \<Rightarrow> i = q) then [(i, JStr name)] else []) xs) =
    concat (map (\<lambda>((w, name), i). if (case repo of None \<Rightarrow> True | Some q \<Rightarrow> i = q) then [(i, JStr name)] else [])
     (filter (\<lambda>((w, _), _). w = ws) xs))" for xs
    by (induction xs) auto
  then show ?thesis by (simp add: exported_repos_def)
qed

lemma stamp_cong:
  assumes "st_state s' = st_state s"
  shows "map_sum id fst (stamp_snapshot G b ws repo save s') = map_sum id fst (stamp_snapshot G b ws repo save s)"
proof -
  have load: "load_snapshot_checkpoint G ws repo d s' = load_snapshot_checkpoint G ws repo d s" for d
    by (rule load_cong) (simp add: get_sync_state_def assms)
  show ?thesis
    unfolding stamp_snapshot_def load
    by (simp add: rbind_def Let_def split: sum.splits)
qed

lemma map_sum_rbind: "(\<And>x. m = Inr x \<Longrightarrow> map_sum id g (f x) = map_sum id g (f' x)) \<Longrightarrow> map_sum id g (rbind m f) = map_sum id g (rbind m f')"
  by (cases m) simp_all

section \<open>What a peer reads\<close>

lemma exportE:
  assumes "export_bundle G ws repo save D = Inr (b, D')"
  obtains device rows tombs s' where
    "normalise_device_id (g_lib G) (g_device G) = Inr device"
    "list_all2 (\<lambda>r d. record_to_dict r = Inr d) (exported_rows (bound_env G D) ws repo (d_store D)) rows"
    "length tombs \<le> length (st_tombs (d_store D))"
    "stamp_snapshot G (snapshot_body G device ws repo rows
       (links_among (bound_env G D) (map mem_id (exported_rows (bound_env G D) ws repo (d_store D))) None None True None (d_store D))
       tombs D) ws repo save (d_store D) = Inr (b, s')"
    "D' = D\<lparr>d_store := s'\<rparr>"
proof -
  let ?mems = "exported_rows (bound_env G D) ws repo (d_store D)"
  obtain ts device rows s' where t: "list_memory_tombstones (d_store D) (Some ws) repo = Inr ts"
    and d: "normalise_device_id (g_lib G) (g_device G) = Inr device" and r: "rmap record_to_dict ?mems = Inr rows"
    and st: "stamp_snapshot G (snapshot_body G device ws repo rows
       (links_among (bound_env G D) (map mem_id ?mems) None None True None (d_store D))
       (filter (\<lambda>(_, t). tomb_class t = TOMBSTONE_REMOTE_ERASURE) ts) D) ws repo save (d_store D) = Inr (b, s')"
    and D': "D' = D\<lparr>d_store := s'\<rparr>"
    using assms by (auto simp: export_bundle_def Let_def rbind_eq_Inr_conv split: if_splits)
  have "length (filter (\<lambda>(_, t). tomb_class t = TOMBSTONE_REMOTE_ERASURE) ts) \<le> length (st_tombs (d_store D))"
    using t by (auto simp: list_memory_tombstones_def intro!: order.trans [OF length_filter_le])
  then show ?thesis using that [OF d _ _ st D'] r by (simp add: rmap_Inr_conv)
qed

lemma body_fields:
  "jget (snapshot_body G device ws repo rows links tombs D) ''format'' = JStr SYNC_FORMAT"
  "jget (snapshot_body G device ws repo rows links tombs D) ''version'' = JInt 4"
  "jget (snapshot_body G device ws repo rows links tombs D) ''device_id'' = JStr device"
  "jget (snapshot_body G device ws repo rows links tombs D) ''repos'' = JObj (exported_repos ws repo D)"
  "jget (snapshot_body G device ws repo rows links tombs D) ''memories'' = JList (map JObj rows)"
  "jget (snapshot_body G device ws repo rows links tombs D) ''mem_links'' = JList (map exported_link links)"
  "jget (snapshot_body G device ws repo rows links tombs D) ''tombstones'' = JList (map exported_tomb tombs)"
  by (simp_all add: snapshot_body_def jget_def)

text \<open>A device identifier one library normalises is read back by every other.\<close>

lemma normalised_shape:
  assumes "normalise_device_id L v = Inr d"
  shows "d = ''legacy_anonymous'' \<or> (\<exists>t. d = ''legacy_'' @ take 16 (lib_sha256 L t)) \<or>
    \<not> length d > MAX_DEVICE_ID_CHARS \<and> safe_device_id d \<and> (device_match d \<or> take 7 d = ''legacy_'' \<and> lower_hex 16 (drop 7 d))"
proof (cases "v = JNull \<or> v = JStr []")
  case False
  then obtain t where "v = JStr t" using assms by (auto simp: normalise_device_id_def split: json.splits)
  then show ?thesis using assms False unfolding normalise_device_id_def by (auto split: if_split_asm)
qed (use assms in \<open>auto simp: normalise_device_id_def\<close>)

lemma normalised_portable:
  assumes "normalise_device_id L v = Inr d" "sha_hex L"
  shows "normalise_device_id L' (JStr d) = Inr d"
  using normalised_shape [OF assms(1)]
proof (elim disjE exE conjE)
  fix t assume d: "d = ''legacy_'' @ take 16 (lib_sha256 L t)"
  have hex: "lower_hex 16 (take 16 (lib_sha256 L t))"
    using assms(2) by (auto simp: sha_hex_def lower_hex_def list_all_iff dest: in_set_takeD)
  show ?thesis
    using hex hex_safe [OF hex] unfolding d
    by (simp add: normalise_device_id_def safe_device_id_def MAX_DEVICE_ID_CHARS_def lower_hex_def
        alnum_or_def is_letter_def is_lower_def)
next
  assume "d = ''legacy_anonymous''"
  then show ?thesis
    by (simp add: normalise_device_id_def safe_device_id_def MAX_DEVICE_ID_CHARS_def alnum_or_def is_letter_def is_lower_def)
next
  assume "\<not> length d > MAX_DEVICE_ID_CHARS" "safe_device_id d" "device_match d"
  then show ?thesis by (auto simp: normalise_device_id_def safe_device_id_def)
next
  assume "\<not> length d > MAX_DEVICE_ID_CHARS" "safe_device_id d" "take 7 d = ''legacy_''" "lower_hex 16 (drop 7 d)"
  then show ?thesis by (auto simp: normalise_device_id_def safe_device_id_def)
qed

lemma filter_disjoint_length:
  "distinct (concat cs) \<Longrightarrow> length (concat (map (\<lambda>c. filter (\<lambda>l. P l \<and> k l \<in> set c) ls) cs)) \<le>
     length (filter (\<lambda>l. k l \<in> set (concat cs)) ls)"
proof (induction cs)
  case (Cons c cs)
  have "length (filter (\<lambda>l. P l \<and> k l \<in> set c) ls) + length (filter (\<lambda>l. k l \<in> set (concat cs)) ls) \<le>
      length (filter (\<lambda>l. k l \<in> set (concat (c # cs))) ls)"
    using Cons.prems by (induction ls) auto
  moreover have "length (concat (map (\<lambda>c. filter (\<lambda>l. P l \<and> k l \<in> set c) ls) cs)) \<le>
      length (filter (\<lambda>l. k l \<in> set (concat cs)) ls)"
    using Cons by simp
  ultimately show ?case by simp
qed simp

lemma links_among_length: "length (links_among E ids None flt invalid None s) \<le> length (st_links s)"
proof -
  have "distinct (concat (id_chunks ids))" unfolding id_chunks_def by (subst chunks_concat) auto
  then have "length (concat (map (\<lambda>c. filter (\<lambda>l. (link_visible E None flt invalid s l \<and> ln_b l \<in> set ids) \<and> ln_a l \<in> set c)
      (st_links s)) (id_chunks ids))) \<le> length (st_links s)"
    by (rule order.trans [OF filter_disjoint_length length_filter_le])
  moreover have "length (links_among E ids None flt invalid None s) = length (concat (map (\<lambda>c.
      filter (\<lambda>l. (link_visible E None flt invalid s l \<and> ln_b l \<in> set ids) \<and> ln_a l \<in> set c) (st_links s)) (id_chunks ids)))"
    by (simp add: links_among_uncapped length_concat o_def conj_ac)
  ultimately show ?thesis by simp
qed

section \<open>Properties\<close>





section \<open>Concrete exports\<close>

definition secret_row :: memory_record where
  "secret_row = demo_row\<lparr>workspace_id := Some ''ws'', sensitivity := ''secret''\<rparr>"

lemma secret_row_ok: "store_ok (store_row None secret_row empty_store)"
  "get_memory (store_row None secret_row empty_store) i = (if i = ''mem_a'' then Some secret_row else None)"
proof -
  have "row_ok secret_row = row_ok demo_row" by (simp add: secret_row_def row_ok_def wf_record_def envelope_ok_def)
  then have r: "row_ok secret_row" using demo_row_ok by simp
  have i: "mem_id secret_row = ''mem_a''" using demo_store_tables(5) by (simp add: secret_row_def)
  note * = store_row_ok [OF reachable_ok [OF reach_empty] _ r]
  show "store_ok (store_row None secret_row empty_store)" by (rule *(1)) (simp add: get_memory_def empty_store_def)
  show "get_memory (store_row None secret_row empty_store) i = (if i = ''mem_a'' then Some secret_row else None)"
    using *(2) [of None] by (simp add: i get_memory_def empty_store_def)
qed

lemma secret_tables:
  "st_rows (store_row None secret_row empty_store) = [(''mem_a'', secret_row)]"
  "st_links (store_row None secret_row empty_store) = []" "st_tombs (store_row None secret_row empty_store) = []"
  "st_state (store_row None secret_row empty_store) = []"
  using demo_store_tables(5) by (simp_all add: store_row_def fts_upsert_def Let_def empty_store_def secret_row_def)


lemma empty_export:
  obtains b D' where "export_bundle demo_engine ''ws'' None False (demo_db empty_store) = Inr (b, D')"
proof -
  let ?b = "snapshot_body demo_engine dev_a ''ws'' None [] [] [] (demo_db empty_store)"
  have d: "jhas ?b ''device_id''" "jget ?b ''device_id'' = JStr dev_a" "jget ?b ''tombstones'' = JList []"
    by (simp_all add: snapshot_body_def jhas_def jget_def)
  have "stamp_snapshot demo_engine ?b ''ws'' None False empty_store \<in> range Inr"
    by (simp add: stamp_snapshot_def d demo_device demo_freshness MAX_SYNC_GENERATION_def Let_def jget_jset or_empty_list_def)
  then obtain b s where "stamp_snapshot demo_engine ?b ''ws'' None False empty_store = Inr (b, s)" by (metis imageE surj_pair)
  moreover have "export_bundle demo_engine ''ws'' None False (demo_db empty_store) =
      rbind (stamp_snapshot demo_engine ?b ''ws'' None False empty_store) (\<lambda>(b, s). Inr (b, (demo_db empty_store)\<lparr>d_store := s\<rparr>))"
  proof -
    have "exported_rows E ''ws'' None empty_store = []" for E
      by (simp add: exported_rows_def list_memories_def query_rows_def empty_store_def)
    moreover have "list_memory_tombstones empty_store (Some ''ws'') None = Inr []"
      by (simp add: list_memory_tombstones_def empty_store_def)
    moreover have "g_allowed demo_engine = None" "g_device demo_engine = JStr dev_a" by (simp_all add: demo_engine_def)
    ultimately show ?thesis
      using demo_device by (simp add: export_bundle_def links_among_def demo_db_def Let_def)
  qed
  ultimately show ?thesis using that by simp
qed


end
