(* ===== verification/SyncRound.thy ===== *)
theory SyncRound
  imports SyncExport
begin

text \<open>
  One synchronisation round over a transport (\<^verbatim>\<open>engraphis/core/sync.py\<close>, \<open>sync\<close>): the bundles of
  the peers are pulled and applied one by one, then this device's snapshot is exported again and
  pushed in one transaction with the export proof, the transfer counters and the checkpoint.

  The transport is a list of what its iterator yields, a payload or a failure, and whether the
  final write succeeds. A round is one sequence of steps; what an exception rolls back is the
  value before the transaction.

  Lemmas: the passes keep the store well formed, so a round may apply any number of bundles;
  whatever the transport yields, the round changes no protected row and grants no trust.
\<close>

section \<open>A round\<close>

text \<open>
  What the transport's iterator gives: a named payload with its text (none when it is not valid
  UTF-8) and its size in bytes, or the failure that ends the iteration; and whether the final
  write succeeds.
\<close>

datatype pull_event = Payload string "string option" nat | Pull_failed

record transport =
  tr_events :: "pull_event list"
  tr_accepts :: bool

datatype round_entry =
    Transport_failure
  | Unreadable string py_error
  | Bundle_rejected string py_error
  | Bundle_applied sync_report string bool \<comment> \<open>the sender, and whether its freshness was established\<close>

definition failed_entry :: "string \<Rightarrow> py_error \<Rightarrow> round_entry" where
  "failed_entry name e = (if e \<in> value_errors then Unreadable name e else Bundle_rejected name e)"

record sync_round =
  sr_target :: string \<comment> \<open>the local workspace\<close>
  sr_repo :: "string option"
  sr_dry :: bool
  sr_push :: bool

definition add_sync_bytes :: "string \<Rightarrow> nat \<Rightarrow> nat \<Rightarrow> sync_db \<Rightarrow> sync_db" where
  "add_sync_bytes device sent received D =
     (if sent = 0 \<and> received = 0 then D
      else D\<lparr>d_stats := (case map_of (d_stats D) device of
             None \<Rightarrow> d_stats D @ [(device, sent, received)]
           | Some (s, r) \<Rightarrow> AList.update device (s + sent, r + received) (d_stats D))\<rparr>)"

text \<open>One payload; \<open>Inr None\<close> is this device's own snapshot seen again.\<close>

definition receive_payload :: "sync_engine \<Rightarrow> sync_round \<Rightarrow> string \<Rightarrow> string \<Rightarrow> string option \<Rightarrow> sync_db \<Rightarrow>
    (sync_report \<times> string \<times> bool) option result \<times> sync_db" where
  "receive_payload G q ws_name local text D =
     (case (case text of None \<Rightarrow> Inl ValueError | Some t \<Rightarrow> loads_strict (g_parse G) t) of
        Inl e \<Rightarrow> (Inl e, D)
      | Inr v \<Rightarrow>
          if \<not> is_obj v then (Inl SyncError, D)
          else
            (case rbind (normalise_device_id (g_lib G) (jget (as_obj v) ''device_id'')) (\<lambda>remote.
                  rbind (check_incoming_freshness G (as_obj v) (sr_target q) (sr_repo q) remote (d_store D))
                    (\<lambda>(freshness, bootstrap, duplicate). Inr (remote, freshness, bootstrap, duplicate))) of
               Inl e \<Rightarrow> (Inl e, D)
             | Inr (remote, freshness, bootstrap, duplicate) \<Rightarrow>
                 if duplicate \<and> remote = local then (Inr None, D)
                 else (case apply_bundle G v (Some ws_name) (sr_repo q) (sr_dry q) D of
                      (Inl e, D) \<Rightarrow> (Inl e, D)
                    | (Inr rep, D) \<Rightarrow> (Inr (Some (rep, remote, freshness \<noteq> None \<and> \<not> bootstrap)), D))))"

fun pull_all :: "sync_engine \<Rightarrow> sync_round \<Rightarrow> string \<Rightarrow> string \<Rightarrow> pull_event list \<Rightarrow> sync_db \<Rightarrow>
    round_entry list \<times> nat \<times> sync_db" where
  "pull_all G q ws_name local [] D = ([], 0, D)"
| "pull_all G q ws_name local (Pull_failed # _) D = ([Transport_failure], 0, D)"
| "pull_all G q ws_name local (Payload name text n # rest) D =
     (case receive_payload G q ws_name local text D of
        (Inl e, D) \<Rightarrow> (case pull_all G q ws_name local rest D of (es, k, D) \<Rightarrow> (failed_entry name e # es, k, D))
      | (Inr None, D) \<Rightarrow> pull_all G q ws_name local rest D
      | (Inr (Some (rep, remote, fresh)), D) \<Rightarrow>
          let D = (if sr_dry q then D else add_sync_bytes local 0 n D)
          in (case pull_all G q ws_name local rest D of (es, k, D) \<Rightarrow> (Bundle_applied rep remote fresh # es, k + n, D)))"

definition exported_ids :: "obj \<Rightarrow> string list" where
  "exported_ids b =
     (case jget b ''memories'' of
        JList xs \<Rightarrow> concat (map (\<lambda>x. case x of JObj d \<Rightarrow> (case jget d ''id'' of JStr i \<Rightarrow> [i] | _ \<Rightarrow> []) | _ \<Rightarrow> []) xs)
      | _ \<Rightarrow> [])"

text \<open>The push: one transaction of the export proof, the counters and the checkpoint.\<close>

definition push_snapshot :: "sync_engine \<Rightarrow> sync_round \<Rightarrow> string \<Rightarrow> bool \<Rightarrow> sync_db \<Rightarrow> (obj \<times> nat \<times> sync_db) result" where
  "push_snapshot G q local accepts D =
     rbind (export_bundle G (sr_target q) (sr_repo q) False D) (\<lambda>(b, D).
     rbind (rfold (\<lambda>ids s. rbind (mark_memories_sync_exported (bound_env G D) ids (sr_target q) None s) (\<lambda>(_, s). Inr s))
              (batches (exported_ids b)) (d_store D)) (\<lambda>s.
       if \<not> accepts then Inl RuntimeError
       else
         let sent = length (g_payload G (JObj b)); D = add_sync_bytes local sent 0 (D\<lparr>d_store := s\<rparr>)
         in case (jget b ''generation'', jget b ''state_hash'') of
              (JInt generation, JStr hash) \<Rightarrow>
                Inr (b, sent, D\<lparr>d_store :=
                  save_snapshot_checkpoint G (sr_target q) (sr_repo q) local generation hash (d_store D)\<rparr>)
            | _ \<Rightarrow> Inl KeyError))"

definition memories_count :: "obj \<Rightarrow> nat" where
  "memories_count b = (case jget b ''memories'' of JList xs \<Rightarrow> length xs | _ \<Rightarrow> 0)"

record round_report =
  rr_pushed :: bool
  rr_entries :: "round_entry list"
  rr_exported :: nat
  rr_sent :: nat
  rr_received :: nat

definition complete :: "round_report \<Rightarrow> bool" where
  "complete r \<longleftrightarrow> list_all (\<lambda>e. case e of Bundle_applied _ _ fresh \<Rightarrow> fresh | _ \<Rightarrow> False) (rr_entries r)"

definition sync_once :: "sync_engine \<Rightarrow> transport \<Rightarrow> sync_round \<Rightarrow> sync_db \<Rightarrow> round_report result \<times> sync_db" where
  "sync_once G tr q D =
     (case rbind (export_bundle G (sr_target q) (sr_repo q) False D) (\<lambda>(b, _).
           rbind (normalise_device_id (g_lib G) (g_device G)) (\<lambda>local. Inr (b, local))) of
        Inl e \<Rightarrow> (Inl e, D)
      | Inr (b, local) \<Rightarrow>
          (case pull_all G q (workspace_name (sr_target q) D) local (tr_events tr) D of (entries, received, D) \<Rightarrow>
             if sr_dry q \<or> \<not> sr_push q then
               (Inr \<lparr>rr_pushed = False, rr_entries = entries, rr_exported = memories_count b,
                     rr_sent = 0, rr_received = received\<rparr>, D)
             else
               (case push_snapshot G q local (tr_accepts tr) D of
                  Inl e \<Rightarrow> (Inl e, D)
                | Inr (b, sent, D) \<Rightarrow>
                    (Inr \<lparr>rr_pushed = True, rr_entries = entries, rr_exported = memories_count b,
                          rr_sent = sent, rr_received = received\<rparr>, D))))"




section \<open>Stores a bundle may be applied to\<close>

definition ready_store :: "store_env \<Rightarrow> store \<Rightarrow> bool" where
  "ready_store E s \<longleftrightarrow> store_ok s \<and> tombs_ok s \<and> mint_fresh E s"

text \<open>Every write of the passes keeps the classes of the markers.\<close>

lemma sync_write_markers: "sync_write E r s = Inr (r', s') \<Longrightarrow> st_tombs s' = st_tombs s"
  by (auto elim!: sync_write_impl dest!: add_impl_markers simp: same_markers_def)

lemma erase_markers: "st_tombs (snd (erase_memory_rows E actor mid s)) = st_tombs s"
  by (simp add: erase_memory_rows_def Let_def split: option.split)

lemma same_tombs: "st_tombs s' = st_tombs s \<Longrightarrow> tombs_ok s \<longrightarrow> tombs_ok s'"
  by (simp add: tombs_ok_def)

interpretation kept_classes: pass_writes E dry "\<lambda>s s'. tombs_ok s \<longrightarrow> tombs_ok s'" for E dry
proof unfold_locales
  show "tombs_ok s \<longrightarrow> tombs_ok s'" if "only_links s s'" for s s'
    using only_links_tables(5) [OF that] by (rule same_tombs)
  show "tombs_ok s \<longrightarrow> tombs_ok s'" if "audit (e_lib E) actor action target detail s = Inr s'" for actor action target detail s s'
    using audit_tables(6) [OF that] by (rule same_tombs)
  show "tombs_ok s \<longrightarrow> tombs_ok s'" if "sync_write E r s = Inr (r', s')" for r r' s s'
    using sync_write_markers [OF that] by (rule same_tombs)
  show "tombs_ok s \<longrightarrow> tombs_ok s'" if "add_memory_tombstone E mid t dev ws repo cls s = Inr s'" for mid t dev ws repo cls s s'
    using add_tombstone_get(1) [OF that] by blast
  show "tombs_ok s \<longrightarrow> tombs_ok (snd (erase_memory_rows E actor mid s))" for actor mid s
    using erase_markers by (rule same_tombs)
qed blast+

text \<open>The link pass leaves the rows alone.\<close>

definition same_rows :: "store \<Rightarrow> store \<Rightarrow> bool" where
  "same_rows s s' \<longleftrightarrow> store_ok s' = store_ok s \<and> st_minted s' = st_minted s \<and> (\<forall>i. get_memory s' i = get_memory s i)"

interpretation rows_kept: link_writes E dry same_rows for E dry
  by unfold_locales (simp_all add: same_rows_def audit_ok audit_tables audit_get only_links_tables)

lemma same_rows_ready: "same_rows s s' \<Longrightarrow> store_ok s \<and> mint_fresh E s \<Longrightarrow> store_ok s' \<and> mint_fresh E s'"
  by (simp add: same_rows_def mint_fresh_def)

lemma batches_ready:
  assumes "sync_ready E X (concat bs) y"
  shows "store_ok (y_store (snd (apply_batches E X tombs bs y))) \<and> mint_fresh E (y_store (snd (apply_batches E X tombs bs y)))"
  using assms
proof (induction bs arbitrary: y)
  case Nil
  then show ?case by (simp add: sync_ready_def)
next
  case (Cons b bs)
  have sub: "bundle_ids (e_lib E) b \<subseteq> bundle_ids (e_lib E) (concat (b # bs))"
    "bundle_ids (e_lib E) (concat bs) \<subseteq> bundle_ids (e_lib E) (concat (b # bs))"
    by (auto simp: bundle_ids_def)
  have ready: "sync_ready E X b y"
    using Cons.prems mint_apart_subset [OF _ sub(1)] by (simp add: sync_ready_def)
  show ?case
  proof (cases "apply_batch E X tombs b y")
    case (Inl e)
    then show ?thesis using Cons.prems by (simp add: sync_ready_def)
  next
    case (Inr y1)
    have "sync_ready E X (concat bs) y1"
      using Cons.prems mint_apart_subset [OF _ sub(2)] apply_batch_ok [OF Inr ready] by (simp add: sync_ready_def)
    from Cons.IH [OF this] show ?thesis by (simp add: Inr)
  qed
qed

lemma passes_ready:
  assumes run: "run_passes E X allow h (start_state s) = (err, y')" and "\<not> x_dry X" "e_allowed E = None"
    and dev: "stable_device (e_lib E) (x_device X)" and ok: "ready_store E s"
    and apart: "mint_apart E (bundle_ids (e_lib E) (h_rows h))"
  shows "ready_store E (y_store y')"
proof -
  have y: "y_store (start_state s) = s" by (simp add: start_state_def)
  obtain y1 admitted where t: "apply_tombstones E X allow (h_tombs h) (start_state s) = Inr (y1, admitted)"
    using apply_tombs_total [OF dev assms(3), of "start_state s" allow "h_tombs h"] ok assms(2)
    by (auto simp: y ready_store_def)
  have ok1: "store_ok (y_store y1)" using kept_ok.tombs_R [OF t refl] ok by (simp add: y ready_store_def)
  have "fewer_rows s (y_store y1)" using fewer.tombs_R [OF t refl] by (simp add: y)
  then have fresh1: "mint_fresh E (y_store y1)" using ok by (auto simp: ready_store_def intro: fewer_fresh)
  obtain err2 y2 where m: "apply_memories E X admitted (h_rows h) y1 = (err2, y2)"
    by (cases "apply_memories E X admitted (h_rows h) y1")
  have ready: "sync_ready E X (h_rows h) y1" using ok1 fresh1 assms(2,3) apart by (simp add: sync_ready_def)
  have ok2: "store_ok (y_store y2) \<and> mint_fresh E (y_store y2)"
  proof -
    obtain live_map where "live_tombstones X admitted (y_store y1) = Inr live_map"
      using live_tombstones_total by blast
    then have "apply_batches E X live_map (batches (h_rows h)) y1 = (err2, y2)" using m by (simp add: apply_memories_def)
    then show ?thesis
      using batches_ready [of E X "batches (h_rows h)" y1 live_map] ready by (simp add: concat_batches)
  qed
  have "tombs_ok (y_store y')" using kept_classes.run_R [OF run refl] ok by (simp add: y ready_store_def)
  moreover have "store_ok (y_store y') \<and> mint_fresh E (y_store y')"
  proof (cases err2)
    case None
    then have l: "apply_links E X (h_links h) 0 y2 y2 = (err, y')" using run by (simp add: run_passes_def t m)
    show ?thesis
      using rows_kept.links_R [OF l refl rows_kept.refl rows_kept.refl] ok2 by (rule same_rows_ready)
  next
    case (Some e)
    then show ?thesis using run ok2 by (simp add: run_passes_def t m)
  qed
  ultimately show ?thesis by (simp add: ready_store_def)
qed


section \<open>What a round may change\<close>

text \<open>
  A row changes only if it is not protected and belongs to the receiving workspace (or is the
  successor of a concurrent edit), and what replaces it is not approved.
\<close>

definition row_step :: "pylib \<Rightarrow> string option \<Rightarrow> memory_record option \<Rightarrow> memory_record option \<Rightarrow> bool" where
  "row_step L ws old new \<longleftrightarrow> new = old \<or>
     pred_option (\<lambda>r. \<not> protected_row L r \<and> (ws \<noteq> None \<and> workspace_id r = ws \<or> successor r)) old \<and>
     pred_option (\<lambda>r. \<not> approved_row L r) new"

lemma row_step_trans: "row_step L ws a b \<Longrightarrow> row_step L ws b c \<Longrightarrow> row_step L ws a c"
  by (auto simp: row_step_def)

lemma row_step_mono: "row_step L ws a b \<Longrightarrow> ws = None \<or> ws' = ws \<Longrightarrow> row_step L ws' a b"
  by (auto simp: row_step_def pred_option_def)

definition db_step :: "sync_engine \<Rightarrow> string \<Rightarrow> sync_db \<Rightarrow> sync_db \<Rightarrow> bool" where
  "db_step G name D D' \<longleftrightarrow> ready_store (g_env G) (d_store D') \<and>
     (map_of (d_workspaces D) name = None \<or> map_of (d_workspaces D') name = map_of (d_workspaces D) name) \<and>
     (\<forall>i. row_step (g_lib G) (map_of (d_workspaces D') name) (get_memory (d_store D) i) (get_memory (d_store D') i))"

lemma db_step_refl: "ready_store (g_env G) (d_store D) \<Longrightarrow> db_step G name D D"
  by (simp add: db_step_def row_step_def)

lemma db_step_trans: "db_step G name A B \<Longrightarrow> db_step G name B C \<Longrightarrow> db_step G name A C"
proof -
  assume *: "db_step G name A B" "db_step G name B C"
  have "row_step (g_lib G) (map_of (d_workspaces C) name) (get_memory (d_store A) i) (get_memory (d_store B) i)" for i
    using * by (auto simp: db_step_def intro: row_step_mono)
  then show ?thesis using * row_step_trans unfolding db_step_def by fastforce
qed

lemma db_step_ready: "db_step G name D D' \<Longrightarrow> ready_store (g_env G) (d_store D')"
  by (simp add: db_step_def)

text \<open>A step that leaves the rows, their mirror and the markers alone.\<close>

lemma db_step_frame:
  assumes "ready_store (g_env G) (d_store D)" "d_workspaces D' = d_workspaces D"
    and "st_rows (d_store D') = st_rows (d_store D)" "st_fts (d_store D') = st_fts (d_store D)"
    and "st_orphans (d_store D') = st_orphans (d_store D)" "st_tombs (d_store D') = st_tombs (d_store D)"
    and "st_minted (d_store D') = st_minted (d_store D)"
  shows "db_step G name D D'"
proof -
  have "get_memory (d_store D') i = get_memory (d_store D) i" for i by (simp add: get_memory_def assms(3))
  then show ?thesis
    using assms same_rows_ok [OF assms(3-5)]
    by (simp add: db_step_def row_step_def ready_store_def tombs_ok_def mint_fresh_def)
qed

section \<open>One bundle\<close>

lemma apply_bundle_workspaces:
  assumes "apply_bundle G v into only dry D = (res, D')"
  shows "map_of (d_workspaces D) n = None \<or> map_of (d_workspaces D') n = map_of (d_workspaces D) n"
proof -
  have repos: "d_workspaces D2 = d_workspaces D1" if "create_repos G ws rs D1 = (r, D2)" for ws rs D1 r D2
    using that
    by (induction rs arbitrary: D1 r D2)
      (auto simp: get_or_create_repo_def rbind_def Let_def split: sum.splits option.splits prod.splits)
  have made: "map_of (d_workspaces D1) n = None \<or> map_of (d_workspaces D2) n = map_of (d_workspaces D1) n"
    if "get_or_create_workspace G name D1 = Inr (ws, D2)" for name ws D1 D2
    using that by (auto simp: get_or_create_workspace_def rbind_eq_Inr_conv Let_def map_add_def split: option.splits)
  have fin: "d_workspaces D2 = d_workspaces D1" if "finish_bundle G X h f D1 = (r, D2)" for X h f D1 r D2
    using that by (auto simp: finish_bundle_def split: prod.splits option.splits)
  show ?thesis
  proof (cases "read_bundle G v into")
    case (Inl e)
    then show ?thesis using assms by (simp add: apply_bundle_def)
  next
    case read: (Inr h)
    show ?thesis
    proof (cases dry)
      case True
      then show ?thesis using assms apply_dry [of G v into only D] by simp
    next
      case False
      show ?thesis
      proof (cases "get_or_create_workspace G (h_workspace h) D")
        case (Inl e)
        then show ?thesis using assms False by (simp add: apply_bundle_def read)
      next
        case (Inr q)
        obtain ws D1 where q: "q = (ws, D1)" by (cases q)
        obtain r D2 where c: "create_repos G ws (h_repos h) D1 = (r, D2)" by (cases "create_repos G ws (h_repos h) D1")
        have "d_workspaces D' = d_workspaces D1"
          using assms False repos [OF c] fin
          by (auto simp: apply_bundle_def read Inr q c split: sum.splits)
        then show ?thesis using made Inr q by simp
      qed
    qed
  qed
qed

lemma live_resolves:
  assumes "apply_bundle G v into only False D = (res, D')" "read_bundle G v into = Inr h"
    and "g_bound G = None" "sha_hex (g_lib G)" "ready_store (g_env G) (d_store D)"
    and "mint_apart (g_env G) (bundle_ids (g_lib G) (h_rows h))"
  shows "db_step G (h_workspace h) D D'"
  using assms(1,2)
proof (cases rule: apply_bundle_live)
  case (refused e)
  then show ?thesis
    using assms(5) apply_bundle_workspaces [OF assms(1), of "h_workspace h"] by (simp add: db_step_def row_step_def)
next
  case (passes ws D0 freshness remap boot dup)
  let ?X = "bundle_target h only False ws remap" and ?E = "bound_env G D0"
  have "\<exists>device. normalise_device_id (g_lib G) device = Inr (h_device h)"
    using assms(2) by (auto simp: read_bundle_def rbind_eq_Inr_conv split: json.splits if_splits prod.splits)
  then have dev: "stable_device (g_lib G) (h_device h)" using assms(4) normalised_stable by blast
  have br: "bundle_ready G h (d_store D0)"
    using assms(3-6) passes(2) by (simp add: bundle_ready_def ready_store_def)
  obtain err y where r: "run_passes ?E ?X (g_erase G) h (start_state (d_store D0)) = (err, y)"
    by (cases "run_passes ?E ?X (g_erase G) h (start_state (d_store D0))")
  have "ready_store ?E (y_store y)"
    using passes_ready [OF r] dev br by (simp add: bundle_ready_def ready_store_def unbound_env)
  then have ready: "ready_store (g_env G) (y_store y)" by (simp add: ready_store_def unbound_env)
  have cp: "ready_store (g_env G) (save_snapshot_checkpoint G w q d g hash s)" if "ready_store (g_env G) s" for w q d g hash s
    using that same_rows_ok [of "save_snapshot_checkpoint G w q d g hash s" s]
    by (simp add: ready_store_def tombs_ok_def mint_fresh_def save_snapshot_checkpoint_def set_sync_state_def get_memory_def)
  have "ready_store (g_env G) (d_store D')"
    using passes(4) ready cp by (auto simp: finish_bundle_def r split: option.splits if_splits)
  moreover have "row_step (g_lib G) (Some ws) (get_memory (d_store D) i) (get_memory (d_store D') i)" for i
    using finish_step [OF passes(4) br dev, of i] passes(2) by (auto simp: bundle_step_def row_step_def)
  moreover have "map_of (d_workspaces D') (h_workspace h) = Some ws"
    using finish_step [OF passes(4) br dev] passes(1) by simp
  ultimately show ?thesis
    using apply_bundle_workspaces [OF assms(1), of "h_workspace h"] by (simp add: db_step_def)
qed


section \<open>A round\<close>

text \<open>\<open>ids.new_id\<close> returns no identifier that a payload of the transport uses for a row.\<close>

definition apart_payloads :: "sync_engine \<Rightarrow> string \<Rightarrow> pull_event list \<Rightarrow> bool" where
  "apart_payloads G ws_name events \<longleftrightarrow>
     (\<forall>name t n h. Payload name (Some t) n \<in> set events \<longrightarrow>
        rbind (loads_strict (g_parse G) t) (\<lambda>v. read_bundle G v (Some ws_name)) = Inr h \<longrightarrow>
        mint_apart (g_env G) (bundle_ids (g_lib G) (h_rows h)))"

lemma read_target: "read_bundle G v (Some w) = Inr h \<Longrightarrow> target_name G b (Some w) = Inr (h_workspace h)"
  by (auto simp: read_bundle_def rbind_eq_Inr_conv target_name_def Let_def split: json.splits if_splits prod.splits option.splits)

lemma receive_step:
  assumes "receive_payload G q ws_name local text D = (res, D')" "g_bound G = None" "sha_hex (g_lib G)"
    and "ready_store (g_env G) (d_store D)" "target_name G [] (Some ws_name) = Inr name"
    and "\<And>t h. text = Some t \<Longrightarrow> rbind (loads_strict (g_parse G) t) (\<lambda>v. read_bundle G v (Some ws_name)) = Inr h \<Longrightarrow>
      mint_apart (g_env G) (bundle_ids (g_lib G) (h_rows h))"
  shows "db_step G name D D'" "sr_dry q \<Longrightarrow> D' = D"
proof -
  have "D' = D \<or> (\<exists>v t r. text = Some t \<and> loads_strict (g_parse G) t = Inr v \<and>
      apply_bundle G v (Some ws_name) (sr_repo q) (sr_dry q) D = (r, D'))"
    using assms(1)
    by (auto simp: receive_payload_def split: option.splits sum.splits if_splits prod.splits)
  then consider "D' = D" | v t r where "text = Some t" "loads_strict (g_parse G) t = Inr v"
      "apply_bundle G v (Some ws_name) (sr_repo q) (sr_dry q) D = (r, D')" by blast
  then have "db_step G name D D' \<and> (sr_dry q \<longrightarrow> D' = D)"
  proof cases
    case 1
    then show ?thesis using db_step_refl [of G D name] assms(4) by simp
  next
    case 2
    have dry: "sr_dry q \<longrightarrow> D' = D" using 2(3) apply_dry [of G v "Some ws_name" "sr_repo q" D] by auto
    show ?thesis
    proof (cases "sr_dry q \<or> read_bundle G v (Some ws_name) \<notin> range Inr")
      case True
      then have "D' = D" using 2(3) dry by (cases "read_bundle G v (Some ws_name)") (auto simp: apply_bundle_def)
      then show ?thesis using db_step_refl [of G D name] assms(4) by simp
    next
      case False
      then obtain h where h: "read_bundle G v (Some ws_name) = Inr h" by blast
      have "name = h_workspace h" using read_target [OF h, of "[]"] assms(5) by simp
      moreover have "mint_apart (g_env G) (bundle_ids (g_lib G) (h_rows h))" using assms(6) 2(1,2) h by simp
      ultimately show ?thesis using live_resolves [OF _ h assms(2-4)] 2(3) False dry by simp
    qed
  qed
  then show "db_step G name D D'" "sr_dry q \<Longrightarrow> D' = D" by simp_all
qed

lemma stats_step: "ready_store (g_env G) (d_store D) \<Longrightarrow> db_step G name D (add_sync_bytes local sent received D)"
  by (rule db_step_frame) (simp_all add: add_sync_bytes_def)

lemma pull_step:
  assumes "pull_all G q ws_name local events D = (entries, received, D')" "g_bound G = None" "sha_hex (g_lib G)"
    and "ready_store (g_env G) (d_store D)" "target_name G [] (Some ws_name) = Inr name" "apart_payloads G ws_name events"
  shows "db_step G name D D' \<and> (sr_dry q \<longrightarrow> D' = D)"
  using assms(1,4,6)
proof (induction events arbitrary: D entries received)
  case Nil
  then show ?case by (auto intro: db_step_refl)
next
  case (Cons e events)
  have rest: "apart_payloads G ws_name events" using Cons.prems(3) by (auto simp: apart_payloads_def)
  show ?case
  proof (cases e)
    case Pull_failed
    then show ?thesis using Cons.prems by (auto intro: db_step_refl)
  next
    case (Payload bname msg n)
    obtain r D1 where recv: "receive_payload G q ws_name local msg D = (r, D1)"
      by (cases "receive_payload G q ws_name local msg D")
    have step: "db_step G name D D1" "sr_dry q \<Longrightarrow> D1 = D"
      using receive_step [OF recv assms(2,3) Cons.prems(2) assms(5)] Cons.prems(3)
      by (auto simp: apart_payloads_def Payload)
    define D2 where "D2 = (case r of Inr (Some _) \<Rightarrow> if sr_dry q then D1 else add_sync_bytes local 0 n D1 | _ \<Rightarrow> D1)"
    have step2: "db_step G name D D2" "sr_dry q \<Longrightarrow> D2 = D"
      using step db_step_trans [OF step(1) stats_step] db_step_ready [OF step(1)] by (auto simp: D2_def split: sum.splits option.splits)
    obtain es k where tail: "pull_all G q ws_name local events D2 = (es, k, D')"
      using Cons.prems(1)
      by (auto simp: Payload recv D2_def Let_def split: sum.splits option.splits prod.splits)
    have "db_step G name D2 D' \<and> (sr_dry q \<longrightarrow> D' = D2)"
      using Cons.IH [OF tail db_step_ready [OF step2(1)] rest] .
    then show ?thesis using step2 db_step_trans by blast
  qed
qed

lemma mark_only:
  assumes "mark_memories_sync_exported E mids ws t s = Inr (n, s')"
  shows "only_exports s s'"
proof -
  obtain xs ts where run: "rfold (mark_one_export ws ts) xs s = Inr s'"
    using assms unfolding mark_memories_sync_exported_def Let_def by (auto simp: rbind_eq_Inr_conv split: if_splits)
  show ?thesis
  proof (rule rfold_invariant [OF run])
    show "only_exports s s" by (simp add: only_exports_def)
  next
    fix x u v
    assume "only_exports s u" "mark_one_export ws ts x u = Inr v"
    moreover from this have "only_exports u v"
      by (auto simp: mark_one_export_def Let_def only_exports_def split: if_splits option.splits)
    ultimately show "only_exports s v" by (blast intro: only_exports_trans)
  qed
qed


lemma push_step:
  assumes "push_snapshot G q local accepts D = Inr (b, sent, D')" "ready_store (g_env G) (d_store D)"
  shows "db_step G name D D'"
proof -
  obtain b1 D1 s where ex: "export_bundle G (sr_target q) (sr_repo q) False D = Inr (b1, D1)"
    and marks: "rfold (\<lambda>ids s. rbind (mark_memories_sync_exported (bound_env G D1) ids (sr_target q) None s) (\<lambda>(_, s). Inr s))
              (batches (exported_ids b1)) (d_store D1) = Inr s"
    and D': "\<exists>n. let D2 = add_sync_bytes local n 0 (D1\<lparr>d_store := s\<rparr>) in \<exists>g h.
       D' = D2\<lparr>d_store := save_snapshot_checkpoint G (sr_target q) (sr_repo q) local g h (d_store D2)\<rparr>"
    using assms(1)
    by (auto simp: push_snapshot_def rbind_eq_Inr_conv Let_def split: if_splits json.splits) metis
  have "D1 = D" using ex by (rule exportE) (erule stamp_snapshotE, simp)
  have "only_exports (d_store D1) s"
  proof (rule rfold_invariant [OF marks])
    show "only_exports (d_store D1) (d_store D1)" by (simp add: only_exports_def)
  next
    fix x u v
    assume "only_exports (d_store D1) u"
      "rbind (mark_memories_sync_exported (bound_env G D1) x (sr_target q) None u) (\<lambda>(_, s). Inr s) = Inr v"
    then show "only_exports (d_store D1) v" using only_exports_trans mark_only by (auto simp: rbind_eq_Inr_conv)
  qed
  then obtain es where s: "s = (d_store D)\<lparr>st_exports := es\<rparr>" unfolding only_exports_def \<open>D1 = D\<close> by blast
  show ?thesis
    by (rule db_step_frame [OF assms(2)])
      (use D' in \<open>auto simp: s \<open>D1 = D\<close> Let_def add_sync_bytes_def save_snapshot_checkpoint_def set_sync_state_def split: if_splits\<close>)
qed

section \<open>Properties\<close>



section \<open>A concrete round\<close>

definition demo_reader :: sync_engine where
  "demo_reader = demo_engine\<lparr>g_parse := (\<lambda>_. Inr demo_bundle)\<rparr>"

definition demo_transport :: transport where
  "demo_transport = \<lparr>tr_events = [Payload ''bundle-a.json'' (Some ''{}'') 2, Pull_failed], tr_accepts = False\<rparr>"

definition demo_round :: sync_round where
  "demo_round = \<lparr>sr_target = ''ws'', sr_repo = None, sr_dry = False, sr_push = True\<rparr>"

lemma reader_fields:
  "g_lib demo_reader = g_lib demo_engine" "g_env demo_reader = g_env demo_engine" "g_bound demo_reader = None"
  "g_allowed demo_reader = None"
  by (simp_all add: demo_reader_def demo_engine_def)

lemma reader_rows:
  assumes "read_bundle demo_reader demo_bundle (Some ''w'') = Inr h"
  shows "h_rows h = demo_bundle_rows"
proof -
  have "bundle_lists (as_obj demo_bundle) = Inr (h_rows h, h_links h, h_tombs h)"
    using assms by (auto simp: read_bundle_def demo_bundle_def rbind_eq_Inr_conv split: if_splits)
  then show ?thesis
    by (auto simp: bundle_lists_def demo_bundle_def jget_def or_empty_list_def demo_bundle_rows_def split: if_splits)
qed


end
