(* ===== verification/HistoryFit.thy ===== *)
theory HistoryFit
  imports Regex "HOL-Library.Sublist"
begin

text \<open>
  The dependency-free token counter of the context packer (\<^verbatim>\<open>engraphis/core/context.py\<close>,
  \<open>RegexTokenCounter\<close>) and the fitting of a host's own history into a token budget
  (\<^verbatim>\<open>engraphis/core/adaptive_context.py\<close>, \<open>fit_recent_history\<close>).

  A counter is any function from texts to integers; the interface \<open>token_counter\<close> states what the
  binary search relies on, that a suffix has no more tokens than the whole, and the shipped
  counter is an instance of it.
\<close>

section \<open>Counters\<close>

text \<open>The matches of the pattern \<^verbatim>\<open>\w+|[^\w\s]\<close>: runs of word characters and single other characters.\<close>

fun regex_tokens :: "bool \<Rightarrow> string \<Rightarrow> int" where
  "regex_tokens in_word [] = 0"
| "regex_tokens in_word (c # cs) =
     (if word_char c then (if in_word then 0 else 1) + regex_tokens True cs
      else (if py_space c then 0 else 1) + regex_tokens False cs)"

definition count_regex_tokens :: "string \<Rightarrow> int" where
  "count_regex_tokens text = regex_tokens False text"

locale token_counter =
  fixes count :: "string \<Rightarrow> int"
  assumes suffix_count: "count (drop n s) \<le> count s"
    and empty_count: "count [] = 0"
begin

lemma suffix_le: "suffix t s \<Longrightarrow> count t \<le> count s"
  by (metis append_eq_conv_conj suffixE suffix_count)

lemma count_nonneg: "0 \<le> count s"
  using suffix_count [of "length s" s] empty_count by simp

end

section \<open>Fitting\<close>

function bisect :: "(string \<Rightarrow> int) \<Rightarrow> string \<Rightarrow> int \<Rightarrow> nat \<Rightarrow> nat \<Rightarrow> nat" where
  "bisect count source budget low high =
     (if low < high then
        let midpoint = (low + high) div 2
        in if count (drop midpoint source) \<le> budget then bisect count source budget low midpoint
           else bisect count source budget (midpoint + 1) high
      else low)"
  by pat_completeness auto
termination by (relation "measure (\<lambda>(_, _, _, low, high). high - low)") auto

declare bisect.simps [simp del]

definition mid_word :: "string \<Rightarrow> nat \<Rightarrow> bool" where
  "mid_word source low \<longleftrightarrow> 0 < low \<and> low < length source \<and> py_alnum (source ! (low - 1)) \<and> py_alnum (source ! low)"

text \<open>The rest of the text after the first whitespace, or all of it.\<close>

definition after_boundary :: "string \<Rightarrow> string" where
  "after_boundary fitted =
     (case dropWhile (\<lambda>c. \<not> py_space c) fitted of [] \<Rightarrow> fitted | _ # rest \<Rightarrow> lstrip rest)"

lemma length_lstrip: "length (lstrip s) \<le> length s"
  by (simp add: lstrip_def length_dropWhile_le)

function trim_front :: "(string \<Rightarrow> int) \<Rightarrow> int \<Rightarrow> string \<Rightarrow> string" where
  "trim_front count budget fitted =
     (if fitted \<noteq> [] \<and> count fitted > budget then trim_front count budget (lstrip (tl fitted)) else fitted)"
  by pat_completeness auto
termination
proof (relation "measure (\<lambda>(_, _, fitted). length fitted)")
  fix count :: "string \<Rightarrow> int" and budget fitted
  assume "fitted \<noteq> [] \<and> count fitted > budget"
  then show "((count, budget, lstrip (tl fitted)), (count, budget, fitted)) \<in> measure (\<lambda>(_, _, fitted). length fitted)"
    using length_lstrip [of "tl fitted"] by (cases fitted) auto
qed simp

declare trim_front.simps [simp del]

definition fit_recent_history :: "(string \<Rightarrow> int) \<Rightarrow> string \<Rightarrow> int \<Rightarrow> string \<times> bool" where
  "fit_recent_history count source token_budget =
     (let budget = max 0 token_budget
      in if source = [] \<or> budget = 0 then ([], source \<noteq> [])
         else if count source \<le> budget then (source, False)
         else
           let low = bisect count source budget 0 (length source);
               fitted = lstrip (drop low source);
               fitted = (if mid_word source low then after_boundary fitted else fitted)
           in (trim_front count budget fitted, True))"

section \<open>Lemmas\<close>

lemma suffix_lstrip: "suffix (lstrip s) s"
  by (simp add: lstrip_def suffix_dropWhile)

lemma suffix_after_boundary: "suffix (after_boundary s) s"
proof (cases "dropWhile (\<lambda>c. \<not> py_space c) s")
  case (Cons c rest)
  then have "suffix (c # rest) s" using suffix_dropWhile [of "\<lambda>c. \<not> py_space c" s] by simp
  then have "suffix rest s" by (rule suffix_ConsD)
  then show ?thesis using suffix_lstrip [of rest] suffix_order.trans by (auto simp: after_boundary_def Cons)
qed (simp add: after_boundary_def del: dropWhile_eq_Nil_conv)

lemma fitted_suffix:
  "suffix (if mid_word source k then after_boundary (lstrip (drop k source)) else lstrip (drop k source)) (drop k source)"
  by (simp add: suffix_order.trans [OF suffix_after_boundary suffix_lstrip] suffix_lstrip)

lemma trim_front_fits: "trim_front count budget s \<noteq> [] \<Longrightarrow> count (trim_front count budget s) \<le> budget"
  by (induction count budget s rule: trim_front.induct) (subst trim_front.simps, subst (asm) trim_front.simps, auto)

lemma suffix_trim_front: "suffix (trim_front count budget s) s"
proof (induction count budget s rule: trim_front.induct)
  case (1 count budget s)
  show ?case
  proof (cases "s \<noteq> [] \<and> count s > budget")
    case True
    have "suffix (lstrip (tl s)) s" using suffix_lstrip [of "tl s"] suffix_tl suffix_order.trans by blast
    then show ?thesis using 1 True suffix_order.trans by (subst trim_front.simps) auto
  qed (subst trim_front.simps, auto)
qed

lemma trim_front_id: "count s \<le> budget \<Longrightarrow> trim_front count budget s = s"
  by (subst trim_front.simps) auto

context token_counter
begin

lemma bisect_least:
  "low \<le> high \<Longrightarrow> count (drop high source) \<le> budget \<Longrightarrow>
     low \<le> bisect count source budget low high \<and> bisect count source budget low high \<le> high \<and>
     count (drop (bisect count source budget low high) source) \<le> budget \<and>
     (\<forall>j. low \<le> j \<and> j < bisect count source budget low high \<longrightarrow> budget < count (drop j source))"
proof (induction "high - low" arbitrary: low high rule: less_induct)
  case less
  show ?case
  proof (cases "low < high")
    case False
    then have "bisect count source budget low high = low" by (subst bisect.simps) simp
    then show ?thesis using less.prems False by simp
  next
    case True
    define mid where "mid = (low + high) div 2"
    have mid: "low \<le> mid" "mid < high" using True by (auto simp: mid_def)
    show ?thesis
    proof (cases "count (drop mid source) \<le> budget")
      case fits: True
      then have "bisect count source budget low high = bisect count source budget low mid"
        using True by (subst bisect.simps) (simp add: mid_def)
      moreover have "mid - low < high - low" using mid by linarith
      note less.hyps [OF this _ fits]
      ultimately show ?thesis using mid by auto
    next
      case over: False
      then have b: "bisect count source budget low high = bisect count source budget (mid + 1) high"
        using True by (subst bisect.simps) (simp add: mid_def)
      have "budget < count (drop j source)" if "j \<le> mid" for j
        using suffix_count [of "mid - j" "drop j source"] over that by simp
      moreover have "high - (mid + 1) < high - low" "mid + 1 \<le> high" using mid by linarith+
      note less.hyps [OF this less.prems(2)]
      ultimately show ?thesis unfolding b using mid by (metis Suc_eq_plus1 Suc_leD dual_order.trans not_less_eq_eq)
    qed
  qed
qed

text \<open>
  With such a counter the last loop never runs, and what is dropped beyond the longest suffix
  that fits is a part of a word and white space.
\<close>

lemma fitted_split:
  "\<exists>w gap. drop low source = w @ gap @ (if mid_word source low then after_boundary (lstrip (drop low source))
      else lstrip (drop low source)) \<and>
     (\<forall>c \<in> set w. \<not> py_space c) \<and> (\<forall>c \<in> set gap. py_space c)"
proof (cases "mid_word source low \<and> dropWhile (\<lambda>c. \<not> py_space c) (lstrip (drop low source)) \<noteq> []")
  case True
  define s where "s = drop low source"
  have word: "low < length source" "py_alnum (source ! low)" using True unfolding mid_word_def by blast+
  then have "\<not> py_space (source ! low)" by (auto simp: py_alnum_def py_space_def Let_def)
  moreover have "s = source ! low # drop (Suc low) source" unfolding s_def by (rule Cons_nth_drop_Suc [OF word(1), symmetric])
  ultimately have l: "lstrip s = s" by (simp add: lstrip_def)
  have "dropWhile (\<lambda>c. \<not> py_space c) s \<noteq> []" using True unfolding s_def [symmetric] l by blast
  then obtain c rest where c: "dropWhile (\<lambda>c. \<not> py_space c) s = c # rest" unfolding neq_Nil_conv by blast
  have "py_space c" using c by (metis dropWhile_eq_Cons_conv)
  have "s = takeWhile (\<lambda>c. \<not> py_space c) s @ (c # takeWhile py_space rest) @ lstrip rest"
    unfolding lstrip_def using takeWhile_dropWhile_id [of "\<lambda>c. \<not> py_space c" s] c by simp
  moreover have "after_boundary (lstrip s) = lstrip rest" by (simp add: after_boundary_def l c)
  ultimately show ?thesis
    using True \<open>py_space c\<close> unfolding s_def [symmetric]
    by (intro exI [of _ "takeWhile (\<lambda>c. \<not> py_space c) s"] exI [of _ "c # takeWhile py_space rest"])
      (auto dest: set_takeWhileD)
next
  case False
  then have "(if mid_word source low then after_boundary (lstrip (drop low source)) else lstrip (drop low source))
      = lstrip (drop low source)" by (auto simp: after_boundary_def simp del: dropWhile_eq_Nil_conv)
  then show ?thesis
    by (intro exI [of _ "[]"] exI [of _ "takeWhile py_space (drop low source)"]) (auto simp: lstrip_def dest: set_takeWhileD)
qed

lemma cut_history:
  assumes "fit_recent_history count source budget = (out, True)" "0 < budget"
  shows "\<exists>k w gap. drop k source = w @ gap @ out \<and> (\<forall>c \<in> set w. \<not> py_space c) \<and> (\<forall>c \<in> set gap. py_space c) \<and>
    count (drop k source) \<le> budget \<and> (\<forall>j < k. budget < count (drop j source))"
proof -
  define k where "k = bisect count source budget 0 (length source)"
  have k: "count (drop k source) \<le> budget" "\<forall>j < k. budget < count (drop j source)"
    using bisect_least [of 0 "length source" source budget] empty_count assms(2) by (auto simp: k_def)
  define f where "f = (if mid_word source k then after_boundary (lstrip (drop k source)) else lstrip (drop k source))"
  have "source \<noteq> []" "count source > budget" and out: "out = trim_front count budget f"
    using assms by (auto simp: fit_recent_history_def Let_def k_def f_def split: if_splits)
  have "suffix f (drop k source)" unfolding f_def by (rule fitted_suffix)
  then have "out = f" using suffix_le k(1) out trim_front_id by fastforce
  then show ?thesis using fitted_split [of k source] k unfolding f_def by blast
qed

end

lemma regex_tokens_flag: "regex_tokens True s \<le> regex_tokens False s \<and> regex_tokens False s \<le> regex_tokens True s + 1"
  by (cases s) auto

lemma regex_tokens_tl: "regex_tokens False cs \<le> regex_tokens False (c # cs)"
  using regex_tokens_flag [of cs] by auto

interpretation regex_counter: token_counter count_regex_tokens
proof unfold_locales
  show "count_regex_tokens (drop n s) \<le> count_regex_tokens s" for n s
  proof (induction s arbitrary: n)
    case (Cons c s)
    show ?case
    proof (cases n)
      case (Suc m)
      then show ?thesis using Cons.IH [of m] regex_tokens_tl [of s c] by (simp add: count_regex_tokens_def del: regex_tokens.simps)
    qed simp
  qed simp
qed (simp add: count_regex_tokens_def)

section \<open>Properties\<close>

text \<open>
  C: with any token counter whatever, the fitted history is a suffix of the history, respects
  the budget, and is the whole history unless it is reported as truncated.
\<close>

theorem history_within_budget:
  assumes "fit_recent_history count source budget = (out, truncated)"
  shows "suffix out source \<and> (out \<noteq> [] \<longrightarrow> count out \<le> budget) \<and> (\<not> truncated \<longrightarrow> out = source)"
proof -
  let ?k = "bisect count source budget 0 (length source)"
  let ?f = "if mid_word source ?k then after_boundary (lstrip (drop ?k source)) else lstrip (drop ?k source)"
  have "suffix (trim_front count budget ?f) source"
    by (rule suffix_order.trans [OF suffix_trim_front suffix_order.trans [OF fitted_suffix suffix_drop]])
  moreover have "trim_front count budget ?f \<noteq> [] \<Longrightarrow> count (trim_front count budget ?f) \<le> budget"
    by (rule trim_front_fits)
  ultimately show ?thesis
    using assms by (auto simp: fit_recent_history_def Let_def max_def split: if_splits)
qed


lemma history_within_budget_witness:
  "suffix ''here we go'' ''so, here we go'' \<and> fit_recent_history count_regex_tokens ''so, here we go'' 3 = (''here we go'', True)"
proof -
  have "fit_recent_history count_regex_tokens ''so, here we go'' 3 = (''here we go'', True)" by code_simp
  then show ?thesis using history_within_budget [of count_regex_tokens "''so, here we go''" 3] by blast
qed


end
