(* ===== verification/GraphRank.thy ===== *)
theory GraphRank
  imports PyValue "HOL-Library.AList"
begin

text \<open>
  Personalised PageRank over the local memory graph (\<^verbatim>\<open>engraphis/core/graphrank.py\<close>), with its
  edge list, its dangling nodes and the early exit, over the reals. The checks of the argument
  types are not modelled: a graph is an association list with distinct keys, weights, damping and
  tolerance are Python floats, of which the code keeps what is finite and in range.

  Lemmas: a step keeps the total mass, contracts by the damping factor and moves mass along
  edges only; so the ranks are a distribution over the nodes reachable from the seeds, and
  further iterations would change them by no more than a stated bound.
\<close>

section \<open>The graph\<close>

type_synonym raw_graph = "(string \<times> (string \<times> pyfloat) list) list"
type_synonym graph = "(string \<times> (string \<times> real) list) list"

definition MAX_NODES :: nat where "MAX_NODES = 100000"
definition MAX_EDGES :: nat where "MAX_EDGES = 1000000"
definition MAX_ITERATIONS :: int where "MAX_ITERATIONS = 100"

definition clean_neighbors :: "(string \<times> pyfloat) list \<Rightarrow> (string \<times> real) list" where
  "clean_neighbors ns =
     concat (map (\<lambda>(v, w). case w of Fin x \<Rightarrow> if 0 < x then [(v, x)] else [] | _ \<Rightarrow> []) ns)"

definition sanitized :: "raw_graph \<Rightarrow> graph" where
  "sanitized g = map (\<lambda>(u, ns). (u, clean_neighbors ns)) g"

definition neighbours :: "graph \<Rightarrow> string \<Rightarrow> (string \<times> real) list" where
  "neighbours g u = (case map_of g u of None \<Rightarrow> [] | Some ns \<Rightarrow> ns)"

definition edge_count :: "graph \<Rightarrow> nat" where
  "edge_count g = sum_list (map (\<lambda>(_, ns). length ns) g)"

definition ordered_nodes :: "graph \<Rightarrow> string list \<Rightarrow> string list" where
  "ordered_nodes g seeds = sort (remdups (map fst g @ concat (map (\<lambda>(_, ns). map fst ns) g) @ seeds))"

definition out_total :: "graph \<Rightarrow> string \<Rightarrow> real" where
  "out_total g u = sum_list (map snd (neighbours g u))"

text \<open>The weights of the destinations of a node, parallel edges added up.\<close>

definition add_weight :: "real \<Rightarrow> (string \<times> real) list \<Rightarrow> string \<times> real \<Rightarrow> (string \<times> real) list" where
  "add_weight mass d e =
     (case e of (v, w) \<Rightarrow> AList.update v ((case map_of d v of None \<Rightarrow> 0 | Some x \<Rightarrow> x) + w / mass) d)"

definition out_weights :: "graph \<Rightarrow> string \<Rightarrow> (string \<times> real) list" where
  "out_weights g u = foldl (add_weight (out_total g u)) [] (neighbours g u)"

definition edges :: "graph \<Rightarrow> string list \<Rightarrow> (string \<times> string \<times> real) list" where
  "edges g nodes =
     concat (map (\<lambda>u. if out_total g u \<le> 0 then [] else map (\<lambda>(v, w). (u, v, w)) (out_weights g u)) nodes)"

definition dangling :: "graph \<Rightarrow> string list \<Rightarrow> string list" where
  "dangling g nodes = filter (\<lambda>u. out_total g u \<le> 0) nodes"

section \<open>The walk\<close>

definition restart :: "string list \<Rightarrow> string \<Rightarrow> real" where
  "restart seeds v = (if v \<in> set seeds then 1 / real (length seeds) else 0)"

record walk =
  wk_nodes :: "string list"
  wk_edges :: "(string \<times> string \<times> real) list"
  wk_dangling :: "string list"
  wk_restart :: "string \<Rightarrow> real"
  wk_damping :: real

definition spread :: "walk \<Rightarrow> (string \<Rightarrow> real) \<Rightarrow> string \<Rightarrow> real" where
  "spread W p v =
     sum_list (map (\<lambda>(u, x, w). if x = v then p u * w else 0) (wk_edges W)) +
     sum_list (map p (wk_dangling W)) * wk_restart W v"

definition next_probability :: "walk \<Rightarrow> (string \<Rightarrow> real) \<Rightarrow> string \<Rightarrow> real" where
  "next_probability W p v = (1 - wk_damping W) * wk_restart W v + wk_damping W * spread W p v"

definition distance :: "walk \<Rightarrow> (string \<Rightarrow> real) \<Rightarrow> (string \<Rightarrow> real) \<Rightarrow> real" where
  "distance W p q = sum_list (map (\<lambda>v. \<bar>q v - p v\<bar>) (wk_nodes W))"

fun iterate :: "walk \<Rightarrow> real \<Rightarrow> nat \<Rightarrow> (string \<Rightarrow> real) \<Rightarrow> string \<Rightarrow> real" where
  "iterate W tol 0 p = p"
| "iterate W tol (Suc n) p =
     (let q = next_probability W p in if distance W p q < tol then q else iterate W tol n q)"

definition graph_walk :: "graph \<Rightarrow> string list \<Rightarrow> real \<Rightarrow> walk" where
  "graph_walk g seeds damping =
     (let nodes = ordered_nodes g seeds
      in \<lparr>wk_nodes = nodes, wk_edges = edges g nodes, wk_dangling = dangling g nodes,
          wk_restart = restart (remdups seeds), wk_damping = damping\<rparr>)"

definition iteration_limit :: "int \<Rightarrow> nat" where
  "iteration_limit iterations = nat (max 0 (min iterations MAX_ITERATIONS))"

definition personalized_pagerank :: "raw_graph \<Rightarrow> string list \<Rightarrow> pyfloat \<Rightarrow> int \<Rightarrow> pyfloat \<Rightarrow> (string \<times> real) list" where
  "personalized_pagerank raw seeds damping iterations tol =
     (if raw = [] \<or> seeds = [] then []
      else case (damping, tol) of
        (Fin d, Fin t) \<Rightarrow>
          if \<not> (0 \<le> d \<and> d \<le> 1) \<or> t < 0 then []
          else
            let g = sanitized raw
            in if list_all (\<lambda>(_, ns). ns = []) g \<or> edge_count g > MAX_EDGES then []
               else if length (ordered_nodes g seeds) > MAX_NODES then []
               else if list_all (\<lambda>s. neighbours g s = []) seeds then []
               else
                 let W = graph_walk g seeds d;
                     p = iterate W t (iteration_limit iterations) (wk_restart W)
                 in map (\<lambda>v. (v, p v)) (filter (\<lambda>v. 0 < p v) (wk_nodes W))
      | _ \<Rightarrow> [])"

section \<open>Sums\<close>

lemma sum_list_swap:
  "sum_list (map (\<lambda>x. sum_list (map (\<lambda>y. f x y) ys)) xs) = sum_list (map (\<lambda>y. sum_list (map (\<lambda>x. f x y) xs)) ys)"
  for f :: "'a \<Rightarrow> 'b \<Rightarrow> real"
  by (induction xs) (simp_all add: sum_list_addf)

lemma sum_list_pick:
  "distinct vs \<Longrightarrow> sum_list (map (\<lambda>v. if x = v then c else 0) vs) = (if x \<in> set vs then c else 0 :: real)"
  by (induction vs) auto

lemma sum_list_abs_le: "\<bar>sum_list (map f xs)\<bar> \<le> sum_list (map (\<lambda>x. \<bar>f x\<bar>) xs)" for f :: "'a \<Rightarrow> real"
  by (induction xs) auto

lemma sum_list_zeros: "(\<And>x. x \<in> set xs \<Longrightarrow> f x = 0) \<Longrightarrow> sum_list (map f xs) = 0" for f :: "'a \<Rightarrow> real"
  by (induction xs) auto

lemma sum_list_concat_map:
  "sum_list (map h (concat (map F us))) = sum_list (map (\<lambda>u. sum_list (map h (F u))) us)" for h :: "'a \<Rightarrow> real"
  by (induction us) simp_all


section \<open>One step\<close>

text \<open>
  What the walk of a graph satisfies: the weights that leave a node add up to one, unless the
  node is dangling, and the restart is a distribution.
\<close>

definition walk_ok :: "walk \<Rightarrow> bool" where
  "walk_ok W \<longleftrightarrow>
     distinct (wk_nodes W) \<and> (\<forall>(u, x, w) \<in> set (wk_edges W). u \<in> set (wk_nodes W) \<and> x \<in> set (wk_nodes W) \<and> 0 < w) \<and>
     (\<forall>p. sum_list (map (\<lambda>(u, x, w). p u * w) (wk_edges W)) + sum_list (map p (wk_dangling W))
        = sum_list (map p (wk_nodes W))) \<and>
     (\<forall>v. 0 \<le> wk_restart W v) \<and> sum_list (map (wk_restart W) (wk_nodes W)) = 1 \<and>
     0 \<le> wk_damping W \<and> wk_damping W \<le> 1"

definition mass :: "walk \<Rightarrow> (string \<Rightarrow> real) \<Rightarrow> real" where
  "mass W p = sum_list (map p (wk_nodes W))"

lemma spread_mass:
  assumes "walk_ok W"
  shows "mass W (spread W p) = mass W p"
proof -
  have "sum_list (map (\<lambda>v. sum_list (map (\<lambda>e. case e of (u, x, w) \<Rightarrow> if x = v then p u * w else 0) (wk_edges W))) (wk_nodes W))
      = sum_list (map (\<lambda>(u, x, w). p u * w) (wk_edges W))"
  proof -
    have "sum_list (map (\<lambda>v. case e of (u, x, w) \<Rightarrow> if x = v then p u * w else 0) (wk_nodes W)) = (case e of (u, x, w) \<Rightarrow> p u * w)"
      if "e \<in> set (wk_edges W)" for e
      using that assms by (cases e) (auto simp: walk_ok_def sum_list_pick)
    then show ?thesis by (subst sum_list_swap) (simp cong: map_cong)
  qed
  moreover have "sum_list (map (\<lambda>v. sum_list (map p (wk_dangling W)) * wk_restart W v) (wk_nodes W)) = sum_list (map p (wk_dangling W))"
    using assms by (simp add: sum_list_const_mult walk_ok_def)
  ultimately show ?thesis
    using assms by (simp add: mass_def spread_def [abs_def] sum_list_addf walk_ok_def)
qed

lemma next_mass: "walk_ok W \<Longrightarrow> mass W p = 1 \<Longrightarrow> mass W (next_probability W p) = 1"
  using spread_mass [of W p]
  by (simp add: mass_def next_probability_def [abs_def] sum_list_addf sum_list_const_mult walk_ok_def)

lemma walk_okD:
  assumes "walk_ok W"
  shows "(u, x, w) \<in> set (wk_edges W) \<Longrightarrow> 0 \<le> w" "0 \<le> wk_restart W v" "0 \<le> wk_damping W" "0 \<le> 1 - wk_damping W"
  using assms by (fastforce simp: walk_ok_def)+

lemma spread_nonneg:
  assumes "walk_ok W" "\<And>u. 0 \<le> p u"
  shows "0 \<le> spread W p v"
proof -
  have "0 \<le> (case e of (u, x, w) \<Rightarrow> if x = v then p u * w else 0)" if "e \<in> set (wk_edges W)" for e
  proof -
    obtain u x w where e: "e = (u, x, w)" by (cases e)
    then have "0 \<le> w" using that walk_okD(1) [OF assms(1)] by blast
    then show ?thesis using assms(2) by (simp add: e)
  qed
  then have "0 \<le> sum_list (map (\<lambda>(u, x, w). if x = v then p u * w else 0) (wk_edges W))"
    by (intro sum_list_nonneg) auto
  moreover have "0 \<le> sum_list (map p (wk_dangling W))" using assms(2) by (intro sum_list_nonneg) auto
  ultimately show ?thesis using walk_okD(2) [OF assms(1)] by (simp add: spread_def)
qed

lemma next_nonneg: "walk_ok W \<Longrightarrow> (\<And>u. 0 \<le> p u) \<Longrightarrow> 0 \<le> next_probability W p v"
  unfolding next_probability_def using spread_nonneg [of W p v] walk_okD [of W]
  by (intro add_nonneg_nonneg mult_nonneg_nonneg) auto

text \<open>A step contracts the distance of two vectors by the damping factor.\<close>

lemma spread_diff: "spread W q v - spread W p v = spread W (\<lambda>u. q u - p u) v"
proof -
  have "sum_list (map (\<lambda>(u, x, w). if x = v then q u * w else 0) es) - sum_list (map (\<lambda>(u, x, w). if x = v then p u * w else 0) es)
      = sum_list (map (\<lambda>(u, x, w). if x = v then (q u - p u) * w else 0) es)" for es :: "(string \<times> string \<times> real) list"
    by (induction es) (auto simp: algebra_simps)
  moreover have "sum_list (map q ds) * c - sum_list (map p ds) * c = sum_list (map (\<lambda>u. q u - p u) ds) * c" for ds c
    by (induction ds) (auto simp: algebra_simps)
  ultimately show ?thesis unfolding spread_def by (metis (no_types, lifting) add_diff_add)
qed

lemma spread_abs: "walk_ok W \<Longrightarrow> \<bar>spread W p v\<bar> \<le> spread W (\<lambda>u. \<bar>p u\<bar>) v"
proof -
  assume ok: "walk_ok W"
  have "\<bar>sum_list (map (\<lambda>(u, x, w). if x = v then p u * w else 0) (wk_edges W))\<bar> \<le>
      sum_list (map (\<lambda>e. \<bar>case e of (u, x, w) \<Rightarrow> if x = v then p u * w else 0\<bar>) (wk_edges W))"
    by (rule sum_list_abs_le)
  also have "\<dots> = sum_list (map (\<lambda>(u, x, w). if x = v then \<bar>p u\<bar> * w else 0) (wk_edges W))"
    using ok by (intro arg_cong [where f = sum_list] map_cong refl) (auto simp: walk_ok_def abs_mult abs_of_pos)
  finally have "\<bar>sum_list (map (\<lambda>(u, x, w). if x = v then p u * w else 0) (wk_edges W))\<bar> \<le>
      sum_list (map (\<lambda>(u, x, w). if x = v then \<bar>p u\<bar> * w else 0) (wk_edges W))" .
  moreover have "\<bar>sum_list (map p (wk_dangling W)) * wk_restart W v\<bar> \<le> sum_list (map (\<lambda>u. \<bar>p u\<bar>) (wk_dangling W)) * wk_restart W v"
    using sum_list_abs_le [of p "wk_dangling W"] ok by (simp add: abs_mult walk_ok_def mult_right_mono)
  ultimately show ?thesis unfolding spread_def by linarith
qed

lemma next_contracts:
  assumes "walk_ok W"
  shows "distance W (next_probability W p) (next_probability W q) \<le> wk_damping W * distance W p q"
proof -
  have "next_probability W q v - next_probability W p v = wk_damping W * spread W (\<lambda>u. q u - p u) v" for v
    by (simp add: next_probability_def spread_diff [symmetric] algebra_simps)
  then have "distance W (next_probability W p) (next_probability W q) =
      wk_damping W * sum_list (map (\<lambda>v. \<bar>spread W (\<lambda>u. q u - p u) v\<bar>) (wk_nodes W))"
    using assms by (simp add: distance_def abs_mult walk_ok_def sum_list_const_mult)
  also have "\<dots> \<le> wk_damping W * mass W (spread W (\<lambda>u. \<bar>q u - p u\<bar>))"
    unfolding mass_def using assms spread_abs [OF assms]
    by (intro mult_left_mono sum_list_mono) (auto simp: walk_ok_def)
  also have "\<dots> = wk_damping W * distance W p q"
    using spread_mass [OF assms, of "\<lambda>u. \<bar>q u - p u\<bar>"] by (simp add: mass_def distance_def)
  finally show ?thesis .
qed


section \<open>The walk of a graph\<close>

definition positive :: "graph \<Rightarrow> bool" where
  "positive g \<longleftrightarrow> (\<forall>(u, ns) \<in> set g. \<forall>(v, w) \<in> set ns. 0 < w)"

lemma sanitized_positive: "positive (sanitized raw)"
  by (auto simp: positive_def sanitized_def clean_neighbors_def split: pyfloat.splits if_splits)

lemma sum_update:
  "distinct (map fst d) \<Longrightarrow> sum_list (map snd (AList.update v x d)) =
     sum_list (map snd d) - (case map_of d v of None \<Rightarrow> 0 | Some y \<Rightarrow> y) + x" for x :: real
proof (induction d)
  case (Cons e d)
  then show ?case by (cases e) (auto split: option.splits simp: map_of_eq_None_iff)
qed simp

lemma added_weights:
  assumes "0 < m" "\<forall>(v, w) \<in> set ns. 0 < w" "distinct (map fst d)" "\<forall>(v, w) \<in> set d. 0 < w"
  shows "distinct (map fst (foldl (add_weight m) d ns)) \<and> (\<forall>(v, w) \<in> set (foldl (add_weight m) d ns). 0 < w) \<and>
    fst ` set (foldl (add_weight m) d ns) \<subseteq> fst ` set d \<union> fst ` set ns \<and>
    sum_list (map snd (foldl (add_weight m) d ns)) = sum_list (map snd d) + sum_list (map snd ns) / m"
  using assms(2-4)
proof (induction ns arbitrary: d)
  case (Cons e ns)
  obtain v w where e: "e = (v, w)" by (cases e)
  let ?d = "add_weight m d e"
  have old: "0 \<le> (case map_of d v of None \<Rightarrow> 0 | Some x \<Rightarrow> x)"
    using Cons.prems(3) by (auto split: option.splits dest!: map_of_SomeD)
  have "0 < w" using Cons.prems(1) e by simp
  then have new: "0 < (case map_of d v of None \<Rightarrow> 0 | Some x \<Rightarrow> x) + w / m" using old assms(1) by (simp add: add_nonneg_pos)
  have upd: "set (AList.update v x d) \<subseteq> insert (v, x) (set d)" for x by (induction d) auto
  have "distinct (map fst ?d)" using Cons.prems(2) by (simp add: e add_weight_def distinct_update)
  moreover have "\<forall>(v, w) \<in> set ?d. 0 < w" using upd Cons.prems(3) new by (fastforce simp: e add_weight_def)
  moreover have "fst ` set ?d \<subseteq> insert v (fst ` set d)" using upd by (fastforce simp: e add_weight_def)
  moreover have "sum_list (map snd ?d) = sum_list (map snd d) + w / m"
    using sum_update [OF Cons.prems(2)] by (simp add: e add_weight_def)
  ultimately have d: "distinct (map fst ?d)" "\<forall>(v, w) \<in> set ?d. 0 < w" "fst ` set ?d \<subseteq> insert v (fst ` set d)"
    "sum_list (map snd ?d) = sum_list (map snd d) + w / m" by blast+
  have "\<forall>(v, w) \<in> set ns. 0 < w" using Cons.prems(1) by simp
  note tail = Cons.IH [OF this d(1,2)]
  have "fst ` set (foldl (add_weight m) d (e # ns)) \<subseteq> fst ` set d \<union> fst ` set (e # ns)"
    using tail d(3) by (simp add: e) blast
  then show ?case using tail d(4) by (simp add: e add_divide_distrib)
qed simp

lemma neighbours_in: "(v, w) \<in> set (neighbours g u) \<Longrightarrow> \<exists>ns. (u, ns) \<in> set g \<and> (v, w) \<in> set ns"
  unfolding neighbours_def by (cases "map_of g u") (auto dest: map_of_SomeD)

lemma neighbour_node: "(v, w) \<in> set (neighbours g u) \<Longrightarrow> v \<in> set (ordered_nodes g seeds)"
proof -
  assume "(v, w) \<in> set (neighbours g u)"
  then obtain ns where "(u, ns) \<in> set g" "(v, w) \<in> set ns" using neighbours_in by blast
  then show ?thesis by (force simp: ordered_nodes_def)
qed

lemma out_weights_ok:
  assumes "positive g" "0 < out_total g u"
  shows "sum_list (map snd (out_weights g u)) = 1" "(v, w) \<in> set (out_weights g u) \<Longrightarrow> 0 < w"
    and "(v, w) \<in> set (out_weights g u) \<Longrightarrow> \<exists>w'. (v, w') \<in> set (neighbours g u)"
proof -
  have "\<forall>(v, w) \<in> set (neighbours g u). 0 < w"
    using assms(1) neighbours_in [of _ _ g u] by (fastforce simp: positive_def)
  note a = added_weights [OF assms(2) this, of "[]"]
  show "sum_list (map snd (out_weights g u)) = 1"
    using a assms(2) by (simp add: out_weights_def out_total_def)
  show "(v, w) \<in> set (out_weights g u) \<Longrightarrow> 0 < w" using a by (auto simp: out_weights_def)
  show "(v, w) \<in> set (out_weights g u) \<Longrightarrow> \<exists>w'. (v, w') \<in> set (neighbours g u)"
    using a by (force simp: out_weights_def)
qed

lemma edges_in:
  assumes "positive g" "(u, x, w) \<in> set (edges g nodes)"
  shows "u \<in> set nodes \<and> 0 < w \<and> (\<exists>w'. (x, w') \<in> set (neighbours g u))"
proof -
  have "u \<in> set nodes" "0 < out_total g u" "(x, w) \<in> set (out_weights g u)"
    using assms(2) by (auto simp: edges_def split: if_splits)
  then show ?thesis using out_weights_ok [OF assms(1)] by blast
qed

lemma edges_mass:
  assumes "positive g"
  shows "sum_list (map (\<lambda>(u, x, w). p u * w) (edges g nodes)) + sum_list (map p (dangling g nodes)) = sum_list (map p nodes)"
proof (induction nodes)
  case (Cons u nodes)
  have one: "sum_list (map (\<lambda>(u, x, w). p u * w) (map (\<lambda>(v, w). (u, v, w)) d)) = p u * sum_list (map snd d)" for d
    by (induction d) (auto simp: algebra_simps)
  show ?case
  proof (cases "out_total g u \<le> 0")
    case True
    then show ?thesis using Cons.IH by (simp add: edges_def dangling_def)
  next
    case False
    then have "edges g (u # nodes) = map (\<lambda>(v, w). (u, v, w)) (out_weights g u) @ edges g nodes"
      "dangling g (u # nodes) = dangling g nodes" by (simp_all add: edges_def dangling_def)
    then show ?thesis
      using Cons.IH out_weights_ok(1) [OF assms, of u] False one [of "out_weights g u"] unfolding map_append sum_list_append
      by simp
  qed
qed (simp add: edges_def dangling_def)

lemma restart_mass:
  assumes "distinct nodes" "set seeds \<subseteq> set nodes" "seeds \<noteq> []" "distinct seeds"
  shows "sum_list (map (restart seeds) nodes) = 1"
proof -
  have "sum_list (map (restart seeds) nodes) = (\<Sum>v \<in> set nodes. if v \<in> set seeds then 1 / real (length seeds) else 0)"
    using assms(1) by (simp add: sum_list_distinct_conv_sum_set restart_def [abs_def])
  also have "\<dots> = (\<Sum>v \<in> set seeds. 1 / real (length seeds))"
    using assms(2) by (simp add: sum.inter_filter [symmetric] Int_absorb1 flip: Int_def)
  also have "\<dots> = 1" using assms(3,4) by (simp add: distinct_card)
  finally show ?thesis .
qed

lemma graph_walk_ok:
  assumes "positive g" "seeds \<noteq> []" "0 \<le> d" "d \<le> 1"
  shows "walk_ok (graph_walk g seeds d)"
proof -
  let ?nodes = "ordered_nodes g seeds"
  have n: "distinct ?nodes" "set (remdups seeds) \<subseteq> set ?nodes" by (auto simp: ordered_nodes_def)
  have "\<forall>(u, x, w) \<in> set (edges g ?nodes). u \<in> set ?nodes \<and> x \<in> set ?nodes \<and> 0 < w"
    using edges_in [OF assms(1)] neighbour_node by blast
  then show ?thesis
    using n assms edges_mass [OF assms(1)] restart_mass [OF n]
    by (simp add: walk_ok_def graph_walk_def Let_def restart_def)
qed


section \<open>The iteration\<close>

definition stepped :: "walk \<Rightarrow> nat \<Rightarrow> (string \<Rightarrow> real) \<Rightarrow> string \<Rightarrow> real" where
  "stepped W k p = (next_probability W ^^ k) p"

lemma stepped_simps [simp]:
  "stepped W 0 p = p" "stepped W (Suc k) p = next_probability W (stepped W k p)"
  by (simp_all add: stepped_def)

lemma stepped_add: "stepped W (j + k) p = stepped W j (stepped W k p)"
  by (simp add: stepped_def funpow_add)

lemma iterate_steps:
  "\<exists>m \<le> n. iterate W tol n p = stepped W m p \<and>
     (m = n \<or> (0 < m \<and> distance W (stepped W (m - 1) p) (stepped W m p) < tol))"
proof (induction n arbitrary: p)
  case (Suc n)
  let ?q = "next_probability W p"
  show ?case
  proof (cases "distance W p ?q < tol")
    case True
    then show ?thesis by (intro exI [of _ 1]) simp
  next
    case False
    obtain m where m: "m \<le> n" "iterate W tol n ?q = stepped W m ?q"
      "m = n \<or> (0 < m \<and> distance W (stepped W (m - 1) ?q) (stepped W m ?q) < tol)"
      using Suc.IH by blast
    have shift: "stepped W j ?q = stepped W (Suc j) p" for j
      using stepped_add [of W j 1 p] by simp
    have "stepped W (Suc m - 1) p = stepped W (m - 1) ?q" if "0 < m"
      using that shift [of "m - 1"] by simp
    then show ?thesis using False m shift [of m]
      by (intro exI [of _ "Suc m"]) auto
  qed
qed simp

lemma stepped_distribution:
  assumes "walk_ok W"
  shows "mass W (stepped W k (wk_restart W)) = 1 \<and> (\<forall>v. 0 \<le> stepped W k (wk_restart W) v)"
proof (induction k)
  case 0
  then show ?case using assms by (simp add: mass_def walk_ok_def)
next
  case (Suc k)
  then show ?case using next_mass [OF assms] next_nonneg [OF assms] by simp
qed

lemma distance_triangle: "distance W p r \<le> distance W p q + distance W q r"
proof -
  have "distance W p r \<le> sum_list (map (\<lambda>v. \<bar>q v - p v\<bar> + \<bar>r v - q v\<bar>) (wk_nodes W))"
    unfolding distance_def by (intro sum_list_mono) auto
  then show ?thesis by (simp add: distance_def sum_list_addf)
qed

lemma distance_distributions:
  assumes "mass W p = 1" "mass W q = 1" "\<And>v. 0 \<le> p v" "\<And>v. 0 \<le> q v"
  shows "distance W p q \<le> 2"
proof -
  have "distance W p q \<le> sum_list (map (\<lambda>v. p v + q v) (wk_nodes W))"
    unfolding distance_def using assms(3,4) by (intro sum_list_mono) (auto simp: abs_le_iff add_increasing add_increasing2)
  also have "\<dots> = 2" using assms(1,2) by (simp add: mass_def sum_list_addf)
  finally show ?thesis .
qed

lemma stepped_contracts:
  assumes "walk_ok W"
  shows "distance W (stepped W k p) (stepped W k q) \<le> wk_damping W ^ k * distance W p q"
proof (induction k)
  case (Suc k)
  have "distance W (stepped W (Suc k) p) (stepped W (Suc k) q) \<le> wk_damping W * distance W (stepped W k p) (stepped W k q)"
    using next_contracts [OF assms] by simp
  also have "\<dots> \<le> wk_damping W * (wk_damping W ^ k * distance W p q)"
    using Suc walk_okD(3) [OF assms] by (rule mult_left_mono)
  finally show ?case by (simp add: mult.assoc)
qed simp

lemma tail_distance:
  assumes "walk_ok W" "wk_damping W < 1"
  shows "(1 - wk_damping W) * distance W q (stepped W j q) \<le> distance W q (next_probability W q)"
proof -
  let ?d = "wk_damping W" and ?D = "distance W q (next_probability W q)"
  have D: "0 \<le> ?D" unfolding distance_def by (intro sum_list_nonneg) auto
  have "distance W q (stepped W j q) \<le> (\<Sum>i < j. ?d ^ i) * ?D"
  proof (induction j)
    case (Suc j)
    have "distance W (stepped W j q) (stepped W (Suc j) q) \<le> ?d ^ j * ?D"
      using stepped_contracts [OF assms(1), of j q "next_probability W q"] stepped_add [of W j 1 q] by simp
    then show ?case
      using Suc distance_triangle [of W q "stepped W (Suc j) q" "stepped W j q"] by (simp add: algebra_simps)
  qed (simp add: distance_def)
  moreover have "(1 - ?d) * (\<Sum>i < j. ?d ^ i) \<le> 1"
    using walk_okD(3) [OF assms(1)] by (simp add: one_diff_power_eq [symmetric])
  ultimately have le: "distance W q (stepped W j q) \<le> (\<Sum>i < j. ?d ^ i) * ?D" "(1 - ?d) * (\<Sum>i < j. ?d ^ i) \<le> 1"
    by blast+
  have "(1 - ?d) * distance W q (stepped W j q) \<le> (1 - ?d) * ((\<Sum>i < j. ?d ^ i) * ?D)"
    using le(1) assms(2) by (intro mult_left_mono) auto
  also have "\<dots> \<le> 1 * ?D"
    using mult_right_mono [OF le(2) D] by (simp add: mult.assoc)
  finally show ?thesis by simp
qed

lemma iterate_settles:
  assumes "walk_ok W" "wk_damping W < 1" "n \<le> k"
  shows "distance W (iterate W tol n (wk_restart W)) (stepped W k (wk_restart W))
    \<le> max (2 * wk_damping W ^ n) (wk_damping W / (1 - wk_damping W) * tol)"
proof -
  let ?d = "wk_damping W" and ?r = "wk_restart W"
  let ?P = "\<lambda>i. stepped W i ?r"
  note ok = assms(1)
  obtain m where m: "m \<le> n" "iterate W tol n ?r = ?P m"
    and stop: "m = n \<or> (0 < m \<and> distance W (?P (m - 1)) (?P m) < tol)"
    using iterate_steps by blast
  show ?thesis
  proof (cases "m = n")
    case True
    have "distance W (?P n) (?P k) \<le> ?d ^ n * distance W ?r (?P (k - n))"
      using stepped_contracts [OF ok, of n ?r "?P (k - n)"] stepped_add [of W n "k - n" ?r] assms(3) by simp
    also have "\<dots> \<le> ?d ^ n * 2"
      using stepped_distribution [OF ok] stepped_distribution [OF ok, of 0] walk_okD(3) [OF ok]
      by (intro mult_left_mono distance_distributions) auto
    finally show ?thesis using m(2) True by (simp add: mult.commute)
  next
    case False
    then have z: "0 < m" "distance W (?P (m - 1)) (?P m) < tol" using stop by blast+
    have "?P m = next_probability W (?P (m - 1))" using z(1) by (cases m) simp_all
    then have "distance W (?P m) (next_probability W (?P m)) \<le> ?d * distance W (?P (m - 1)) (?P m)"
      using next_contracts [OF ok, of "?P (m - 1)" "?P m"] by simp
    also have "\<dots> \<le> ?d * tol" using z(2) walk_okD(3) [OF ok] by (simp add: mult_left_mono)
    finally have "distance W (?P m) (next_probability W (?P m)) \<le> ?d * tol" .
    then have "(1 - ?d) * distance W (?P m) (?P k) \<le> ?d * tol"
      using tail_distance [OF ok assms(2), of "?P m" "k - m"] stepped_add [of W "k - m" m ?r] m(1) assms(3) by simp
    then have "distance W (?P m) (?P k) \<le> ?d / (1 - ?d) * tol"
      using assms(2) by (simp add: field_simps)
    then show ?thesis using m(2) by simp
  qed
qed


section \<open>Reachability\<close>

inductive reached :: "graph \<Rightarrow> string list \<Rightarrow> string \<Rightarrow> bool" for g :: graph and seeds :: "string list" where
  at_seed: "s \<in> set seeds \<Longrightarrow> reached g seeds s"
| along_edge: "reached g seeds u \<Longrightarrow> (v, w) \<in> set (neighbours g u) \<Longrightarrow> reached g seeds v"

definition confined :: "graph \<Rightarrow> string list \<Rightarrow> (string \<Rightarrow> real) \<Rightarrow> bool" where
  "confined g seeds p \<longleftrightarrow> (\<forall>v. p v \<noteq> 0 \<longrightarrow> reached g seeds v)"

lemma restart_confined: "confined g seeds (restart (remdups seeds))"
  by (auto simp: confined_def restart_def intro: at_seed split: if_splits)

lemma next_confined:
  assumes "positive g" "confined g seeds p"
  shows "confined g seeds (next_probability (graph_walk g seeds d) p)"
proof -
  have "next_probability (graph_walk g seeds d) p v = 0" if out: "\<not> reached g seeds v" for v
  proof -
    have "wk_restart (graph_walk g seeds d) v = 0"
      using out restart_confined [of g seeds] by (auto simp: graph_walk_def Let_def confined_def)
    moreover have "(case e of (u, x, w) \<Rightarrow> if x = v then p u * w else 0) = 0" if e: "e \<in> set (edges g nodes)" for e nodes
    proof -
      obtain u x w where euxw: "e = (u, x, w)" by (cases e)
      then obtain w' where "(x, w') \<in> set (neighbours g u)" using edges_in [OF assms(1)] e by blast
      then have "\<not> reached g seeds u \<or> x \<noteq> v" using out along_edge by blast
      then show ?thesis using assms(2) by (auto simp: euxw confined_def)
    qed
    then have "sum_list (map (\<lambda>(u, x, w). if x = v then p u * w else 0) (edges g nodes)) = 0" for nodes
      by (intro sum_list_zeros) auto
    ultimately show ?thesis by (simp add: next_probability_def spread_def graph_walk_def Let_def)
  qed
  then show ?thesis by (auto simp: confined_def)
qed

lemma stepped_confined:
  "positive g \<Longrightarrow> confined g seeds (stepped (graph_walk g seeds d) k (restart (remdups seeds)))"
  by (induction k) (simp_all add: restart_confined next_confined)

section \<open>The ranks\<close>

definition rank_of :: "(string \<times> real) list \<Rightarrow> string \<Rightarrow> real" where
  "rank_of ranks v = (case map_of ranks v of None \<Rightarrow> 0 | Some r \<Rightarrow> r)"

lemma personalized_pagerankD:
  assumes "personalized_pagerank raw seeds damping iterations tol \<noteq> []"
  obtains d t p where "damping = Fin d" "tol = Fin t" "0 \<le> d" "d \<le> 1" "seeds \<noteq> []"
    "p = iterate (graph_walk (sanitized raw) seeds d) t (iteration_limit iterations) (restart (remdups seeds))"
    "personalized_pagerank raw seeds damping iterations tol =
       map (\<lambda>v. (v, p v)) (filter (\<lambda>v. 0 < p v) (ordered_nodes (sanitized raw) seeds))"
proof -
  obtain d where d: "damping = Fin d" using assms by (cases damping) (auto simp: personalized_pagerank_def split: if_splits)
  obtain t where t: "tol = Fin t" using assms d by (cases tol) (auto simp: personalized_pagerank_def split: if_splits)
  let ?g = "sanitized raw"
  let ?p = "iterate (graph_walk ?g seeds d) t (iteration_limit iterations) (restart (remdups seeds))"
  have "seeds \<noteq> []" "0 \<le> d" "d \<le> 1" using assms by (auto simp: personalized_pagerank_def d t split: if_splits)
  moreover have "personalized_pagerank raw seeds damping iterations tol =
      map (\<lambda>v. (v, ?p v)) (filter (\<lambda>v. 0 < ?p v) (wk_nodes (graph_walk ?g seeds d)))"
  proof -
    have "wk_restart (graph_walk ?g seeds d) = restart (remdups seeds)" by (simp add: graph_walk_def Let_def)
    then show ?thesis
      using assms unfolding d t personalized_pagerank_def Let_def pyfloat.case
      by (simp split: if_splits)
  qed
  moreover have "wk_nodes (graph_walk ?g seeds d) = ordered_nodes ?g seeds" by (simp add: graph_walk_def Let_def)
  ultimately show ?thesis using that [OF d t, of ?p] by simp
qed

lemma rank_of_map:
  assumes "distinct nodes" "\<And>v. 0 \<le> p v" "\<And>v. p v \<noteq> 0 \<Longrightarrow> v \<in> set nodes"
  shows "rank_of (map (\<lambda>v. (v, p v)) (filter (\<lambda>v. 0 < p v) nodes)) v = p v"
proof (cases "0 < p v")
  case True
  then have "v \<in> set nodes" using assms(3) by simp
  then show ?thesis using True by (simp add: rank_of_def map_of_map_restrict restrict_map_def)
next
  case False
  then have "p v = 0" using assms(2) [of v] by simp
  then show ?thesis by (simp add: rank_of_def map_of_map_restrict restrict_map_def)
qed

lemma sum_positive_part:
  "(\<And>v. 0 \<le> p v) \<Longrightarrow> sum_list (map p (filter (\<lambda>v. 0 < p v) nodes)) = sum_list (map p nodes)" for p :: "'a \<Rightarrow> real"
  by (induction nodes) (auto simp: order.order_iff_strict)

lemma reached_node: "reached g seeds v \<Longrightarrow> v \<in> set (ordered_nodes g seeds)"
  by (induction rule: reached.induct) (simp add: ordered_nodes_def, rule neighbour_node)

lemma iterate_distribution:
  fixes raw seeds d t n
  assumes "seeds \<noteq> []" "0 \<le> d" "d \<le> 1"
  defines "W \<equiv> graph_walk (sanitized raw) seeds d"
  defines "p \<equiv> iterate W t n (restart (remdups seeds))"
  shows "mass W p = 1" "0 \<le> p v" "p v \<noteq> 0 \<Longrightarrow> reached (sanitized raw) seeds v"
proof -
  have ok: "walk_ok W" unfolding W_def using sanitized_positive assms(1-3) by (rule graph_walk_ok)
  have r: "wk_restart W = restart (remdups seeds)" by (simp add: W_def graph_walk_def Let_def)
  obtain m where m: "p = stepped W m (restart (remdups seeds))" unfolding p_def using iterate_steps by blast
  show "mass W p = 1" "0 \<le> p v" using stepped_distribution [OF ok, of m] by (simp_all add: m r)
  show "p v \<noteq> 0 \<Longrightarrow> reached (sanitized raw) seeds v"
    using stepped_confined [OF sanitized_positive, of raw seeds d m] by (simp add: m W_def confined_def)
qed

definition chain :: raw_graph where "chain = [(''a'', [(''b'', Fin 1), (''c'', NaN)]), (''b'', [])]"

lemma chain_sanitized: "sanitized chain = [(''a'', [(''b'', 1)]), (''b'', [])]"
  by (simp add: chain_def sanitized_def clean_neighbors_def)

lemma chain_nodes: "ordered_nodes [(''a'', [(''b'', 1)]), (''b'', [])] [''a''] = [''a'', ''b'']"
proof -
  have "sort [''a'', ''b''] = [''a'', ''b'']" by code_simp
  then show ?thesis by (simp add: ordered_nodes_def)
qed

lemma chain_ranks:
  "personalized_pagerank chain [''a''] (Fin (1 / 2)) 1 (Fin 0) = [(''a'', 1 / 2), (''b'', 1 / 2)]"
  unfolding personalized_pagerank_def chain_sanitized
  by (simp add: chain_nodes Let_def graph_walk_def edges_def dangling_def out_total_def neighbours_def
      out_weights_def add_weight_def edge_count_def restart_def MAX_EDGES_def MAX_NODES_def MAX_ITERATIONS_def iteration_limit_def
      next_probability_def spread_def distance_def)
     (simp add: chain_def)

text \<open>
  C36: a result that is not empty ranks each node once, in order, with a positive rank; the
ranks add up to one; and every ranked node can be reached from a seed along edges with positive,
finite weight.
\<close>

theorem ranks_reachable_distribution:
  assumes "personalized_pagerank raw seeds damping iterations tol = ranks" "ranks \<noteq> []"
  shows "sum_list (map snd ranks) = 1 \<and> sorted (map fst ranks) \<and> distinct (map fst ranks) \<and>
    (\<forall>(v, r) \<in> set ranks. 0 < r \<and> reached (sanitized raw) seeds v)"
proof -
  obtain d t p where *: "0 \<le> d" "d \<le> 1" "seeds \<noteq> []"
    "p = iterate (graph_walk (sanitized raw) seeds d) t (iteration_limit iterations) (restart (remdups seeds))"
    "ranks = map (\<lambda>v. (v, p v)) (filter (\<lambda>v. 0 < p v) (ordered_nodes (sanitized raw) seeds))"
    using personalized_pagerankD [of raw seeds damping iterations tol] assms by metis
  note dist = iterate_distribution [OF *(3,1,2), of raw t "iteration_limit iterations", folded *(4)]
  have names: "map fst ranks = filter (\<lambda>v. 0 < p v) (ordered_nodes (sanitized raw) seeds)"
    and vals: "map snd ranks = map p (filter (\<lambda>v. 0 < p v) (ordered_nodes (sanitized raw) seeds))"
    by (simp_all add: *(5) comp_def)
  have "sum_list (map snd ranks) = 1"
    using dist(1) sum_positive_part [of p, OF dist(2)] unfolding vals by (simp add: mass_def graph_walk_def Let_def)
  moreover have "sorted (map fst ranks)" "distinct (map fst ranks)"
    unfolding names by (simp_all add: ordered_nodes_def sorted_wrt_filter)
  moreover have "0 < r \<and> reached (sanitized raw) seeds v" if "(v, r) \<in> set ranks" for v r
    using that dist(3) [of v] by (auto simp: *(5))
  ultimately show ?thesis by blast
qed

theorem ranks_reachable_distribution_witness:
  "sum_list (map snd [(''a'', 1 / 2), (''b'', 1 / 2 :: real)]) = 1 \<and> reached (sanitized chain) [''a''] ''b''"
  using ranks_reachable_distribution [OF chain_ranks] by simp

text \<open>
  C37: when the damping is below one, no later iterate differs from the returned ranks by more
than the larger of twice the damping to the power of the iteration limit and the tolerance times
the damping over one minus the damping: stopping early loses no more than the tolerance promises.
\<close>

theorem ranks_settle:
  assumes "personalized_pagerank raw seeds (Fin d) iterations (Fin t) = ranks" "ranks \<noteq> []" "d < 1"
    and "iteration_limit iterations \<le> k"
  shows "(\<Sum>v \<leftarrow> ordered_nodes (sanitized raw) seeds.
      \<bar>stepped (graph_walk (sanitized raw) seeds d) k (restart (remdups seeds)) v - rank_of ranks v\<bar>)
    \<le> max (2 * d ^ iteration_limit iterations) (d / (1 - d) * t)"
proof -
  let ?W = "graph_walk (sanitized raw) seeds d" and ?nodes = "ordered_nodes (sanitized raw) seeds"
  obtain d' t' p where "Fin d = Fin d'" "Fin t = Fin t'" "0 \<le> d'" "d' \<le> 1" "seeds \<noteq> []"
    "p = iterate (graph_walk (sanitized raw) seeds d') t' (iteration_limit iterations) (restart (remdups seeds))"
    "personalized_pagerank raw seeds (Fin d) iterations (Fin t) = map (\<lambda>v. (v, p v)) (filter (\<lambda>v. 0 < p v) ?nodes)"
    using assms(1,2) by (auto elim!: personalized_pagerankD)
  then have *: "0 \<le> d" "seeds \<noteq> []" "p = iterate ?W t (iteration_limit iterations) (restart (remdups seeds))"
    "ranks = map (\<lambda>v. (v, p v)) (filter (\<lambda>v. 0 < p v) ?nodes)" using assms(1) by simp_all
  have "d \<le> 1" using assms(3) by simp
  note dist = iterate_distribution [OF *(2,1) \<open>d \<le> 1\<close>, of raw t "iteration_limit iterations", folded *(3)]
  have "rank_of ranks = p"
    unfolding *(4) by (intro ext rank_of_map dist(2)) (simp add: ordered_nodes_def, blast dest: dist(3) reached_node)
  moreover have "walk_ok ?W" using sanitized_positive *(2,1) \<open>d \<le> 1\<close> by (rule graph_walk_ok)
  ultimately show ?thesis
    using iterate_settles [of ?W "iteration_limit iterations" k t] assms(3,4) *(3)
    by (simp add: distance_def graph_walk_def Let_def)
qed

theorem ranks_settle_witness:
  "\<bar>stepped (graph_walk (sanitized chain) [''a''] (1 / 2)) 2 (restart [''a'']) ''a'' - 1 / 2\<bar> +
   \<bar>stepped (graph_walk (sanitized chain) [''a''] (1 / 2)) 2 (restart [''a'']) ''b'' - 1 / 2\<bar> \<le> 1"
  using ranks_settle [OF chain_ranks, of 2] chain_nodes
  by (simp add: chain_sanitized iteration_limit_def MAX_ITERATIONS_def rank_of_def)

end
