(* ===== verification/Excerpts.thy ===== *)
theory Excerpts
  imports Regex "HOL-Library.Sublist"
begin

text \<open>
  How the context packer (\<^verbatim>\<open>engraphis/core/context.py\<close>) cuts a source down to a token limit: terms,
  sentences, the sentences of an excerpt and the use of a summary in place of its source. The
  token counter is any function from texts to integers; the character of the marker in brackets
  lies above the modelled code points and is an argument.

  Lemmas: an excerpt is the stripped source or a choice of its whole sentences in source order,
  and it holds a sentence without a qualifier only together with every qualifying sentence.
\<close>

section \<open>Terms\<close>

definition terms :: "string \<Rightarrow> string set" where
  "terms text = casefold ` set (py_split (map (\<lambda>c. if word_char c then c else CHR '' '') text))"

definition QUALIFIER_TERMS :: "string set" where
  "QUALIFIER_TERMS = {''cannot'', ''except'', ''if'', ''must'', ''never'', ''no'', ''not'', ''only'',
     ''unless'', ''until'', ''when'', ''without''}"

definition BRIDGE_TERMS :: "string set" where
  "BRIDGE_TERMS = {''call'', ''calls'', ''called'', ''caller'', ''dependency'', ''depends'', ''flow'',
     ''graph'', ''impact'', ''path'', ''related'', ''relationship'', ''why''}"

definition qualifies :: "string \<Rightarrow> bool" where
  "qualifies s \<longleftrightarrow> terms s \<inter> QUALIFIER_TERMS \<noteq> {}"

definition protected_sentence :: "string \<Rightarrow> bool" where
  "protected_sentence s \<longleftrightarrow> qualifies s \<or> list_ex (\<lambda>c. c \<in> set ''0123456789'') s"

section \<open>Sentences\<close>

text \<open>
  The splitting pattern \<^verbatim>\<open>(?<=[.!?])(?:["')\]]*)\s+|\n+\<close>: after the end of a sentence, closing
  marks and then whitespace; or line ends. \<open>separator\<close> gives the text behind a match here.
\<close>

definition closing :: "char \<Rightarrow> bool" where
  "closing c \<longleftrightarrow> c = CHR 0x22 \<or> c = CHR 0x27 \<or> c = CHR '')'' \<or> c = CHR '']''"

definition sentence_end :: "char option \<Rightarrow> bool" where
  "sentence_end prev \<longleftrightarrow> prev = Some (CHR ''.'') \<or> prev = Some (CHR ''!'') \<or> prev = Some (CHR ''?'')"

definition separator :: "char option \<Rightarrow> string \<Rightarrow> string option" where
  "separator prev s =
     (let after = dropWhile closing s
      in if sentence_end prev \<and> after \<noteq> [] \<and> py_space (hd after) then Some (dropWhile py_space after)
         else if s \<noteq> [] \<and> hd s = CHR 0x0A then Some (dropWhile (\<lambda>c. c = CHR 0x0A) s)
         else None)"

lemma separator_shorter:
  assumes "separator prev (c # cs) = Some rest"
  shows "length rest \<le> length cs"
proof -
  have drop: "length (dropWhile P (d # ds)) \<le> length ds" if "P d" for P and d :: char and ds
    using that by (simp add: length_dropWhile_le)
  show ?thesis
  proof (cases "sentence_end prev \<and> dropWhile closing (c # cs) \<noteq> [] \<and> py_space (hd (dropWhile closing (c # cs)))")
    case True
    then obtain d ds where d: "dropWhile closing (c # cs) = d # ds" "py_space d" by (metis list.collapse)
    then have "length ds \<le> length cs" using length_dropWhile_le [of closing "c # cs"] by simp
    then show ?thesis
      using assms True d length_dropWhile_le [of py_space ds] by (simp add: separator_def Let_def)
  next
    case False
    then show ?thesis
      using assms drop [of "\<lambda>c. c = CHR 0x0A" c cs] by (auto simp: separator_def Let_def split: if_splits)
  qed
qed

function split_sentences :: "char option \<Rightarrow> string \<Rightarrow> string \<Rightarrow> string list" where
  "split_sentences prev acc [] = [rev acc]"
| "split_sentences prev acc (c # cs) =
     (case separator prev (c # cs) of
        Some rest \<Rightarrow> rev acc # split_sentences None [] rest
      | None \<Rightarrow> split_sentences (Some c) (c # acc) cs)"
  by pat_completeness auto
termination
  by (relation "measure (\<lambda>(_, _, s). length s)") (auto dest: separator_shorter)

definition sentences :: "string \<Rightarrow> string list" where
  "sentences text = filter (\<lambda>part. part \<noteq> []) (map strip (split_sentences None [] text))"

section \<open>Excerpts\<close>

text \<open>The marker of a text that leaves something out: the argument in square brackets.\<close>

definition marker :: "string \<Rightarrow> string" where
  "marker dots = ''['' @ dots @ '']''"

definition fit_text :: "(string \<Rightarrow> int) \<Rightarrow> string \<Rightarrow> int \<Rightarrow> string \<Rightarrow> int option \<Rightarrow> string" where
  "fit_text count text max_tokens before total_budget =
     (if max_tokens \<le> 0 then []
      else
        let text = strip text
        in if count text > max_tokens then []
           else if (case total_budget of None \<Rightarrow> False | Some b \<Rightarrow> count (before @ text) > b) then []
           else text)"

definition join_chosen :: "(nat \<times> string) list \<Rightarrow> string" where
  "join_chosen chosen = join_with '' '' (map snd (sort chosen))"

definition admit_item :: "(string \<Rightarrow> int) \<Rightarrow> string \<Rightarrow> nat \<Rightarrow> int \<Rightarrow> (nat \<times> string) list \<Rightarrow> nat \<times> string \<Rightarrow> (nat \<times> string) list" where
  "admit_item count dots available max_tokens chosen item =
     (let proposed = join_chosen (chosen @ [item]);
          mark = (if length chosen + 1 < available then '' '' @ marker dots else [])
      in if count (proposed @ mark) \<le> max_tokens then chosen @ [item] else chosen)"

definition rank_sentences :: "string set \<Rightarrow> string list \<Rightarrow> (nat \<times> string) list" where
  "rank_sentences query_terms ss =
     sort_key (\<lambda>(i, s). (- int (card (terms s \<inter> query_terms)), - int (card (terms s \<inter> QUALIFIER_TERMS)), i))
       (enumerate 0 ss)"

definition choose_sentences :: "(string \<Rightarrow> int) \<Rightarrow> string \<Rightarrow> nat \<Rightarrow> int \<Rightarrow> (nat \<times> string) list \<Rightarrow> (nat \<times> string) list" where
  "choose_sentences count dots available max_tokens ranked =
     (let admit = foldl (admit_item count dots available max_tokens);
          qualifying = filter (\<lambda>item. qualifies (snd item)) ranked;
          chosen = admit [] qualifying
      in if length chosen = length qualifying then admit chosen (filter (\<lambda>item. item \<notin> set qualifying) ranked)
         else chosen)"

definition sentence_excerpt :: "(string \<Rightarrow> int) \<Rightarrow> string \<Rightarrow> string \<Rightarrow> string set \<Rightarrow> int \<Rightarrow> string" where
  "sentence_excerpt count dots text query_terms max_tokens =
     (let ss = sentences text
      in if ss = [] then []
         else
           let ranked = rank_sentences query_terms ss;
               chosen = choose_sentences count dots (length ss) max_tokens ranked
           in if chosen = [] then
                (case filter (\<lambda>item. qualifies (snd item)) ranked of
                   q # _ \<Rightarrow> fit_text count (snd q) max_tokens [] None
                 | [] \<Rightarrow> fit_text count (snd (hd ranked)) max_tokens [] None)
              else
                let excerpt = join_chosen chosen;
                    marked = excerpt @ '' '' @ marker dots
                in if length chosen < length ss \<and> count marked \<le> max_tokens then marked else excerpt)"

definition summary_is_useful :: "string \<Rightarrow> string \<Rightarrow> string \<Rightarrow> string set \<Rightarrow> bool" where
  "summary_is_useful dots summary full query_terms \<longleftrightarrow>
     full = [] \<or>
     (let source = set (sentences full);
          summarised = set (sentences summary) - {marker dots};
          overlap = terms full \<inter> query_terms
      in summarised \<noteq> {} \<and> summarised \<subseteq> source \<and>
         {s \<in> source. protected_sentence s} \<subseteq> summarised \<and>
         (overlap = {} \<or> terms summary \<inter> overlap \<noteq> {}))"

text \<open>
  \<open>_excerpt\<close> on the content and summary of a record; the flag says that the text was truncated,
  the last component is the reason. \<open>bridge\<close> says that the candidate came from the graph or code
  arm.
\<close>

definition excerpt :: "(string \<Rightarrow> int) \<Rightarrow> string \<Rightarrow> string set \<Rightarrow> string \<Rightarrow> string \<Rightarrow> bool \<Rightarrow> int \<Rightarrow> string \<times> bool \<times> string" where
  "excerpt count dots query_terms content summary bridge max_tokens =
     (if max_tokens \<le> 0 then ([], False, [])
      else
        let full = strip content; summary = strip summary;
            useful = summary \<noteq> [] \<and> summary_is_useful dots summary full query_terms;
            cut = sentence_excerpt count dots summary query_terms max_tokens
        in if useful \<and> count summary \<le> max_tokens then (summary, summary \<noteq> full, ''summary'')
           else if useful \<and> cut \<noteq> [] \<and> summary_is_useful dots cut full query_terms then (cut, True, ''summary_excerpt'')
           else if full \<noteq> [] \<and> count full \<le> max_tokens then
             (full, False, if bridge then ''bridge_evidence'' else ''full'')
           else
             let source = (if full \<noteq> [] then full else summary);
                 cut = sentence_excerpt count dots source query_terms max_tokens
             in if cut \<noteq> [] then (cut, True, if bridge then ''bridge_excerpt'' else ''relevant_sentence_excerpt'')
                else
                  let fitted = fit_text count source max_tokens [] None
                  in (fitted, fitted \<noteq> [], ''token_boundary_excerpt''))"


section \<open>Stripped texts\<close>

definition trimmed :: "string \<Rightarrow> bool" where
  "trimmed s \<longleftrightarrow> s = [] \<or> (\<not> py_space (hd s) \<and> \<not> py_space (last s))"

lemma strip_trimmed: "trimmed s \<Longrightarrow> strip s = s"
proof -
  assume t: "trimmed s"
  have "lstrip s = s" using t by (cases s) (auto simp: trimmed_def lstrip_def)
  moreover have "dropWhile py_space (rev s) = rev s" using t by (cases s rule: rev_cases) (auto simp: trimmed_def)
  ultimately show ?thesis by (simp add: strip_def)
qed

lemma trimmed_strip: "trimmed (strip s)"
proof -
  let ?l = "lstrip s"
  have l: "?l = [] \<or> \<not> py_space (hd ?l)" unfolding lstrip_def by (metis hd_dropWhile)
  have r: "strip s = [] \<or> \<not> py_space (last (strip s))"
    unfolding strip_def by (metis hd_dropWhile hd_rev rev_is_Nil_conv rev_rev_ident)
  have "prefix (strip s) ?l"
    unfolding strip_def by (metis suffix_dropWhile suffix_to_prefix rev_rev_ident)
  then have "strip s = [] \<or> hd (strip s) = hd ?l \<and> ?l \<noteq> []"
    by (cases "strip s"; cases ?l) (auto simp: prefix_def)
  then show ?thesis using l r by (auto simp: trimmed_def)
qed

lemma strip_strip [simp]: "strip (strip s) = strip s"
  by (rule strip_trimmed [OF trimmed_strip])

lemma sentence_trimmed: "s \<in> set (sentences text) \<Longrightarrow> s \<noteq> [] \<and> trimmed s"
  by (auto simp: sentences_def trimmed_strip)

lemma trimmed_append: "trimmed a \<Longrightarrow> trimmed b \<Longrightarrow> a \<noteq> [] \<Longrightarrow> b \<noteq> [] \<Longrightarrow> trimmed (a @ c @ b)"
  by (simp add: trimmed_def)

lemma trimmed_join:
  "ws \<noteq> [] \<Longrightarrow> \<forall>w \<in> set ws. w \<noteq> [] \<and> trimmed w \<Longrightarrow> trimmed (join_with '' '' ws) \<and> join_with '' '' ws \<noteq> []"
proof (induction ws rule: induct_list012)
  case (3 w v ws)
  then have "trimmed (join_with '' '' (v # ws)) \<and> join_with '' '' (v # ws) \<noteq> []" by simp
  then show ?case using 3 trimmed_append [of w _ "'' ''"] by simp
qed auto

lemma marker_trimmed: "trimmed (marker dots)" "marker dots \<noteq> []"
proof -
  have "\<not> py_space (CHR ''['')" "\<not> py_space (CHR '']'')" by code_simp+
  then show "trimmed (marker dots)" "marker dots \<noteq> []" by (simp_all add: trimmed_def marker_def)
qed

section \<open>The choice of sentences\<close>

definition some_sentences :: "string list \<Rightarrow> (nat \<times> string) list \<Rightarrow> bool" where
  "some_sentences ss chosen \<longleftrightarrow> distinct chosen \<and> set chosen \<subseteq> set (enumerate 0 ss)"

lemma admitted:
  assumes "some_sentences ss chosen" "distinct items" "set items \<subseteq> set (enumerate 0 ss)" "set items \<inter> set chosen = {}"
  shows "some_sentences ss (foldl (admit_item count dots n max_tokens) chosen items) \<and>
    set chosen \<subseteq> set (foldl (admit_item count dots n max_tokens) chosen items) \<and>
    set (foldl (admit_item count dots n max_tokens) chosen items) \<subseteq> set chosen \<union> set items \<and>
    length (foldl (admit_item count dots n max_tokens) chosen items) \<le> length chosen + length items"
  using assms
proof (induction items arbitrary: chosen)
  case (Cons item items)
  let ?c = "admit_item count dots n max_tokens chosen item"
  have c: "?c = chosen \<or> ?c = chosen @ [item]" by (auto simp: admit_item_def Let_def)
  then have "some_sentences ss ?c" "set items \<inter> set ?c = {}" using Cons.prems by (auto simp: some_sentences_def)
  then have "some_sentences ss (foldl (admit_item count dots n max_tokens) ?c items) \<and>
    set ?c \<subseteq> set (foldl (admit_item count dots n max_tokens) ?c items) \<and>
    set (foldl (admit_item count dots n max_tokens) ?c items) \<subseteq> set ?c \<union> set items \<and>
    length (foldl (admit_item count dots n max_tokens) ?c items) \<le> length ?c + length items"
    using Cons.prems by (intro Cons.IH) auto
  then show ?case using c by auto
qed simp

lemma rank_sentences_perm: "distinct (rank_sentences q ss)" "set (rank_sentences q ss) = set (enumerate 0 ss)"
  by (simp_all add: rank_sentences_def distinct_enumerate)

lemma enumerate_member: "(\<exists>i. (i, s) \<in> set (enumerate 0 ss)) \<longleftrightarrow> s \<in> set ss"
  proof -
  have "s \<in> snd ` set (enumerate 0 ss) \<longleftrightarrow> s \<in> set ss" by (metis list.set_map map_snd_enumerate)
  then show ?thesis by force
qed

text \<open>All the qualifying sentences are chosen before any other one.\<close>

definition well_qualified :: "string list \<Rightarrow> (nat \<times> string) list \<Rightarrow> bool" where
  "well_qualified ss chosen \<longleftrightarrow>
     (\<exists>item \<in> set chosen. \<not> qualifies (snd item)) \<longrightarrow>
     (\<forall>item \<in> set (enumerate 0 ss). qualifies (snd item) \<longrightarrow> item \<in> set chosen)"

lemma choose_sentences_ok:
  assumes "set ranked = set (enumerate 0 ss)" "distinct ranked"
  shows "some_sentences ss (choose_sentences count dots n max_tokens ranked) \<and>
    well_qualified ss (choose_sentences count dots n max_tokens ranked)"
proof -
  let ?admit = "foldl (admit_item count dots n max_tokens)"
  let ?q = "filter (\<lambda>item. qualifies (snd item)) ranked"
  let ?rest = "filter (\<lambda>item. item \<notin> set ?q) ranked"
  have first: "some_sentences ss (?admit [] ?q)" "set (?admit [] ?q) \<subseteq> set ?q"
    using admitted [of ss "[]" ?q count dots n max_tokens] assms by (auto simp: some_sentences_def)
  show ?thesis
  proof (cases "length (?admit [] ?q) = length ?q")
    case False
    then show ?thesis using first by (auto simp: choose_sentences_def Let_def well_qualified_def)
  next
    case True
    have "set (?admit [] ?q) = set ?q"
    proof (rule card_subset_eq)
      show "card (set (?admit [] ?q)) = card (set ?q)"
        using True first(1) assms(2) distinct_card [of ?q] distinct_card [of "?admit [] ?q"]
        by (simp add: some_sentences_def del: set_filter)
    qed (use first(2) in simp_all)
    moreover have "some_sentences ss (?admit (?admit [] ?q) ?rest) \<and> set (?admit [] ?q) \<subseteq> set (?admit (?admit [] ?q) ?rest)"
      using admitted [of ss "?admit [] ?q" ?rest count dots n max_tokens] first assms by auto
    ultimately show ?thesis using True assms(1) by (auto simp: choose_sentences_def Let_def well_qualified_def)
  qed
qed

lemma sorted_choice:
  assumes "some_sentences ss chosen"
  shows "subseq (map snd (sort chosen)) ss"
proof -
  let ?P = "\<lambda>item. item \<in> set chosen"
  have "sorted (enumerate 0 ss)"
  proof -
    have "sorted (map fst (enumerate 0 ss))" by (simp add: enumerate_map_upt del: enumerate_simps)
    then show ?thesis
      by (simp add: sorted_iff_nth_mono_less nth_enumerate_eq less_eq_prod_def less_prod_def)
  qed
  then have "sorted (filter ?P (enumerate 0 ss))" by (rule sorted_wrt_filter)
  moreover have "set (filter ?P (enumerate 0 ss)) = set (sort chosen)" "distinct (sort chosen)"
    using assms by (auto simp: some_sentences_def)
  ultimately have "sort chosen = filter ?P (enumerate 0 ss)"
    by (intro sorted_distinct_set_unique) (simp_all add: distinct_enumerate)
  then have "subseq (map snd (sort chosen)) (map snd (enumerate 0 ss))"
    by (metis subseq_filter_left subseq_map)
  then show ?thesis by simp
qed


definition mark_if :: "string \<Rightarrow> bool \<Rightarrow> string" where
  "mark_if dots b = (if b then '' '' @ marker dots else [])"

definition fits_marked :: "(string \<Rightarrow> int) \<Rightarrow> string \<Rightarrow> nat \<Rightarrow> int \<Rightarrow> (nat \<times> string) list \<Rightarrow> bool" where
  "fits_marked count dots n max_tokens chosen \<longleftrightarrow>
     chosen = [] \<or> count (join_chosen chosen @ mark_if dots (length chosen < n)) \<le> max_tokens"

lemma admitted_fits:
  "fits_marked count dots n max_tokens chosen \<Longrightarrow>
   fits_marked count dots n max_tokens (foldl (admit_item count dots n max_tokens) chosen items)"
  by (induction items arbitrary: chosen) (auto simp: admit_item_def Let_def fits_marked_def mark_if_def)

lemma choose_sentences_fits:
  "fits_marked count dots n max_tokens (choose_sentences count dots n max_tokens ranked)"
  by (simp add: choose_sentences_def Let_def admitted_fits fits_marked_def [of _ _ _ _ "[]"])

section \<open>Sound excerpts\<close>

text \<open>A choice of whole sentences of a text, in order, with its qualifying sentences.\<close>

definition complete_choice :: "string \<Rightarrow> string list \<Rightarrow> bool" where
  "complete_choice text ss \<longleftrightarrow>
     ss \<noteq> [] \<and> subseq ss (sentences text) \<and>
     ((\<exists>s \<in> set ss. \<not> qualifies s) \<longrightarrow> (\<forall>s \<in> set (sentences text). qualifies s \<longrightarrow> s \<in> set ss))"

definition cut_from :: "string \<Rightarrow> string \<Rightarrow> string \<Rightarrow> bool" where
  "cut_from dots text e \<longleftrightarrow>
     (\<exists>ss. complete_choice text ss \<and>
        (e = join_with '' '' ss \<or> length ss < length (sentences text) \<and> e = join_with '' '' ss @ '' '' @ marker dots))"

lemma fit_text_single:
  "s \<in> set (sentences text) \<Longrightarrow> fit_text count s m before b \<noteq> [] \<Longrightarrow> fit_text count s m before b = s \<and> count s \<le> m"
  using sentence_trimmed [of s "text"] by (auto simp: fit_text_def Let_def strip_trimmed split: if_splits)

lemma cut_from_single:
  assumes "s \<in> set (sentences text)" "qualifies s \<or> (\<forall>s \<in> set (sentences text). \<not> qualifies s)"
  shows "cut_from dots text s"
proof -
  have "subseq [s] (sentences text)" using assms(1) by (simp add: subseq_singleton_left)
  then have "complete_choice text [s]" using assms(2) by (auto simp: complete_choice_def)
  then show ?thesis unfolding cut_from_def by (intro exI [of _ "[s]"]) simp
qed

lemma sentence_excerpt_chosen:
  assumes "chosen = choose_sentences count dots (length (sentences text)) max_tokens (rank_sentences q (sentences text))"
    and "chosen \<noteq> []"
  shows "sentence_excerpt count dots text q max_tokens = join_chosen chosen @ mark_if dots (length chosen < length (sentences text))"
    and "count (sentence_excerpt count dots text q max_tokens) \<le> max_tokens"
    and "cut_from dots text (sentence_excerpt count dots text q max_tokens)"
proof -
  let ?ss = "sentences text"
  have ok: "some_sentences ?ss chosen" "well_qualified ?ss chosen"
    unfolding assms(1) using choose_sentences_ok [OF rank_sentences_perm(2) rank_sentences_perm(1)] by blast+
  have w: "count (join_chosen chosen @ mark_if dots (length chosen < length ?ss)) \<le> max_tokens"
    using choose_sentences_fits [of count dots "length ?ss" max_tokens "rank_sentences q ?ss"] assms by (simp add: fits_marked_def)
  have "?ss \<noteq> []" using ok(1) assms(2) by (auto simp: some_sentences_def)
  then show eq: "sentence_excerpt count dots text q max_tokens = join_chosen chosen @ mark_if dots (length chosen < length ?ss)"
    using assms(2) w by (simp add: sentence_excerpt_def Let_def assms(1) [symmetric] mark_if_def split: if_splits)
  show "count (sentence_excerpt count dots text q max_tokens) \<le> max_tokens" unfolding eq by (rule w)
  have "complete_choice text (map snd (sort chosen))"
    unfolding complete_choice_def
  proof (intro conjI impI ballI)
    have "length (map snd (sort chosen)) \<noteq> 0" using assms(2) by simp
    then show "map snd (sort chosen) \<noteq> []" by fastforce
    show "subseq (map snd (sort chosen)) ?ss" using ok(1) by (rule sorted_choice)
  next
    fix s assume "\<exists>s \<in> set (map snd (sort chosen)). \<not> qualifies s" "s \<in> set ?ss" "qualifies s"
    then have "\<exists>item \<in> set chosen. \<not> qualifies (snd item)" by auto
    moreover obtain i where i: "(i, s) \<in> set (enumerate 0 ?ss)"
      using \<open>s \<in> set ?ss\<close> enumerate_member [of s ?ss] by blast
    ultimately have "(i, s) \<in> set chosen" using ok(2) \<open>qualifies s\<close> by (auto simp: well_qualified_def)
    then show "s \<in> set (map snd (sort chosen))" by force
  qed
  then show "cut_from dots text (sentence_excerpt count dots text q max_tokens)"
    unfolding cut_from_def eq join_chosen_def mark_if_def by (intro exI [of _ "map snd (sort chosen)"]) simp
qed

lemma sentence_excerpt_sound:
  assumes "sentence_excerpt count dots text q max_tokens \<noteq> []"
  shows "cut_from dots text (sentence_excerpt count dots text q max_tokens)"
    and "count (sentence_excerpt count dots text q max_tokens) \<le> max_tokens"
proof -
  let ?ss = "sentences text" and ?ranked = "rank_sentences q (sentences text)" and ?e = "sentence_excerpt count dots text q max_tokens"
  let ?chosen = "choose_sentences count dots (length ?ss) max_tokens ?ranked"
  have "cut_from dots text ?e \<and> count ?e \<le> max_tokens"
  proof (cases "?chosen = []")
    case False
    then show ?thesis using sentence_excerpt_chosen [OF refl False] by blast
  next
    case True
    have ne: "?ss \<noteq> []" using assms by (auto simp: sentence_excerpt_def)
    have mem: "snd item \<in> set ?ss" if "item \<in> set ?ranked" for item
      using that by (auto simp: rank_sentences_perm(2) in_set_enumerate_eq dest!: nth_mem)
    show ?thesis
    proof (cases "filter (\<lambda>item. qualifies (snd item)) ?ranked")
      case Nil
      then have none: "\<forall>s \<in> set ?ss. \<not> qualifies s"
        using enumerate_member [of _ ?ss] by (force simp: filter_empty_conv rank_sentences_perm(2))
      have "?ranked \<noteq> []" using ne rank_sentences_perm(2) [of q ?ss] by (metis empty_set enumerate_simps(1) length_0_conv length_enumerate set_empty)
      then have h: "snd (hd ?ranked) \<in> set ?ss" using mem by simp
      have e: "?e = fit_text count (snd (hd ?ranked)) max_tokens [] None"
        using True ne Nil by (simp add: sentence_excerpt_def Let_def)
      show ?thesis using fit_text_single [OF h] cut_from_single [OF h] none e assms by metis
    next
      case (Cons x rest)
      then have "x \<in> set (filter (\<lambda>item. qualifies (snd item)) ?ranked)" by simp
      then have x: "x \<in> set ?ranked" "qualifies (snd x)" by simp_all
      have e: "?e = fit_text count (snd x) max_tokens [] None"
        using True ne Cons by (simp add: sentence_excerpt_def Let_def)
      show ?thesis using fit_text_single [OF mem [OF x(1)]] cut_from_single [OF mem [OF x(1)]] x(2) e assms by metis
    qed
  qed
  then show "cut_from dots text ?e" "count ?e \<le> max_tokens" by blast+
qed


lemma cut_from_trimmed: "cut_from dots text e \<Longrightarrow> trimmed e"
proof -
  assume "cut_from dots text e"
  then obtain ss where ss: "complete_choice text ss" "e = join_with '' '' ss \<or> e = join_with '' '' ss @ '' '' @ marker dots"
    by (auto simp: cut_from_def)
  have "\<forall>w \<in> set ss. w \<noteq> [] \<and> trimmed w"
    using ss(1) sentence_trimmed [of _ "text"] by (fastforce simp: complete_choice_def elim: list_emb_set)
  then have "trimmed (join_with '' '' ss) \<and> join_with '' '' ss \<noteq> []"
    using ss(1) by (intro trimmed_join) (simp_all add: complete_choice_def)
  then show "trimmed e" using ss(2) trimmed_append [of _ "marker dots" "'' ''"] marker_trimmed by auto
qed

text \<open>
  A summary may stand for its source when it has no sentence of its own and keeps every
  protected sentence of the source.
\<close>

definition faithful_summary :: "string \<Rightarrow> string \<Rightarrow> string \<Rightarrow> bool" where
  "faithful_summary dots full e \<longleftrightarrow>
     set (sentences e) - {marker dots} \<subseteq> set (sentences full) \<and>
     {s \<in> set (sentences full). protected_sentence s} \<subseteq> set (sentences e)"

definition sound_excerpt :: "string \<Rightarrow> string \<Rightarrow> string \<Rightarrow> string \<Rightarrow> bool" where
  "sound_excerpt dots full summary e \<longleftrightarrow>
     (let source = (if full \<noteq> [] then full else summary)
      in e = source \<or> cut_from dots source e) \<or>
     (e = summary \<or> cut_from dots summary e) \<and> (full = [] \<or> faithful_summary dots full e)"

lemma summary_is_useful_faithful:
  "summary_is_useful dots e full q \<Longrightarrow> full = [] \<or> faithful_summary dots full e"
  by (auto simp: summary_is_useful_def faithful_summary_def Let_def)

lemma excerpt_sound:
  assumes "excerpt count dots q content summary bridge max_tokens = (e, truncated, reason)" "e \<noteq> []"
  shows "sound_excerpt dots (strip content) (strip summary) e \<and> count e \<le> max_tokens \<and> trimmed e \<and>
    (\<not> truncated \<longrightarrow> e = strip content)"
proof -
  let ?full = "strip content" and ?summary = "strip summary"
  define source where "source = (if ?full \<noteq> [] then ?full else ?summary)"
  let ?useful = "?summary \<noteq> [] \<and> summary_is_useful dots ?summary ?full q"
  let ?cut = "\<lambda>text. sentence_excerpt count dots text q max_tokens"
  have pos: "\<not> max_tokens \<le> 0" using assms by (auto simp: excerpt_def split: if_splits)
  have cut: "cut_from dots text (?cut text) \<and> count (?cut text) \<le> max_tokens \<and> trimmed (?cut text)"
    if "?cut text \<noteq> []" for "text"
    using sentence_excerpt_sound [OF that] cut_from_trimmed by blast
  have st: "trimmed source" by (simp add: source_def trimmed_strip)
  consider (summary) "?useful" "count ?summary \<le> max_tokens" "e = ?summary" "truncated = (?summary \<noteq> ?full)"
    | (summary_cut) "e = ?cut ?summary" "summary_is_useful dots e ?full q" "truncated"
    | (full) "e = ?full" "count ?full \<le> max_tokens"
    | (source_cut) "e = ?cut source" "truncated"
    | (fitted) "e = fit_text count source max_tokens [] None" "truncated"
  proof -
    have eq: "(e, truncated, reason) =
        (if ?useful \<and> count ?summary \<le> max_tokens then (?summary, ?summary \<noteq> ?full, ''summary'')
         else if ?useful \<and> ?cut ?summary \<noteq> [] \<and> summary_is_useful dots (?cut ?summary) ?full q then (?cut ?summary, True, ''summary_excerpt'')
         else if ?full \<noteq> [] \<and> count ?full \<le> max_tokens then (?full, False, if bridge then ''bridge_evidence'' else ''full'')
         else if ?cut source \<noteq> [] then (?cut source, True, if bridge then ''bridge_excerpt'' else ''relevant_sentence_excerpt'')
         else (fit_text count source max_tokens [] None, fit_text count source max_tokens [] None \<noteq> [], ''token_boundary_excerpt''))"
      using assms(1) unfolding excerpt_def Let_def source_def if_not_P [OF pos] by (rule sym)
    show ?thesis
    proof (cases "?useful \<and> count ?summary \<le> max_tokens")
      case True
      then show ?thesis using eq by (intro summary) simp_all
    next
      case n1: False
      show ?thesis
      proof (cases "?useful \<and> ?cut ?summary \<noteq> [] \<and> summary_is_useful dots (?cut ?summary) ?full q")
        case True
        then show ?thesis using eq n1 by (intro summary_cut) (simp_all only: if_True if_False prod.inject simp_thms)
      next
        case n2: False
        show ?thesis
          using eq n1 n2 full source_cut fitted assms(2)
          by (cases "?full \<noteq> [] \<and> count ?full \<le> max_tokens"; cases "?cut source \<noteq> []") (simp_all only: if_True if_False prod.inject simp_thms)
      qed
    qed
  qed
  then show ?thesis
  proof cases
    case summary
    then show ?thesis using summary_is_useful_faithful by (auto simp: sound_excerpt_def trimmed_strip)
  next
    case summary_cut
    then show ?thesis using cut [of ?summary] assms(2) summary_is_useful_faithful by (auto simp: sound_excerpt_def)
  next
    case full
    then show ?thesis using assms(2) by (auto simp: sound_excerpt_def trimmed_strip Let_def)
  next
    case source_cut
    then show ?thesis using cut [of source] assms(2) by (auto simp: sound_excerpt_def Let_def source_def)
  next
    case fitted
    then have "e = strip source" "count e \<le> max_tokens" using assms(2) by (auto simp: fit_text_def Let_def split: if_splits)
    then show ?thesis using fitted(2) st by (simp add: sound_excerpt_def Let_def strip_trimmed source_def)
  qed
qed

text \<open>F: splitting takes the closing marks behind the end of a sentence for a part of the
separator, so an excerpt of several sentences loses a closing quotation mark of its source.\<close>

theorem closing_quote_lost:
  "sentences (''Say '' @ [CHR 0x22] @ ''no.'' @ [CHR 0x22] @ '' Go.'') = [''Say '' @ [CHR 0x22] @ ''no.'', ''Go.'']"
  by code_simp

end
