(* ===== verification/ContextPack.thy ===== *)
theory ContextPack
  imports Excerpts Records HistoryFit "HOL-Library.AList" "HOL-Library.Multiset"
begin

text \<open>
  The deterministic context packer of \<^verbatim>\<open>engraphis/core/context.py\<close>: \<open>pack\<close> with its utility order,
  score elbow, headers and omission counts, over the reals and with any token counter.
  The evidence fields of a chunk and \<open>pack_coverage\<close> are not modelled.

  Lemmas: an induction rule for the selection loop; the hard budget, the accounting of the
  candidates and the soundness of every chunk are invariants of one step.
\<close>

section \<open>Candidates and chunks\<close>

record candidate =
  cd_id :: string
  cd_score :: real
  cd_arm :: string
  cd_record :: "memory_record option"

record packer =
  pk_count :: "string \<Rightarrow> int"
  pk_dots :: string
  pk_gating :: bool
  pk_ratio :: real
  pk_floor :: real

record chunk =
  ck_id :: string
  ck_excerpt :: string
  ck_tokens :: int
  ck_truncated :: bool
  ck_reason :: string
  ck_attribution :: string

record omissions =
  om_duplicate :: nat
  om_budget :: nat
  om_tail :: nat
  om_missing :: nat

record usage =
  us_budget :: int
  us_context :: int
  us_source :: int
  us_saved :: int
  us_ratio :: real
  us_packed :: nat
  us_omitted :: nat
  us_reasons :: "(string \<times> nat) list"

record pack_state =
  ps_context :: string
  ps_packed :: "chunk list"
  ps_covered :: "string set"
  ps_scores :: "real list"
  ps_omitted :: omissions

section \<open>Repeated candidates, owners and titles\<close>

text \<open>The better of two candidates of one id stays in the place of the first.\<close>

definition select :: "(string \<times> candidate) list \<Rightarrow> candidate \<Rightarrow> (string \<times> candidate) list" where
  "select selected c =
     (case map_of selected (cd_id c) of
        None \<Rightarrow> selected @ [(cd_id c, c)]
      | Some current \<Rightarrow>
          if (cd_score c, cd_id c) > (cd_score current, cd_id current) then AList.update (cd_id c) c selected
          else selected)"

definition family_representatives :: "candidate list \<Rightarrow> candidate list \<times> nat" where
  "family_representatives cs =
     (let selected = foldl select [] cs;
          representatives = sort_key (\<lambda>c. (- cd_score c, cd_id c)) (map snd selected)
      in (representatives, length cs - length representatives))"

definition source_attribution :: "memory_record \<Rightarrow> string" where
  "source_attribution r =
     (let field = (\<lambda>name v. case v of None \<Rightarrow> [] | Some x \<Rightarrow> [name @ ''='' @ x])
      in ''('' @ join_with ''; '' ([''scope='' @ scope_value (scope r)] @ field ''workspace_id'' (workspace_id r) @
          field ''repo_id'' (repo_id r) @ field ''session_id'' (session_id r)) @ '')'')"

fun decimal :: "nat \<Rightarrow> string" where
  "decimal n = (if n < 10 then [char_of (48 + n)] else decimal (n div 10) @ [char_of (48 + n mod 10)])"

declare decimal.simps [simp del]

definition header :: "memory_record \<Rightarrow> nat \<Rightarrow> bool \<Rightarrow> string \<Rightarrow> string" where
  "header r ordinal include_title attribution =
     ''['' @ decimal ordinal @ '']'' @
     (if attribution \<noteq> [] then '' '' @ attribution else []) @
     (if include_title \<and> title r \<noteq> [] then '' '' @ join_with '' '' (py_split (title r)) else [])"

definition starts_with_title :: "string \<Rightarrow> string \<Rightarrow> bool" where
  "starts_with_title e ttl =
     (let displayed = join_with '' '' (py_split ttl); normal = join_with '' '' (py_split e)
      in displayed \<noteq> [] \<and> starts_with displayed normal \<and>
         (length normal = length displayed \<or> \<not> py_alnum (normal ! length displayed)))"

section \<open>The order of selection\<close>

definition list_has :: "string \<Rightarrow> string \<Rightarrow> bool" where
  "list_has pat s = list_ex (\<lambda>i. starts_with pat (drop i s)) [0..<length s]"

text \<open>
  The search for \<^verbatim>\<open>(?:\w+[./\\])+\w+|::|->|\b[A-Za-z_]\w*\(\)\<close>: a path, a double colon, an arrow or
  a call of a name. A path is found as soon as a separator stands between two word characters.
\<close>

definition path_at :: "string \<Rightarrow> nat \<Rightarrow> bool" where
  "path_at s i \<longleftrightarrow>
     0 < i \<and> i + 1 < length s \<and> word_char (s ! (i - 1)) \<and> s ! i \<in> set [CHR ''.'', CHR ''/'', CHR 0x5C] \<and>
     word_char (s ! (i + 1))"

definition call_at :: "string \<Rightarrow> nat \<Rightarrow> bool" where
  "call_at s i \<longleftrightarrow>
     starts_with ''()'' (drop i s) \<and>
     (let run = takeWhile word_char (rev (take i s))
      in run \<noteq> [] \<and> (let c = last run; n = of_char c :: nat
                      in (65 \<le> n \<and> n \<le> 90) \<or> (97 \<le> n \<and> n \<le> 122) \<or> c = CHR ''_''))"

definition needs_bridge :: "string \<Rightarrow> bool" where
  "needs_bridge query \<longleftrightarrow>
     terms query \<inter> BRIDGE_TERMS \<noteq> {} \<or> list_has ''::'' query \<or> list_has ''->'' query \<or>
     list_ex (\<lambda>i. path_at query i \<or> call_at query i) [0..<length query]"

definition bridge_arm :: "candidate \<Rightarrow> bool" where
  "bridge_arm c \<longleftrightarrow> cd_arm c = ''graph'' \<or> cd_arm c = ''code''"

definition code_points :: "string \<Rightarrow> int list" where
  "code_points s = map (\<lambda>c. int (of_char c)) s"

definition reverse_text :: "string \<Rightarrow> int list" where
  "reverse_text s = map (\<lambda>c. 1114111 - int (of_char c)) s"

text \<open>A candidate without a record has minus infinity in both places: the first component.\<close>

definition utility :: "packer \<Rightarrow> string set \<Rightarrow> bool \<Rightarrow> string set \<Rightarrow> candidate \<Rightarrow> bool \<times> real \<times> real \<times> int list" where
  "utility P query_terms bridge covered c =
     (case cd_record c of
        None \<Rightarrow> (False, 0, 0, code_points (cd_id c))
      | Some r \<Rightarrow>
          let t = title r @ '' '' @ (if summary r \<noteq> [] then summary r else content r);
              overlap = terms t \<inter> query_terms;
              novelty = real (card (overlap - covered)) / real (max 1 (card query_terms));
              relevance = max 0 (cd_score c);
              bonus = (if bridge \<and> bridge_arm c then 2 / 10 else 0);
              compactness = 1 / sqrt (real_of_int (max 1 (pk_count P t)))
          in (True, 7 / 10 * relevance + 25 / 100 * novelty + bonus + 5 / 100 * compactness, relevance,
              reverse_text (cd_id c)))"

text \<open>Python's stable descending sort.\<close>

definition sort_descending :: "('a \<Rightarrow> 'k :: linorder) \<Rightarrow> 'a list \<Rightarrow> 'a list" where
  "sort_descending key xs = rev (sort_key key (rev xs))"

definition is_score_elbow :: "packer \<Rightarrow> candidate \<Rightarrow> real \<Rightarrow> real \<Rightarrow> nat \<Rightarrow> bool \<Rightarrow> bool" where
  "is_score_elbow P c top_score last_admitted admitted_count bridge \<longleftrightarrow>
     (if \<not> pk_gating P \<or> admitted_count < 1 \<or> top_score \<le> 0 then False
      else if bridge \<and> bridge_arm c then cd_score c \<le> 0
      else if cd_score c \<le> 0 then True
      else
        let to_top = cd_score c / top_score;
            to_last = cd_score c / max last_admitted (1 / 1000000000);
            steps = real admitted_count - 1
        in to_top < min (40 / 100) (pk_floor P + 3 / 100 * steps) \<and>
           to_last < min (60 / 100) (pk_ratio P + 3 / 100 * steps))"

section \<open>One candidate\<close>

definition arm_excerpt :: "packer \<Rightarrow> string set \<Rightarrow> candidate \<Rightarrow> memory_record \<Rightarrow> int \<Rightarrow> string \<times> bool \<times> string" where
  "arm_excerpt P query_terms c r max_tokens =
     excerpt (pk_count P) (pk_dots P) query_terms (content r) (summary r) (bridge_arm c) max_tokens"

text \<open>
  The excerpt behind the header with the title, or, when the excerpt repeats the title, behind
  the shorter header: the text so far with the header, the tokens left, and the excerpt.
\<close>

definition place :: "packer \<Rightarrow> int \<Rightarrow> string set \<Rightarrow> candidate \<Rightarrow> memory_record \<Rightarrow> string \<Rightarrow> nat \<Rightarrow> string
    \<Rightarrow> string \<times> int \<times> string \<times> bool \<times> string" where
  "place P budget query_terms c r ctx ordinal attribution =
     (let before = ctx @ (if ctx \<noteq> [] then [CHR 0x0A, CHR 0x0A] else []);
          base = before @ header r ordinal True attribution @ [CHR 0x0A];
          available = max 0 (budget - pk_count P base);
          first = (if available \<noteq> 0 then arm_excerpt P query_terms c r available else ([], False, []));
          compact_base = before @ header r ordinal False attribution @ [CHR 0x0A];
          compact_available = budget - pk_count P compact_base;
          compact = arm_excerpt P query_terms c r compact_available
      in if (fst first = [] \<or> starts_with_title (fst first) (title r)) \<and> pk_count P compact_base < budget \<and>
            fst compact \<noteq> [] \<and> starts_with_title (fst compact) (title r)
         then (compact_base, compact_available, compact)
         else (base, available, first))"

text \<open>The final check of the whole text against the budget.\<close>

definition settle :: "packer \<Rightarrow> int \<Rightarrow> string \<times> int \<times> string \<times> bool \<times> string \<Rightarrow> (string \<times> string \<times> bool \<times> string) option" where
  "settle P budget placed =
     (case placed of (base, available, e, truncated, reason) \<Rightarrow>
        if e = [] then None
        else if pk_count P (base @ e) > budget then
          let fitted = fit_text (pk_count P) e available base (Some budget)
          in if fitted = [] then None else Some (base, fitted, True, ''token_boundary_excerpt'')
        else Some (base, e, truncated, reason))"

definition admit :: "packer \<Rightarrow> string set \<Rightarrow> candidate \<Rightarrow> string \<Rightarrow> string \<times> string \<times> bool \<times> string \<Rightarrow> pack_state \<Rightarrow> pack_state" where
  "admit P query_terms c attribution fitted st =
     (case fitted of (base, e, truncated, reason) \<Rightarrow>
        st\<lparr>ps_context := base @ e,
           ps_packed := ps_packed st @ [\<lparr>ck_id = cd_id c, ck_excerpt = e, ck_tokens = pk_count P e,
             ck_truncated = truncated, ck_reason = reason, ck_attribution = attribution\<rparr>],
           ps_covered := ps_covered st \<union> (terms e \<inter> query_terms),
           ps_scores := ps_scores st @ [cd_score c]\<rparr>)"

definition omit_missing :: "pack_state \<Rightarrow> pack_state" where
  "omit_missing st = st\<lparr>ps_omitted := (ps_omitted st)\<lparr>om_missing := om_missing (ps_omitted st) + 1\<rparr>\<rparr>"

definition omit_tail :: "pack_state \<Rightarrow> pack_state" where
  "omit_tail st = st\<lparr>ps_omitted := (ps_omitted st)\<lparr>om_tail := om_tail (ps_omitted st) + 1\<rparr>\<rparr>"

definition omit_budget :: "pack_state \<Rightarrow> pack_state" where
  "omit_budget st = st\<lparr>ps_omitted := (ps_omitted st)\<lparr>om_budget := om_budget (ps_omitted st) + 1\<rparr>\<rparr>"

definition consider_candidate :: "packer \<Rightarrow> int \<Rightarrow> string set \<Rightarrow> bool \<Rightarrow> bool \<Rightarrow> real \<Rightarrow> candidate \<Rightarrow> pack_state \<Rightarrow> pack_state" where
  "consider_candidate P budget query_terms bridge attributed top_score c st =
     (case cd_record c of
        None \<Rightarrow> omit_missing st
      | Some r \<Rightarrow>
          if pk_gating P \<and> ps_scores st \<noteq> [] \<and>
             is_score_elbow P c top_score (last (ps_scores st)) (length (ps_packed st)) bridge
          then omit_tail st
          else
            let attribution = (if attributed then source_attribution r else []);
                placed = place P budget query_terms c r (ps_context st) (length (ps_packed st) + 1) attribution
            in case settle P budget placed of
                 None \<Rightarrow> omit_budget st
               | Some fitted \<Rightarrow> admit P query_terms c attribution fitted st)"

section \<open>Packing\<close>

function pack_loop :: "(pack_state \<Rightarrow> candidate \<Rightarrow> 'k :: linorder) \<Rightarrow> (candidate \<Rightarrow> pack_state \<Rightarrow> pack_state)
    \<Rightarrow> candidate list \<Rightarrow> pack_state \<Rightarrow> pack_state" where
  "pack_loop key step remaining st =
     (case sort_descending (key st) remaining of
        [] \<Rightarrow> st
      | c # rest \<Rightarrow> pack_loop key step rest (step c st))"
  by pat_completeness auto
termination
proof (relation "measure (\<lambda>(_, _, remaining, _). length remaining)")
  fix key :: "pack_state \<Rightarrow> candidate \<Rightarrow> 'k :: linorder" and step remaining st c rest
  assume "sort_descending (key st) remaining = c # rest"
  then have "length remaining = Suc (length rest)"
    unfolding sort_descending_def by (metis length_Cons length_rev length_sort)
  then show "((key, step, rest, step c st), (key, step, remaining, st)) \<in> measure (\<lambda>(_, _, remaining, _). length remaining)"
    by simp
qed simp

declare pack_loop.simps [simp del]

definition source_tokens :: "packer \<Rightarrow> candidate \<Rightarrow> int" where
  "source_tokens P c = (case cd_record c of None \<Rightarrow> 0 | Some r \<Rightarrow> pk_count P (title r @ [CHR 0x0A] @ content r))"

definition make_usage :: "int \<Rightarrow> int \<Rightarrow> int \<Rightarrow> nat \<Rightarrow> nat \<Rightarrow> (string \<times> nat) list \<Rightarrow> usage" where
  "make_usage budget context_tokens src packed omitted reasons =
     (let saved = max 0 (src - context_tokens)
      in \<lparr>us_budget = budget, us_context = context_tokens, us_source = src, us_saved = saved,
          us_ratio = (if src \<noteq> 0 then real_of_int saved / real_of_int src else 0), us_packed = packed,
          us_omitted = omitted, us_reasons = reasons\<rparr>)"

definition omission_reasons :: "omissions \<Rightarrow> (string \<times> nat) list" where
  "omission_reasons om = [(''duplicate'', om_duplicate om), (''budget'', om_budget om), (''score_tail'', om_tail om),
     (''missing_record'', om_missing om), (''unit_too_large'', 0)]"

definition start_state :: "nat \<Rightarrow> pack_state" where
  "start_state duplicates = \<lparr>ps_context = [], ps_packed = [], ps_covered = {}, ps_scores = [],
     ps_omitted = \<lparr>om_duplicate = duplicates, om_budget = 0, om_tail = 0, om_missing = 0\<rparr>\<rparr>"

definition select_and_pack :: "packer \<Rightarrow> string \<Rightarrow> int \<Rightarrow> candidate list \<Rightarrow> nat \<Rightarrow> pack_state" where
  "select_and_pack P query budget representatives duplicates =
     (let query_terms = terms query; bridge = needs_bridge query;
          owners = (\<lambda>r. source_attribution r) ` set (List.map_filter cd_record representatives);
          ordered = sort_descending (utility P query_terms bridge {}) representatives;
          top_score = (if ordered = [] then 0 else Max (set (map cd_score ordered)))
      in pack_loop (\<lambda>st. utility P query_terms bridge (ps_covered st))
           (consider_candidate P budget query_terms bridge (1 < card owners) top_score) ordered (start_state duplicates))"

definition pack :: "packer \<Rightarrow> string \<Rightarrow> candidate list \<Rightarrow> int \<Rightarrow> string \<times> chunk list \<times> usage" where
  "pack P query cs token_budget =
     (let budget = max 0 token_budget; src = sum_list (map (source_tokens P) cs)
      in if budget = 0 \<or> cs = [] then
           ([], [], make_usage budget 0 src 0 (length cs) (if cs \<noteq> [] then [(''budget'', length cs)] else []))
         else
           let (representatives, duplicates) = family_representatives cs;
               st = select_and_pack P query budget representatives duplicates;
               omitted = max (length cs - length (ps_packed st)) duplicates
           in (ps_context st, ps_packed st,
               make_usage budget (pk_count P (ps_context st)) src (length (ps_packed st)) omitted
                 (omission_reasons (ps_omitted st))))"


section \<open>The selection loop\<close>

lemma mset_sort_descending [simp]: "mset (sort_descending key xs) = mset xs"
  by (simp add: sort_descending_def)

text \<open>An invariant of the loop may depend on the candidates that are left, in any order.\<close>

lemma pack_loop_invariant:
  assumes "\<And>c M st. I (add_mset c M) st \<Longrightarrow> I M (step c st)" "I (mset remaining) st"
  shows "I {#} (pack_loop key step remaining st)"
  using assms
proof (induction key step remaining st rule: pack_loop.induct)
  case (1 key step remaining st)
  show ?case
  proof (cases "sort_descending (key st) remaining")
    case Nil
    then have "remaining = []" using mset_sort_descending [of "key st" remaining] by simp
    then show ?thesis using "1.prems"(2) Nil by (simp add: pack_loop.simps [of key step "[]"])
  next
    case (Cons c rest)
    then have "I (add_mset c (mset rest)) st"
      using "1.prems"(2) mset_sort_descending [of "key st" remaining] by simp
    then have "I (mset rest) (step c st)" by (rule "1.prems"(1))
    then show ?thesis using "1.IH" [OF Cons "1.prems"(1)] Cons by (simp add: pack_loop.simps [of key step remaining])
  qed
qed

lemma place_cases:
  assumes "place P budget q c r ctx n a = (base, available, e, truncated, reason)" "e \<noteq> []"
  obtains include_title where "available \<le> budget - pk_count P base"
    "base = ctx @ (if ctx \<noteq> [] then [CHR 0x0A, CHR 0x0A] else []) @ header r n include_title a @ [CHR 0x0A]"
    "arm_excerpt P q c r available = (e, truncated, reason)"
proof -
  have "(\<exists>include_title. available \<le> budget - pk_count P base \<and>
    base = ctx @ (if ctx \<noteq> [] then [CHR 0x0A, CHR 0x0A] else []) @ header r n include_title a @ [CHR 0x0A] \<and>
    arm_excerpt P q c r available = (e, truncated, reason))"
    using assms unfolding place_def Let_def
    by (auto split: if_splits simp: max_def)
  then show ?thesis using that by blast
qed


text \<open>What is admitted: an excerpt behind a header, within the budget, that is sound.\<close>

definition admissible :: "packer \<Rightarrow> int \<Rightarrow> candidate \<Rightarrow> memory_record \<Rightarrow> string \<Rightarrow> nat \<Rightarrow> string \<times> string \<times> bool \<times> string \<Rightarrow> bool" where
  "admissible P budget c r ctx n fitted \<longleftrightarrow>
     (case fitted of (base, e, truncated, reason) \<Rightarrow>
        (\<exists>include_title a. base = ctx @ (if ctx \<noteq> [] then [CHR 0x0A, CHR 0x0A] else []) @ header r n include_title a @ [CHR 0x0A]) \<and>
        pk_count P (base @ e) \<le> budget \<and> e \<noteq> [] \<and>
        sound_excerpt (pk_dots P) (strip (content r)) (strip (summary r)) e \<and>
        (\<not> truncated \<longrightarrow> e = strip (content r)))"

lemma settle_admissible:
  assumes "settle P budget (place P budget q c r ctx n a) = Some fitted"
  shows "admissible P budget c r ctx n fitted"
proof -
  obtain base available e truncated reason where pl: "place P budget q c r ctx n a = (base, available, e, truncated, reason)"
    by (metis prod_cases5)
  then have ne: "e \<noteq> []" using assms by (auto simp: settle_def)
  obtain include_title where *: "base = ctx @ (if ctx \<noteq> [] then [CHR 0x0A, CHR 0x0A] else []) @ header r n include_title a @ [CHR 0x0A]"
    "arm_excerpt P q c r available = (e, truncated, reason)"
    using place_cases [OF pl ne] by blast
  note sound = excerpt_sound [OF *(2) [unfolded arm_excerpt_def] ne]
  have strip_e: "strip e = e" using sound by (simp add: strip_trimmed)
  have fit: "fit_text (pk_count P) e available base (Some budget) = e \<and> pk_count P (base @ e) \<le> budget"
    if "fit_text (pk_count P) e available base (Some budget) \<noteq> []"
    using that by (auto simp: fit_text_def Let_def strip_e split: if_splits)
  show ?thesis
  proof (cases "pk_count P (base @ e) > budget")
    case True
    then have "False" if "fit_text (pk_count P) e available base (Some budget) \<noteq> []" using fit [OF that] by simp
    then show ?thesis using assms pl ne True by (auto simp: settle_def Let_def split: if_splits)
  next
    case False
    then have "fitted = (base, e, truncated, reason)" using assms pl ne by (simp add: settle_def)
    then show ?thesis using False sound ne *(1) by (auto simp: admissible_def)
  qed
qed

lemma consider_cases:
  obtains (missing) "consider_candidate P budget q bridge attributed highest c st = omit_missing st"
  | (tail) "consider_candidate P budget q bridge attributed highest c st = omit_tail st"
  | (budget) "consider_candidate P budget q bridge attributed highest c st = omit_budget st"
  | (admitted) r a fitted where "consider_candidate P budget q bridge attributed highest c st = admit P q c a fitted st"
      "cd_record c = Some r" "admissible P budget c r (ps_context st) (length (ps_packed st) + 1) fitted"
proof (cases "cd_record c")
  case None
  then show ?thesis by (intro missing) (simp add: consider_candidate_def)
next
  case (Some r)
  let ?a = "if attributed then source_attribution r else []"
  let ?placed = "place P budget q c r (ps_context st) (length (ps_packed st) + 1) ?a"
  show ?thesis
  proof (cases "pk_gating P \<and> ps_scores st \<noteq> [] \<and>
      is_score_elbow P c highest (last (ps_scores st)) (length (ps_packed st)) bridge")
    case True
    then show ?thesis by (intro tail) (simp add: consider_candidate_def Some)
  next
    case False
    then have eq: "consider_candidate P budget q bridge attributed highest c st =
        (case settle P budget ?placed of None \<Rightarrow> omit_budget st | Some fitted \<Rightarrow> admit P q c ?a fitted st)"
      unfolding consider_candidate_def Some Let_def option.case by (rule if_not_P)
    show ?thesis
    proof (cases "settle P budget ?placed")
      case None
      then show ?thesis using eq by (intro budget) simp
    next
      case settled: (Some fitted)
      then have "admissible P budget c r (ps_context st) (length (ps_packed st) + 1) fitted" by (rule settle_admissible)
      then show ?thesis using eq settled Some by (intro admitted [of ?a fitted r]) simp_all
    qed
  qed
qed

section \<open>The invariants of a step\<close>

definition on_budget :: "packer \<Rightarrow> int \<Rightarrow> pack_state \<Rightarrow> bool" where
  "on_budget P budget st \<longleftrightarrow> ps_context st = [] \<or> pk_count P (ps_context st) \<le> budget"

definition accounted :: "candidate list \<Rightarrow> candidate multiset \<Rightarrow> pack_state \<Rightarrow> bool" where
  "accounted cs M st \<longleftrightarrow>
     length (ps_packed st) + om_budget (ps_omitted st) + om_tail (ps_omitted st) + om_missing (ps_omitted st) + size M = length cs \<and>
     mset (map ck_id (ps_packed st)) + image_mset cd_id M \<subseteq># image_mset cd_id (mset cs)"

text \<open>A chunk that a candidate supports.\<close>

definition supported :: "packer \<Rightarrow> candidate list \<Rightarrow> chunk \<Rightarrow> bool" where
  "supported P cs k \<longleftrightarrow>
     (\<exists>c \<in> set cs. \<exists>r. cd_id c = ck_id k \<and> cd_record c = Some r \<and> ck_excerpt k \<noteq> [] \<and>
        sound_excerpt (pk_dots P) (strip (content r)) (strip (summary r)) (ck_excerpt k) \<and>
        (\<not> ck_truncated k \<longrightarrow> ck_excerpt k = strip (content r)))"

definition all_supported :: "packer \<Rightarrow> candidate list \<Rightarrow> candidate multiset \<Rightarrow> pack_state \<Rightarrow> bool" where
  "all_supported P cs M st \<longleftrightarrow> set_mset M \<subseteq> set cs \<and> (\<forall>k \<in> set (ps_packed st). supported P cs k)"

text \<open>The text is the sequence of the chunks, each behind a header that starts with its number.\<close>

definition rendered :: "string \<Rightarrow> chunk list \<Rightarrow> bool" where
  "rendered ctx ks \<longleftrightarrow>
     (\<exists>hs. length hs = length ks \<and> (\<forall>i < length ks. starts_with (''['' @ decimal (i + 1) @ '']'') (hs ! i)) \<and>
        ctx = join_with [CHR 0x0A, CHR 0x0A] (map (\<lambda>(h, k). h @ [CHR 0x0A] @ ck_excerpt k) (zip hs ks)))"

lemma join_with_snoc: "xs \<noteq> [] \<Longrightarrow> join_with sep (xs @ [y]) = join_with sep xs @ sep @ y"
  by (induction xs rule: induct_list012) auto

lemma join_with_grow:
  assumes "\<forall>b \<in> set bs. b \<noteq> []"
  shows "join_with sep bs @ (if join_with sep bs \<noteq> [] then sep else []) @ y = join_with sep (bs @ [y])"
proof (cases "bs = []")
  case False
  then have "join_with sep bs \<noteq> []" using assms by (induction bs rule: induct_list012) auto
  then show ?thesis using join_with_snoc [OF False] by simp
qed simp

lemma omit_simps [simp]:
  "ps_context (omit_missing st) = ps_context st" "ps_packed (omit_missing st) = ps_packed st"
  "ps_context (omit_tail st) = ps_context st" "ps_packed (omit_tail st) = ps_packed st"
  "ps_context (omit_budget st) = ps_context st" "ps_packed (omit_budget st) = ps_packed st"
  by (simp_all add: omit_missing_def omit_tail_def omit_budget_def)

lemma step_on_budget:
  "on_budget P budget st \<Longrightarrow> on_budget P budget (consider_candidate P budget q bridge attributed highest c st)"
  by (rule consider_cases [of P budget q bridge attributed highest c st])
    (auto simp: on_budget_def admit_def admissible_def)

lemma step_accounted:
  "accounted cs (add_mset c M) st \<Longrightarrow> accounted cs M (consider_candidate P budget q bridge attributed highest c st)"
proof (rule consider_cases [of P budget q bridge attributed highest c st])
  assume a: "accounted cs (add_mset c M) st"
  have sub: "mset (map ck_id (ps_packed st)) + image_mset cd_id M \<subseteq># image_mset cd_id (mset cs)"
    using a unfolding accounted_def
    by (metis add_mset_add_single image_mset_add_mset mset_subset_eq_insertD subset_mset.less_imp_le union_mset_add_mset_right)
  {
    assume "consider_candidate P budget q bridge attributed highest c st = omit_missing st"
    then show ?thesis using a sub by (auto simp: accounted_def omit_missing_def)
  next
    assume "consider_candidate P budget q bridge attributed highest c st = omit_tail st"
    then show ?thesis using a sub by (auto simp: accounted_def omit_tail_def)
  next
    assume "consider_candidate P budget q bridge attributed highest c st = omit_budget st"
    then show ?thesis using a sub by (auto simp: accounted_def omit_budget_def)
  next
    fix r x fitted
    assume "consider_candidate P budget q bridge attributed highest c st = admit P q c x fitted st"
    then show ?thesis using a by (cases fitted) (simp add: accounted_def admit_def)
  }
qed

lemma admitted_supported:
  assumes "admissible P budget c r ctx n fitted" "cd_record c = Some r" "c \<in> set cs" "k \<in> set (ps_packed (admit P q c a fitted st))"
  shows "k \<in> set (ps_packed st) \<or> supported P cs k"
proof (cases fitted)
  case (fields base e truncated reason)
  then show ?thesis using assms by (auto simp: admissible_def admit_def supported_def)
qed

lemma step_supported:
  assumes "all_supported P cs (add_mset c M) st"
  shows "all_supported P cs M (consider_candidate P budget q bridge attributed highest c st)"
proof (rule consider_cases [of P budget q bridge attributed highest c st])
  fix r a fitted
  assume *: "consider_candidate P budget q bridge attributed highest c st = admit P q c a fitted st"
    "cd_record c = Some r" "admissible P budget c r (ps_context st) (length (ps_packed st) + 1) fitted"
  have "c \<in> set cs" using assms by (simp add: all_supported_def)
  then show ?thesis
    using admitted_supported [OF *(3,2), of cs _ q a st] assms unfolding *(1) all_supported_def by auto
qed (use assms in \<open>simp_all add: all_supported_def\<close>)

text \<open>The text grows by one block per chunk.\<close>

lemma rendered_snoc:
  assumes "rendered ctx ks" "starts_with (''['' @ decimal (length ks + 1) @ '']'') h"
  shows "rendered (ctx @ (if ctx \<noteq> [] then [CHR 0x0A, CHR 0x0A] else []) @ h @ [CHR 0x0A] @ ck_excerpt k) (ks @ [k])"
proof -
  obtain hs where hs: "length hs = length ks" "\<forall>i < length ks. starts_with (''['' @ decimal (i + 1) @ '']'') (hs ! i)"
    "ctx = join_with [CHR 0x0A, CHR 0x0A] (map (\<lambda>(h, k). h @ [CHR 0x0A] @ ck_excerpt k) (zip hs ks))"
    using assms(1) by (auto simp: rendered_def)
  let ?blocks = "map (\<lambda>(h, k). h @ [CHR 0x0A] @ ck_excerpt k) (zip hs ks)"
  have "ctx @ (if ctx \<noteq> [] then [CHR 0x0A, CHR 0x0A] else []) @ h @ [CHR 0x0A] @ ck_excerpt k
      = join_with [CHR 0x0A, CHR 0x0A] (?blocks @ [h @ [CHR 0x0A] @ ck_excerpt k])"
    unfolding hs(3) by (rule join_with_grow) auto
  moreover have "\<forall>i < length (ks @ [k]). starts_with (''['' @ decimal (i + 1) @ '']'') ((hs @ [h]) ! i)"
    using hs(1,2) assms(2) by (auto simp: nth_append less_Suc_eq)
  ultimately show ?thesis unfolding rendered_def using hs(1) by (intro exI [of _ "hs @ [h]"]) simp
qed

lemma header_number: "starts_with (''['' @ decimal n @ '']'') (header r n include_title a)"
  unfolding header_def starts_with_iff by (intro exI) (simp only: append_assoc)

lemma step_rendered:
  assumes "rendered (ps_context st) (ps_packed st)"
  shows "rendered (ps_context (consider_candidate P budget q bridge attributed highest c st))
    (ps_packed (consider_candidate P budget q bridge attributed highest c st))"
proof (rule consider_cases [of P budget q bridge attributed highest c st])
  fix r a fitted
  assume *: "consider_candidate P budget q bridge attributed highest c st = admit P q c a fitted st"
    "admissible P budget c r (ps_context st) (length (ps_packed st) + 1) fitted"
  obtain base e truncated reason where f: "fitted = (base, e, truncated, reason)" by (cases fitted)
  then obtain include_title b where "base = ps_context st @ (if ps_context st \<noteq> [] then [CHR 0x0A, CHR 0x0A] else []) @
      header r (length (ps_packed st) + 1) include_title b @ [CHR 0x0A]"
    using *(2) by (auto simp: admissible_def)
  then show ?thesis
    unfolding *(1) f admit_def
    using rendered_snoc [OF assms header_number [of _ r include_title b],
        of "\<lparr>ck_id = cd_id c, ck_excerpt = e, ck_tokens = pk_count P e, ck_truncated = truncated, ck_reason = reason, ck_attribution = a\<rparr>"]
    by simp
qed (use assms in simp_all)


section \<open>Representatives\<close>

definition selected_ok :: "candidate list \<Rightarrow> (string \<times> candidate) list \<Rightarrow> bool" where
  "selected_ok cs selected \<longleftrightarrow>
     distinct (map fst selected) \<and> (\<forall>(i, c) \<in> set selected. cd_id c = i \<and> c \<in> set cs) \<and> length selected \<le> length cs"

lemma select_ok: "selected_ok cs selected \<Longrightarrow> selected_ok (cs @ [c]) (select selected c)"
proof -
  assume a: "selected_ok cs selected"
  have upd: "set (AList.update (cd_id c) c selected) \<subseteq> insert (cd_id c, c) (set selected)" by (induction selected) auto
  show ?thesis
  proof (cases "map_of selected (cd_id c)")
    case None
    have "select selected c = selected @ [(cd_id c, c)]" by (simp add: select_def None)
    moreover have "cd_id c \<notin> fst ` set selected" using None by (simp add: map_of_eq_None_iff)
    ultimately have "select selected c = selected @ [(cd_id c, c)]" "cd_id c \<notin> fst ` set selected" by blast+
    then show ?thesis using a by (auto simp: selected_ok_def)
  next
    case (Some old)
    have "length (AList.update (cd_id c) c selected) = length selected"
      using Some by (induction selected) (auto split: if_splits)
    moreover have "select selected c = AList.update (cd_id c) c selected \<or> select selected c = selected"
      using Some by (simp add: select_def)
    ultimately show ?thesis using a upd by (auto simp: selected_ok_def distinct_update)
  qed
qed

lemma selected: "selected_ok cs (foldl select [] cs)"
  by (induction cs rule: rev_induct) (simp_all add: select_ok, simp add: selected_ok_def)

lemma representatives_ok:
  assumes "family_representatives cs = (reps, duplicates)"
  shows "set reps \<subseteq> set cs" "distinct (map cd_id reps)" "length reps + duplicates = length cs"
proof -
  let ?s = "foldl select [] cs"
  have reps: "reps = sort_key (\<lambda>c. (- cd_score c, cd_id c)) (map snd ?s)" "duplicates = length cs - length reps"
    using assms by (auto simp: family_representatives_def Let_def)
  have ids: "map cd_id (map snd ?s) = map fst ?s" using selected [of cs] by (auto simp: selected_ok_def)
  show "set reps \<subseteq> set cs" using selected [of cs] by (auto simp: reps(1) selected_ok_def)
  have "mset (map cd_id reps) = mset (map fst ?s)" unfolding reps(1) ids [symmetric] by (simp add: multiset.map_comp)
  then show "distinct (map cd_id reps)" using selected [of cs] by (metis mset_eq_imp_distinct_iff selected_ok_def)
  show "length reps + duplicates = length cs" using selected [of cs] by (simp add: reps selected_ok_def)
qed

section \<open>Properties\<close>

lemma distinct_sub: "mset xs \<subseteq># mset ys \<Longrightarrow> distinct ys \<Longrightarrow> distinct xs"
proof -
  assume sub: "mset xs \<subseteq># mset ys" and d: "distinct ys"
  obtain zs where "mset ys = mset (xs @ zs)" using sub by (metis ex_mset mset_append subset_mset.le_iff_add)
  then show "distinct xs" using d by (metis distinct_append mset_eq_imp_distinct_iff)
qed

lemma select_and_pack_invariant:
  assumes "\<And>c M st b h. I (add_mset c M) st \<Longrightarrow> I M (consider_candidate P budget (terms query) (needs_bridge query) b h c st)"
    and "I (mset reps) (start_state duplicates)"
  shows "I {#} (select_and_pack P query budget reps duplicates)"
  unfolding select_and_pack_def Let_def
proof (rule pack_loop_invariant [where I = I])
  show "I M (consider_candidate P budget (terms query) (needs_bridge query) b h c st)" if "I (add_mset c M) st" for c M st b h
    using assms(1) that .
  show "I (mset (sort_descending key reps)) (start_state duplicates)" for key :: "candidate \<Rightarrow> 'k :: linorder"
    using assms(2) by simp
qed

lemma pack_cases:
  assumes "pack P query cs token_budget = (ctx, ks, us)"
  obtains (none) "ctx = []" "ks = []" "us = make_usage (max 0 token_budget) 0 (sum_list (map (source_tokens P) cs)) 0 (length cs)
      (if cs \<noteq> [] then [(''budget'', length cs)] else [])"
  | (some) reps duplicates st where "0 < token_budget" "family_representatives cs = (reps, duplicates)"
      "st = select_and_pack P query token_budget reps duplicates" "ctx = ps_context st" "ks = ps_packed st"
      "us = make_usage token_budget (pk_count P ctx) (sum_list (map (source_tokens P) cs)) (length ks)
         (max (length cs - length ks) duplicates) (omission_reasons (ps_omitted st))"
proof (cases "max 0 token_budget = 0 \<or> cs = []")
  case True
  then show ?thesis using assms by (intro none) (simp_all add: pack_def Let_def)
next
  case False
  obtain reps duplicates where r: "family_representatives cs = (reps, duplicates)" by (cases "family_representatives cs")
  have "max 0 token_budget = token_budget" "0 < token_budget" using False by auto
  then show ?thesis using assms False r by (intro some [of reps duplicates]) (auto simp: pack_def Let_def)
qed


text \<open>
  C35: every candidate is packed or counted under exactly one reason for leaving it out: repeated
id, budget, score tail or missing record; no id is packed twice, and every packed id is a
candidate's.
\<close>

theorem pack_accounts_candidates:
  assumes "pack P query cs token_budget = (ctx, ks, us)"
  shows "distinct (map ck_id ks) \<and> ck_id ` set ks \<subseteq> cd_id ` set cs \<and>
    length ks + us_omitted us = length cs \<and> sum_list (map snd (us_reasons us)) = us_omitted us"
  using assms
proof (cases rule: pack_cases)
  case none
  then show ?thesis by (simp add: make_usage_def Let_def)
next
  case (some reps duplicates st)
  note reps = representatives_ok [OF some(2)]
  let ?I = "\<lambda>M st. accounted reps M st \<and> om_duplicate (ps_omitted st) = duplicates"
  have dup: "om_duplicate (ps_omitted (consider_candidate P b q br am h c s)) = om_duplicate (ps_omitted s)" for b q br am h c s
    by (rule consider_cases [of P b q br am h c s]) (auto simp: omit_missing_def omit_tail_def omit_budget_def admit_def)
  have "?I {#} st"
    unfolding some(3)
  proof (rule select_and_pack_invariant [where I = ?I])
    show "?I M (consider_candidate P token_budget (terms query) (needs_bridge query) b h c s)" if "?I (add_mset c M) s" for c M s b h
      using that step_accounted by (simp add: dup)
    show "?I (mset reps) (start_state duplicates)" by (simp add: accounted_def start_state_def)
  qed
  then have acc: "accounted reps {#} st" "om_duplicate (ps_omitted st) = duplicates" by blast+
  have sub: "mset (map ck_id ks) \<subseteq># mset (map cd_id reps)" using acc(1) some(5) by (simp add: accounted_def)
  then have "distinct (map ck_id ks)" by (rule distinct_sub [OF _ reps(2)])
  moreover have "ck_id ` set ks \<subseteq> cd_id ` set cs" using set_mset_mono [OF sub] reps(1) by auto
  moreover have "length ks + (max (length cs - length ks) duplicates) = length cs"
    "sum_list (map snd (omission_reasons (ps_omitted st))) = max (length cs - length ks) duplicates"
    using acc reps(3) some(5) by (auto simp: accounted_def omission_reasons_def max_def)
  ultimately show ?thesis using some(6) by (simp add: make_usage_def Let_def)
qed


text \<open>
  C14: the packed text is the sequence of the chunks, each behind a header that starts with its
citation number; and each chunk comes from a candidate with a record and holds its stripped source,
or whole sentences of it in order, where a sentence without a qualifier appears only with every
qualifying sentence, or a summary made of sentences of the source that keeps every protected one. A
chunk that is not marked as truncated is the whole content.
\<close>

theorem packed_chunks_sound:
  assumes "pack P query cs token_budget = (ctx, ks, us)"
  shows "rendered ctx ks \<and> (\<forall>k \<in> set ks. supported P cs k)"
  using assms
proof (cases rule: pack_cases)
  case none
  then show ?thesis by (simp add: rendered_def)
next
  case (some reps duplicates st)
  let ?I = "\<lambda>M st. all_supported P reps M st \<and> rendered (ps_context st) (ps_packed st)"
  have "?I {#} st"
    unfolding some(3)
  proof (rule select_and_pack_invariant [where I = ?I])
    show "?I M (consider_candidate P token_budget (terms query) (needs_bridge query) b h c s)" if "?I (add_mset c M) s" for c M s b h
      using that step_supported step_rendered by blast
    show "?I (mset reps) (start_state duplicates)" by (simp add: all_supported_def start_state_def rendered_def)
  qed
  moreover have "supported P reps k \<Longrightarrow> supported P cs k" for k
    using representatives_ok(1) [OF some(2)] by (auto simp: supported_def)
  ultimately show ?thesis using some(4,5) by (auto simp: all_supported_def)
qed

lemma select_new: "distinct (map cd_id cs) \<Longrightarrow> foldl select [] cs = map (\<lambda>c. (cd_id c, c)) cs"
proof (induction cs rule: rev_induct)
  case (snoc c cs)
  then have "map_of (map (\<lambda>c. (cd_id c, c)) cs) (cd_id c) = None" by (auto simp: map_of_eq_None_iff)
  then show ?case using snoc by (simp add: select_def)
qed simp

lemma representatives_distinct:
  "distinct (map cd_id cs) \<Longrightarrow> family_representatives cs = (sort_key (\<lambda>c. (- cd_score c, cd_id c)) cs, 0)"
  by (simp add: family_representatives_def Let_def select_new comp_def)

text \<open>C: packing does not depend on the order of the candidates when their ids are distinct.\<close>

theorem packing_order_independent:
  assumes "distinct (map cd_id cs)" "mset ds = mset cs"
  shows "pack P query ds token_budget = pack P query cs token_budget"
proof -
  have d: "distinct (map cd_id ds)" using assms by (metis mset_eq_imp_distinct_iff mset_map)
  have inj: "inj_on (\<lambda>c. (- cd_score c, cd_id c)) (set cs)"
    using assms(1) by (auto simp: distinct_map inj_on_def)
  have "sort_key (\<lambda>c. (- cd_score c, cd_id c)) ds = sort_key (\<lambda>c. (- cd_score c, cd_id c)) cs"
    using sort_key_inj_key_eq [of ds "sort_key (\<lambda>c. (- cd_score c, cd_id c)) cs" "\<lambda>c. (- cd_score c, cd_id c)"]
      inj assms(2) mset_eq_setD [OF assms(2)] by simp
  then have "family_representatives ds = family_representatives cs"
    using assms(1) d by (simp add: representatives_distinct)
  moreover have "sum_list (map (source_tokens P) ds) = sum_list (map (source_tokens P) cs)"
    using assms(2) by (metis mset_map sum_mset_sum_list)
  moreover have "length ds = length cs" "(ds = []) = (cs = [])"
    using assms(2) by (metis size_mset, metis mset_zero_iff)
  ultimately show ?thesis by (simp only: pack_def)
qed

section \<open>A packed example\<close>

definition demo_packer :: packer where
  "demo_packer = \<lparr>pk_count = count_regex_tokens, pk_dots = ''~'', pk_gating = True, pk_ratio = 1 / 2, pk_floor = 35 / 100\<rparr>"

definition demo_memory :: memory_record where
  "demo_memory = blank_record\<lparr>mem_id := ''m'', title := ''db'', content := ''Use it. It is big! Never drop it.''\<rparr>"

definition demo_candidate :: candidate where
  "demo_candidate = \<lparr>cd_id = ''m'', cd_score = 1, cd_arm = ''semantic'', cd_record = Some demo_memory\<rparr>"

lemma demo_sentences: "sentences ''Use it. It is big! Never drop it.'' = [''Use it.'', ''It is big!'', ''Never drop it.'']"
  by code_simp

lemma demo_terms:
  "terms ''use'' = {''use''}" "terms ''Use it.'' = {''use'', ''it''}" "terms ''It is big!'' = {''it'', ''is'', ''big''}"
  "terms ''Never drop it.'' = {''never'', ''drop'', ''it''}"
  by code_simp+

lemma demo_qualifies: "\<not> qualifies ''Use it.''" "\<not> qualifies ''It is big!''" "qualifies ''Never drop it.''"
  by (simp_all add: qualifies_def demo_terms QUALIFIER_TERMS_def)

lemma demo_rank: "rank_sentences (terms ''use'') [''Use it.'', ''It is big!'', ''Never drop it.''] =
    [(0, ''Use it.''), (2, ''Never drop it.''), (1, ''It is big!'')]"
  by (simp add: rank_sentences_def demo_terms QUALIFIER_TERMS_def)

lemma demo_counts:
  "count_regex_tokens ''Never drop it. [~]'' = 7" "count_regex_tokens ''Use it. Never drop it. [~]'' = 10"
  "count_regex_tokens ''Use it. It is big! Never drop it.'' = 11" "count_regex_tokens (''[1] db'' @ [CHR 0x0A]) = 4"
  "count_regex_tokens (''[1]'' @ [CHR 0x0A]) = 3"
  "count_regex_tokens (''[1] db'' @ [CHR 0x0A] @ ''Use it. Never drop it. [~]'') = 14"
  by code_simp+

lemma demo_strip: "strip ''Use it. It is big! Never drop it.'' = ''Use it. It is big! Never drop it.''" "strip [] = []"
  by code_simp+

lemma demo_excerpt:
  "excerpt count_regex_tokens ''~'' (terms ''use'') ''Use it. It is big! Never drop it.'' [] False 10 =
     (''Use it. Never drop it. [~]'', True, ''relevant_sentence_excerpt'')"
proof -
  have "choose_sentences count_regex_tokens ''~'' 3 10 [(0, ''Use it.''), (2, ''Never drop it.''), (1, ''It is big!'')] =
      [(2, ''Never drop it.''), (0, ''Use it.'')]"
    by (simp add: choose_sentences_def demo_qualifies admit_item_def join_chosen_def marker_def demo_counts)
  then have "sentence_excerpt count_regex_tokens ''~'' ''Use it. It is big! Never drop it.'' (terms ''use'') 10 = ''Use it. Never drop it. [~]''"
    by (simp add: sentence_excerpt_def demo_sentences demo_rank join_chosen_def marker_def demo_counts numeral_3_eq_3)
  then show ?thesis by (simp add: excerpt_def demo_strip demo_counts)
qed

lemma demo_pack:
  "pack demo_packer ''use'' [demo_candidate] 14 =
     (''[1] db'' @ [CHR 0x0A] @ ''Use it. Never drop it. [~]'',
      [\<lparr>ck_id = ''m'', ck_excerpt = ''Use it. Never drop it. [~]'', ck_tokens = 10, ck_truncated = True,
        ck_reason = ''relevant_sentence_excerpt'', ck_attribution = []\<rparr>],
      make_usage 14 14 12 1 0 (omission_reasons \<lparr>om_duplicate = 0, om_budget = 0, om_tail = 0, om_missing = 0\<rparr>))"
proof -
  have "decimal 1 = ''1''" "\<not> starts_with_title ''Use it. Never drop it. [~]'' ''db''" by code_simp+
  moreover have "join_with '' '' (py_split ''db'') = ''db''" by code_simp
  ultimately have header: "header demo_memory 1 True [] = ''[1] db''" "title demo_memory = ''db''"
    and other: "\<not> starts_with_title ''Use it. Never drop it. [~]'' ''db''"
    by (simp_all add: header_def demo_memory_def blank_record_def)
  have "place demo_packer 14 (terms ''use'') demo_candidate demo_memory [] 1 [] =
      (''[1] db'' @ [CHR 0x0A], 10, ''Use it. Never drop it. [~]'', True, ''relevant_sentence_excerpt'')"
  proof -
    have "arm_excerpt demo_packer (terms ''use'') demo_candidate demo_memory 10 =
        (''Use it. Never drop it. [~]'', True, ''relevant_sentence_excerpt'')"
      using demo_excerpt by (simp add: arm_excerpt_def demo_packer_def demo_candidate_def demo_memory_def blank_record_def bridge_arm_def)
    moreover have "pk_count demo_packer (''[1] db'' @ [CHR 0x0A]) = 4"
      using demo_counts by (simp add: demo_packer_def)
    ultimately show ?thesis unfolding place_def Let_def header other by (simp add: header other)
  qed
  then have "consider_candidate demo_packer 14 (terms ''use'') b False h demo_candidate (start_state 0) =
      admit demo_packer (terms ''use'') demo_candidate []
        (''[1] db'' @ [CHR 0x0A], ''Use it. Never drop it. [~]'', True, ''relevant_sentence_excerpt'') (start_state 0)" for b h
    using demo_counts(6)
    by (simp add: consider_candidate_def demo_candidate_def start_state_def settle_def demo_packer_def)
  then have "select_and_pack demo_packer ''use'' 14 [demo_candidate] 0 =
      admit demo_packer (terms ''use'') demo_candidate []
        (''[1] db'' @ [CHR 0x0A], ''Use it. Never drop it. [~]'', True, ''relevant_sentence_excerpt'') (start_state 0)"
    by (simp add: select_and_pack_def sort_descending_def pack_loop.simps map_filter_def demo_candidate_def)
  moreover have "family_representatives [demo_candidate] = ([demo_candidate], 0)"
    by (simp add: representatives_distinct)
  moreover have "source_tokens demo_packer demo_candidate = 12"
  proof -
    have "count_regex_tokens (''db'' @ [CHR 0x0A] @ ''Use it. It is big! Never drop it.'') = 12" by code_simp
    then show ?thesis by (simp add: source_tokens_def demo_packer_def demo_candidate_def demo_memory_def blank_record_def)
  qed
  ultimately show ?thesis
    using demo_counts by (simp add: pack_def admit_def start_state_def demo_packer_def demo_candidate_def)
qed


theorem pack_accounts_candidates_witness:
  "1 + us_omitted (make_usage 14 14 12 1 0 (omission_reasons \<lparr>om_duplicate = 0, om_budget = 0, om_tail = 0, om_missing = 0\<rparr>)) = 1"
  using pack_accounts_candidates [OF demo_pack] by simp

theorem packed_chunks_sound_witness:
  "supported demo_packer [demo_candidate] \<lparr>ck_id = ''m'', ck_excerpt = ''Use it. Never drop it. [~]'', ck_tokens = 10,
     ck_truncated = True, ck_reason = ''relevant_sentence_excerpt'', ck_attribution = []\<rparr>"
  using packed_chunks_sound [OF demo_pack] by simp

theorem packing_order_independent_witness:
  "pack demo_packer ''use'' [demo_candidate\<lparr>cd_id := ''n''\<rparr>, demo_candidate] 14 =
   pack demo_packer ''use'' [demo_candidate, demo_candidate\<lparr>cd_id := ''n''\<rparr>] 14"
  by (rule packing_order_independent) (simp_all add: demo_candidate_def)

end
