(* ===== verification/ResponseText.thy ===== *)
theory ResponseText
  imports Excerpts HistoryFit
begin

text \<open>
  Fitting a free-form response into a token budget (\<^verbatim>\<open>engraphis/core/context.py\<close>,
  \<open>pack_response_text\<close>): sentence by sentence, or at a token boundary. The interface
  \<open>prefix_counter\<close> adds to \<open>token_counter\<close> that a prefix has no more tokens than the whole; for such
  counters, the shipped one among them, the result is within the budget.
\<close>

text \<open>The ends of the matches of the token pattern.\<close>

definition token_ends :: "string \<Rightarrow> nat list" where
  "token_ends s =
     map Suc (filter (\<lambda>i. if word_char (s ! i) then \<not> (i + 1 < length s \<and> word_char (s ! (i + 1)))
                          else \<not> py_space (s ! i)) [0..<length s])"

definition rstrip :: "string \<Rightarrow> string" where
  "rstrip s = rev (dropWhile py_space (rev s))"

fun build_response :: "(string \<Rightarrow> int) \<Rightarrow> string \<Rightarrow> int \<Rightarrow> string \<Rightarrow> string list \<Rightarrow> string" where
  "build_response count dots budget built [] = built"
| "build_response count dots budget built (s # rest) =
     (let proposed = (if built \<noteq> [] then strip (built @ '' '' @ s) else s);
          marked = proposed @ '' '' @ marker dots
      in if count (if rest \<noteq> [] then marked else proposed) \<le> budget then build_response count dots budget proposed rest
         else built)"

fun cut_at_token :: "(string \<Rightarrow> int) \<Rightarrow> string \<Rightarrow> int \<Rightarrow> string \<Rightarrow> nat list \<Rightarrow> nat \<Rightarrow> string \<times> int" where
  "cut_at_token count dots budget t stops 0 = ([], 0)"
| "cut_at_token count dots budget t stops (Suc limit) =
     (let e = rstrip (take (stops ! limit) t);
          marked = e @ '' '' @ marker dots;
          e = (if Suc limit < length stops \<and> count marked \<le> budget then marked else e)
      in if count e \<le> budget then (e, count e) else cut_at_token count dots budget t stops limit)"

definition pack_response_text :: "(string \<Rightarrow> int) \<Rightarrow> string \<Rightarrow> string \<Rightarrow> int \<Rightarrow> string \<times> int" where
  "pack_response_text count dots response token_budget =
     (let t = strip response
      in if t = [] \<or> token_budget \<le> 0 then ([], 0)
         else if count t \<le> token_budget then (t, count t)
         else if token_ends t = [] then ([], 0)
         else
           let ss = sentences t;
               built = (if 1 < length ss then build_response count dots token_budget [] ss else [])
           in if built \<noteq> [] then
                let marked = built @ '' '' @ marker dots;
                    built = (if count built < count t \<and> count marked \<le> token_budget then marked else built)
                in (built, count built)
              else cut_at_token count dots token_budget t (token_ends t) (min (length (token_ends t)) (nat token_budget)))"

text \<open>What a counter promises for responses: a prefix has no more tokens than the whole.\<close>

locale prefix_counter = token_counter +
  assumes prefix_count: "count s \<le> count (s @ t)"
begin

lemma build_response_fits:
  "built = [] \<or> count built \<le> budget \<Longrightarrow>
   build_response count dots budget built ss = [] \<or> count (build_response count dots budget built ss) \<le> budget"
proof (induction ss arbitrary: built)
  case (Cons s rest)
  define p where "p = (if built \<noteq> [] then strip (built @ '' '' @ s) else s)"
  show ?case
  proof (cases "count (if rest \<noteq> [] then p @ '' '' @ marker dots else p) \<le> budget")
    case True
    then have "count p \<le> budget" using prefix_count [of p "'' '' @ marker dots"] by (cases "rest = []") simp_all
    then show ?thesis using Cons.IH [of p] True by (cases "rest = []") (simp_all add: Let_def p_def [symmetric])
  next
    case False
    then show ?thesis using Cons.prems by (cases "rest = []") (simp_all add: Let_def p_def [symmetric])
  qed
qed simp

lemma response_fits:
  "count (fst (pack_response_text count dots response budget)) \<le> max 0 budget \<and>
   snd (pack_response_text count dots response budget) = count (fst (pack_response_text count dots response budget))"
proof -
  have cut: "fst (cut_at_token count dots budget t stops n) = [] \<and> snd (cut_at_token count dots budget t stops n) = 0 \<or>
      count (fst (cut_at_token count dots budget t stops n)) \<le> budget \<and>
      snd (cut_at_token count dots budget t stops n) = count (fst (cut_at_token count dots budget t stops n))" for t stops n
    by (induction n) (simp_all add: Let_def)
  then have "count (fst (cut_at_token count dots budget t stops n)) \<le> max 0 budget \<and>
      snd (cut_at_token count dots budget t stops n) = count (fst (cut_at_token count dots budget t stops n))" for t stops n
    using empty_count by (metis max.cobounded1 max.coboundedI2)
  note cut = this
  define good where "good r \<longleftrightarrow> count (fst r) \<le> max 0 budget \<and> snd r = count (fst r)" for r :: "string \<times> int"
  let ?t = "strip response" and ?ss = "sentences (strip response)"
  let ?built = "if 1 < length ?ss then build_response count dots budget [] ?ss else []"
  let ?cut = "cut_at_token count dots budget ?t (token_ends ?t) (min (length (token_ends ?t)) (nat budget))"
  have empty: "good ([], 0)" using empty_count by (simp add: good_def)
  have whole: "good (?t, count ?t)" if "count ?t \<le> budget" using that by (simp add: good_def)
  have "count ?built \<le> budget" if "?built \<noteq> []"
    using that build_response_fits [of "[]" budget dots ?ss] by (auto split: if_splits)
  then have built: "good (let marked = ?built @ '' '' @ marker dots;
        b = (if count ?built < count ?t \<and> count marked \<le> budget then marked else ?built) in (b, count b))" if "?built \<noteq> []"
    using that unfolding good_def Let_def by (simp split del: if_split) (simp add: max_def)
  have "good (pack_response_text count dots response budget)"
  proof (cases "?t = [] \<or> budget \<le> 0 \<or> count ?t \<le> budget \<or> token_ends ?t = []")
    case True
    then show ?thesis using empty whole by (auto simp: pack_response_text_def Let_def)
  next
    case False
    then have "pack_response_text count dots response budget =
        (if ?built \<noteq> [] then let marked = ?built @ '' '' @ marker dots;
           b = (if count ?built < count ?t \<and> count marked \<le> budget then marked else ?built) in (b, count b) else ?cut)"
      unfolding pack_response_text_def Let_def by (simp only: de_Morgan_disj if_False simp_thms)
    then show ?thesis using built cut by (cases "?built \<noteq> []") (simp_all only: if_True if_False good_def simp_thms)
  qed
  then show ?thesis by (simp add: good_def)
qed

end

lemma regex_tokens_append: "regex_tokens b s \<le> regex_tokens b (s @ t)"
proof (induction s arbitrary: b)
  case Nil
  have "0 \<le> regex_tokens b t" by (induction t arbitrary: b) auto
  then show ?case by simp
qed simp

interpretation regex_prefix: prefix_counter count_regex_tokens
  by unfold_locales (simp add: count_regex_tokens_def regex_tokens_append)

text \<open>C: with the shipped counter, a packed response is within the token budget, a negative budget
counting as zero, and the reported count is that of the returned text.\<close>

theorem response_within_budget:
  "count_regex_tokens (fst (pack_response_text count_regex_tokens dots response budget)) \<le> max 0 budget \<and>
   snd (pack_response_text count_regex_tokens dots response budget) =
     count_regex_tokens (fst (pack_response_text count_regex_tokens dots response budget))"
  by (rule regex_prefix.response_fits)

text \<open>F: the docstring of the function says that qualifier terms are kept when possible. Only the
leading sentences are tried: a qualifying sentence that would fit by itself is dropped behind a
first sentence that fits.\<close>

theorem response_drops_qualifier:
  "pack_response_text count_regex_tokens ''~'' ''Use it. Never drop it.'' 6 = (''Use it. [~]'', 6) \<and>
   qualifies ''Never drop it.'' \<and> count_regex_tokens ''Never drop it.'' \<le> 6"
  unfolding qualifies_def QUALIFIER_TERMS_def by code_simp

end
