(* ===== verification/Evidence.thy ===== *)
theory Evidence
  imports Regex
begin

text \<open>
  Source-bound exact values and action contracts (\<^verbatim>\<open>engraphis/core/evidence.py\<close>): making and
  checking the binding of a literal to a span of its source, and making and validating the
  contract that a proposed action copies it. Stored metadata, contracts and proposals are
  decoded JSON; SHA-256 is a field of the library record and \<open>json.loads\<close> an argument, with
  \<open>None\<close> for its errors.

  Lemmas: a made binding verifies on its source; a contract accepts exactly the authorised
  proposals that carry the literal unchanged, and only against the revision it was made for.
\<close>

section \<open>Bindings\<close>

definition EXACT_VALUE_TYPES :: "string list" where
  "EXACT_VALUE_TYPES = [''literal'', ''string'', ''identifier'', ''path'', ''number'', ''date'', ''enum'', ''json'']"

definition MAX_EXACT_VALUE_CHARS :: nat where "MAX_EXACT_VALUE_CHARS = 4096"
definition MAX_ACTION_FIELD_CHARS :: nat where "MAX_ACTION_FIELD_CHARS = 256"
definition MAX_SOURCE_ID_CHARS :: nat where "MAX_SOURCE_ID_CHARS = 512"

text \<open>\<open>s[start:end]\<close> for positions that are not negative.\<close>

definition slice :: "string \<Rightarrow> int \<Rightarrow> int \<Rightarrow> string" where
  "slice s start stop = take (nat stop - nat start) (drop (nat start) s)"

definition binding_of :: "string \<Rightarrow> string \<Rightarrow> int \<Rightarrow> int \<Rightarrow> obj" where
  "binding_of exact value_type start stop =
     [(''value'', JStr exact), (''type'', JStr value_type), (''source'', JStr ''content''),
      (''start'', JInt start), (''end'', JInt stop), (''copy_exactly'', JBool True)]"

definition make_exact_value_binding :: "string \<Rightarrow> string \<Rightarrow> string \<Rightarrow> (int \<times> int) option \<Rightarrow> obj result" where
  "make_exact_value_binding content exact value_type source_span =
     (if content = [] then Inl ValueError
      else if exact = [] then Inl ValueError
      else if length exact > MAX_EXACT_VALUE_CHARS then Inl ValueError
      else
        let normalized = casefold (strip (if value_type = [] then ''literal'' else value_type))
        in if normalized \<notin> set EXACT_VALUE_TYPES then Inl ValueError
           else case source_span of
             None \<Rightarrow>
               (case find_from exact content 0 of
                  None \<Rightarrow> Inl ValueError
                | Some start \<Rightarrow>
                    if find_from exact content (start + 1) \<noteq> None then Inl ValueError
                    else Inr (binding_of exact normalized (int start) (int start + int (length exact))))
           | Some (start, stop) \<Rightarrow>
               if start < 0 \<or> stop \<le> start \<or> stop > int (length content) \<or> slice content start stop \<noteq> exact
               then Inl ValueError
               else Inr (binding_of exact normalized start stop))"

definition binding_fields_ok :: "string \<Rightarrow> string \<Rightarrow> int \<Rightarrow> int \<Rightarrow> string option \<Rightarrow> bool" where
  "binding_fields_ok exact value_type start stop content \<longleftrightarrow>
     exact \<noteq> [] \<and> length exact \<le> MAX_EXACT_VALUE_CHARS \<and> value_type \<in> set EXACT_VALUE_TYPES \<and>
     0 \<le> start \<and> start < stop \<and> stop - start = int (length exact) \<and>
     (case content of None \<Rightarrow> True | Some s \<Rightarrow> stop \<le> int (length s) \<and> slice s start stop = exact)"

definition exact_value_binding :: "json \<Rightarrow> string option \<Rightarrow> obj option" where
  "exact_value_binding metadata content =
     (case metadata of JObj m \<Rightarrow>
        (case jget m ''exact_value'' of JObj b \<Rightarrow>
           (case (jget b ''value'', jget b ''type'', jget b ''start'', jget b ''end'') of
              (JStr exact, JStr value_type, JInt start, JInt stop) \<Rightarrow>
                if jget b ''source'' = JStr ''content'' \<and> jget b ''copy_exactly'' = JBool True \<and>
                   binding_fields_ok exact value_type start stop content
                then Some (binding_of exact value_type start stop) else None
            | _ \<Rightarrow> None)
         | _ \<Rightarrow> None)
      | _ \<Rightarrow> None)"

definition contains_text :: "string \<Rightarrow> string \<Rightarrow> bool" where
  "contains_text exact s \<longleftrightarrow> find_from exact s 0 \<noteq> None"

definition validate_exact_copy :: "json \<Rightarrow> json \<Rightarrow> bool" where
  "validate_exact_copy binding proposed =
     (case proposed of JStr p \<Rightarrow>
        (case exact_value_binding (JObj [(''exact_value'', binding)]) None of
           None \<Rightarrow> False
         | Some checked \<Rightarrow> (case jget checked ''value'' of JStr v \<Rightarrow> contains_text v p | _ \<Rightarrow> False))
      | _ \<Rightarrow> False)"

section \<open>Action contracts\<close>

fun split_on :: "char \<Rightarrow> string \<Rightarrow> string \<Rightarrow> string list" where
  "split_on d acc [] = [rev acc]"
| "split_on d acc (c # cs) = (if c = d then rev acc # split_on d [] cs else split_on d (c # acc) cs)"

definition field_parts :: "string \<Rightarrow> string list" where
  "field_parts field = split_on (CHR ''.'') [] field"

definition single_line :: "string \<Rightarrow> bool" where
  "single_line s \<longleftrightarrow> list_all (\<lambda>c. c \<noteq> CHR 0x0D \<and> c \<noteq> CHR 0x0A \<and> c \<noteq> CHR 0x00) s"

definition valid_action_field :: "string \<Rightarrow> bool" where
  "valid_action_field field \<longleftrightarrow>
     field \<noteq> [] \<and> field = strip field \<and> length field \<le> MAX_ACTION_FIELD_CHARS \<and> single_line field \<and>
     list_all (\<lambda>part. part \<noteq> [] \<and> part = strip part) (field_parts field)"

definition valid_source_id :: "string \<Rightarrow> bool" where
  "valid_source_id source_id \<longleftrightarrow>
     source_id \<noteq> [] \<and> source_id = strip source_id \<and> length source_id \<le> MAX_SOURCE_ID_CHARS \<and> single_line source_id"

definition source_digest :: "pylib \<Rightarrow> string \<Rightarrow> string option" where
  "source_digest L content = (if content = [] then None else Some (lib_sha256 L content))"

definition contract_of :: "string \<Rightarrow> string \<Rightarrow> string \<Rightarrow> obj \<Rightarrow> bool \<Rightarrow> obj" where
  "contract_of field owner digest checked authorized =
     [(''schema'', JStr ''engraphis-action-contract/v1''), (''destination_field'', JStr field),
      (''source_id'', JStr owner), (''source_sha256'', JStr digest),
      (''source_span'', JList [jget checked ''start'', jget checked ''end'']),
      (''value'', jget checked ''value''), (''value_type'', jget checked ''type''),
      (''authorized'', JBool authorized), (''copy_exactly'', JBool True)]"

definition make_action_contract :: "pylib \<Rightarrow> string \<Rightarrow> string \<Rightarrow> string \<Rightarrow> json \<Rightarrow> bool \<Rightarrow> obj result" where
  "make_action_contract L destination_field source_id source_content binding authorized =
     (let field = strip destination_field; owner = strip source_id
      in if \<not> valid_action_field field then Inl ValueError
         else if \<not> valid_source_id owner then Inl ValueError
         else case source_digest L source_content of
           None \<Rightarrow> Inl ValueError
         | Some digest \<Rightarrow>
             (case exact_value_binding (JObj [(''exact_value'', binding)]) (Some source_content) of
                None \<Rightarrow> Inl ValueError
              | Some checked \<Rightarrow> Inr (contract_of field owner digest checked authorized)))"

fun action_value :: "json \<Rightarrow> string list \<Rightarrow> json option" where
  "action_value current [] = Some current"
| "action_value current (part # parts) =
     (case current of
        JObj d \<Rightarrow> if part = [] \<or> \<not> jhas d part then None else action_value (jget d part) parts
      | _ \<Rightarrow> None)"

record verdict =
  vd_valid :: bool
  vd_authorized :: bool
  vd_literal :: bool
  vd_source :: bool
  vd_reason :: string

definition refused :: "string \<Rightarrow> verdict" where
  "refused reason = \<lparr>vd_valid = False, vd_authorized = False, vd_literal = False, vd_source = False, vd_reason = reason\<rparr>"

text \<open>The check of the proposal itself, once the contract is known to be sound.\<close>

definition check_proposal :: "(string \<Rightarrow> json option) \<Rightarrow> string \<Rightarrow> string \<Rightarrow> string \<Rightarrow> json \<Rightarrow> verdict" where
  "check_proposal loads field source_id exact proposed =
     (case (case proposed of JStr s \<Rightarrow> loads s | v \<Rightarrow> Some v) of
        Some (JObj p) \<Rightarrow>
          let present = (action_value (JObj p) (field_parts field) = Some (JStr exact));
              same_source = (\<not> jhas p ''source_id'' \<or> jget p ''source_id'' = JStr source_id)
          in \<lparr>vd_valid = same_source \<and> present, vd_authorized = True, vd_literal = present, vd_source = same_source,
              vd_reason = (if \<not> same_source then ''source_mismatch''
                           else if \<not> present then ''literal_changed_or_missing'' else ''accepted'')\<rparr>
      | _ \<Rightarrow> (refused ''invalid_proposal'')\<lparr>vd_authorized := True\<rparr>)"

text \<open>The checks of the fields of a contract, in the order of the code.\<close>

definition check_contract :: "pylib \<Rightarrow> (string \<Rightarrow> json option) \<Rightarrow> obj \<Rightarrow> string \<Rightarrow> string \<Rightarrow> string \<Rightarrow> int \<Rightarrow> int
    \<Rightarrow> json \<Rightarrow> string \<Rightarrow> bool option \<Rightarrow> verdict" where
  "check_contract L loads c field source_id exact start stop proposed source_content authorized =
     (if \<not> valid_action_field field \<or> \<not> valid_source_id source_id \<or> exact = [] then refused ''invalid_contract''
      else
        let value_type = (if jhas c ''value_type'' then jget c ''value_type'' else JStr ''literal'');
            digest = source_digest L source_content;
            checked = exact_value_binding (JObj [(''exact_value'', JObj
              [(''value'', JStr exact), (''type'', value_type), (''source'', JStr ''content''),
               (''start'', JInt start), (''end'', JInt stop), (''copy_exactly'', JBool True)])]) (Some source_content);
            allowed = (jget c ''authorized'' = JBool True \<and> authorized \<noteq> Some False)
        in if (case digest of None \<Rightarrow> True | Some d \<Rightarrow> jget c ''source_sha256'' \<noteq> JStr d) then refused ''source_revision_mismatch''
           else if checked = None \<or> jget c ''copy_exactly'' \<noteq> JBool True then refused ''unbound_literal''
           else if \<not> allowed then refused ''unauthorized''
           else check_proposal loads field source_id exact proposed)"

definition validate_action_contract :: "pylib \<Rightarrow> (string \<Rightarrow> json option) \<Rightarrow> json \<Rightarrow> json \<Rightarrow> string \<Rightarrow> bool option \<Rightarrow> verdict" where
  "validate_action_contract L loads contract proposed source_content authorized =
     (case contract of JObj c \<Rightarrow>
        if jget c ''schema'' \<noteq> JStr ''engraphis-action-contract/v1'' then refused ''invalid_contract''
        else
          (case (jget c ''destination_field'', jget c ''source_id'', jget c ''value'', jget c ''source_span'') of
             (JStr field, JStr source_id, JStr exact, JList [JInt start, JInt stop]) \<Rightarrow>
               check_contract L loads c field source_id exact start stop proposed source_content authorized
           | _ \<Rightarrow> refused ''invalid_contract'')
      | _ \<Rightarrow> refused ''invalid_contract'')"

section \<open>Lemmas\<close>

lemma jget_binding_of [simp]:
  "jget (binding_of v t a b) ''value'' = JStr v" "jget (binding_of v t a b) ''type'' = JStr t"
  "jget (binding_of v t a b) ''start'' = JInt a" "jget (binding_of v t a b) ''end'' = JInt b"
  "jget (binding_of v t a b) ''source'' = JStr ''content''" "jget (binding_of v t a b) ''copy_exactly'' = JBool True"
  by (simp_all add: binding_of_def jget_def)

lemma exact_value_binding_cases:
  assumes "exact_value_binding (JObj [(''exact_value'', binding)]) content = Some checked"
  obtains b v t a z where "binding = JObj b" "jget b ''value'' = JStr v" "jget b ''type'' = JStr t"
    "jget b ''start'' = JInt a" "jget b ''end'' = JInt z" "checked = binding_of v t a z" "binding_fields_ok v t a z content"
  using assms by (auto simp: exact_value_binding_def jget_def [of "[(''exact_value'', binding)]"] split: json.splits if_splits)

lemma exact_value_binding_made [simp]:
  "exact_value_binding (JObj [(''exact_value'', JObj (binding_of v t a z))]) content =
     (if binding_fields_ok v t a z content then Some (binding_of v t a z) else None)"
  by (simp add: exact_value_binding_def jget_def [of "[(''exact_value'', _)]"])

lemma find_span_Some:
  assumes "find_from exact s k = Some i"
  shows "k \<le> i \<and> i + length exact \<le> length s \<and> slice s (int i) (int i + int (length exact)) = exact"
proof -
  have i: "k \<le> i" "i \<le> length s" "starts_with exact (drop i s)"
    using assms by (auto simp: find_from_Some occurs_at_def)
  then have t: "take (length exact) (drop i s) = exact" by (simp add: starts_with_def)
  then have "length (take (length exact) (drop i s)) = length exact" by simp
  then have "i + length exact \<le> length s" using i(2) by simp
  moreover have "slice s (int i) (int i + int (length exact)) = take (length exact) (drop i s)"
    by (simp add: slice_def nat_add_distrib)
  ultimately show ?thesis using i(1) t by simp
qed

lemma made_binding:
  assumes "make_exact_value_binding content exact value_type source_span = Inr b"
  obtains t a z where "b = binding_of exact t a z" "binding_fields_ok exact t a z (Some content)"
proof -
  define t where "t = casefold (strip (if value_type = [] then ''literal'' else value_type))"
  have ne: "exact \<noteq> []" "length exact \<le> MAX_EXACT_VALUE_CHARS" "t \<in> set EXACT_VALUE_TYPES"
    using assms by (auto simp: make_exact_value_binding_def Let_def t_def split: if_splits)
  show ?thesis
  proof (cases source_span)
    case None
    then obtain i where i: "find_from exact content 0 = Some i" "b = binding_of exact t (int i) (int i + int (length exact))"
      using assms by (auto simp: make_exact_value_binding_def Let_def t_def split: if_splits option.splits)
    then show ?thesis using find_span_Some [OF i(1)] ne by (intro that) (auto simp: binding_fields_ok_def)
  next
    case (Some span)
    obtain a z where span: "span = (a, z)" by (cases span)
    have *: "\<not> (a < 0 \<or> z \<le> a \<or> z > int (length content) \<or> slice content a z \<noteq> exact)" "b = binding_of exact t a z"
      using assms Some span by (auto simp: make_exact_value_binding_def Let_def t_def split: if_splits)
    have "length (slice content a z) = nat z - nat a" using * by (auto simp: slice_def)
    then have "z - a = int (length exact)" using * by auto
    then show ?thesis using * ne by (intro that) (auto simp: binding_fields_ok_def)
  qed
qed

text \<open>C: a binding that was made for a content verifies against that content and is returned
unchanged, and it designates the value at its span.\<close>

theorem made_binding_verifies:
  assumes "make_exact_value_binding content exact value_type source_span = Inr b"
  shows "exact_value_binding (JObj [(''exact_value'', JObj b)]) (Some content) = Some b \<and>
    (\<exists>start stop. jget b ''start'' = JInt start \<and> jget b ''end'' = JInt stop \<and>
       slice content start stop = exact \<and> validate_exact_copy (JObj b) (JStr exact))"
proof -
  obtain t a z where b: "b = binding_of exact t a z" "binding_fields_ok exact t a z (Some content)"
    using made_binding [OF assms] by blast
  have "find_from exact exact 0 = Some 0" by (simp add: find_from_Some occurs_at_def starts_with_def)
  then have "validate_exact_copy (JObj b) (JStr exact)"
    using b(2) by (simp add: validate_exact_copy_def b(1) binding_fields_ok_def contains_text_def)
  then show ?thesis using b by (simp add: binding_fields_ok_def)
qed

theorem made_binding_verifies_witness:
  "exact_value_binding (JObj [(''exact_value'', JObj (binding_of ''42'' ''number'' 4 6))]) (Some ''is: 42'') =
     Some (binding_of ''42'' ''number'' 4 6)"
proof -
  have "make_exact_value_binding ''is: 42'' ''42'' ''number'' None = Inr (binding_of ''42'' ''number'' 4 6)" by code_simp
  from made_binding_verifies [OF this] show ?thesis by blast
qed

section \<open>Contracts\<close>

text \<open>What an accepted proposal does: it names a value for the field, and no other source.\<close>

definition copies :: "(string \<Rightarrow> json option) \<Rightarrow> string \<Rightarrow> string \<Rightarrow> string \<Rightarrow> json \<Rightarrow> bool" where
  "copies loads field source_id exact proposed \<longleftrightarrow>
     (\<exists>p. (proposed = JObj p \<or> (\<exists>s. proposed = JStr s \<and> loads s = Some (JObj p))) \<and>
        action_value (JObj p) (field_parts field) = Some (JStr exact) \<and>
        (jhas p ''source_id'' \<longrightarrow> jget p ''source_id'' = JStr source_id))"

lemma check_proposal_valid:
  "vd_valid (check_proposal loads field source_id exact proposed) \<longleftrightarrow> copies loads field source_id exact proposed"
proof (cases "case proposed of JStr s \<Rightarrow> loads s | v \<Rightarrow> Some v")
  case None
  then show ?thesis by (auto simp: check_proposal_def copies_def refused_def split: json.splits)
next
  case (Some v)
  then show ?thesis
    by (cases v; cases proposed) (auto simp: check_proposal_def copies_def refused_def Let_def)
qed

lemma refused_invalid [simp]: "\<not> vd_valid (refused reason)" "vd_reason (refused reason) = reason"
  by (simp_all add: refused_def)

lemma validate_valid:
  assumes "vd_valid (validate_action_contract L loads contract proposed src authorized)"
  obtains c field source_id exact start stop where "contract = JObj c" "jget c ''destination_field'' = JStr field"
    "jget c ''source_id'' = JStr source_id" "jget c ''value'' = JStr exact" "jget c ''source_span'' = JList [JInt start, JInt stop]"
    "vd_valid (check_contract L loads c field source_id exact start stop proposed src authorized)"
  using assms unfolding validate_action_contract_def by (auto split: json.splits list.splits if_splits)

lemma check_contract_valid:
  assumes "vd_valid (check_contract L loads c field source_id exact start stop proposed src authorized)"
  shows "exact \<noteq> [] \<and> src \<noteq> [] \<and> jget c ''source_sha256'' = JStr (lib_sha256 L src) \<and> 0 \<le> start \<and> stop \<le> int (length src) \<and>
    slice src start stop = exact \<and> jget c ''copy_exactly'' = JBool True \<and> jget c ''authorized'' = JBool True \<and> authorized \<noteq> Some False"
    and "copies loads field source_id exact proposed"
proof -
  let ?b = "\<lambda>t. [(''value'', JStr exact), (''type'', t), (''source'', JStr ''content''), (''start'', JInt start),
    (''end'', JInt stop), (''copy_exactly'', JBool True)]"
  obtain t checked where checked: "exact_value_binding (JObj [(''exact_value'', JObj (?b t))]) (Some src) = Some checked"
    and rest: "exact \<noteq> []" "source_digest L src = Some (lib_sha256 L src)" "jget c ''source_sha256'' = JStr (lib_sha256 L src)"
      "jget c ''copy_exactly'' = JBool True" "jget c ''authorized'' = JBool True" "authorized \<noteq> Some False"
      "copies loads field source_id exact proposed"
    using assms unfolding check_contract_def Let_def
    by (auto simp: source_digest_def check_proposal_valid split: if_splits)
  then have "0 \<le> start" "stop \<le> int (length src)" "slice src start stop = exact"
    by (auto elim!: exact_value_binding_cases simp: jget_def binding_fields_ok_def)
  then show "exact \<noteq> [] \<and> src \<noteq> [] \<and> jget c ''source_sha256'' = JStr (lib_sha256 L src) \<and> 0 \<le> start \<and> stop \<le> int (length src) \<and>
    slice src start stop = exact \<and> jget c ''copy_exactly'' = JBool True \<and> jget c ''authorized'' = JBool True \<and> authorized \<noteq> Some False"
    using rest by (simp add: source_digest_def split: if_splits)
  show "copies loads field source_id exact proposed" by (rule rest(7))
qed

definition contract_holds :: "pylib \<Rightarrow> obj \<Rightarrow> string \<Rightarrow> string \<Rightarrow> string \<Rightarrow> string \<Rightarrow> bool option \<Rightarrow> bool" where
  "contract_holds L c field source_id exact src authorized \<longleftrightarrow>
     jget c ''destination_field'' = JStr field \<and> jget c ''source_id'' = JStr source_id \<and> jget c ''value'' = JStr exact \<and>
     exact \<noteq> [] \<and> src \<noteq> [] \<and> jget c ''source_sha256'' = JStr (lib_sha256 L src) \<and>
     (\<exists>start stop. jget c ''source_span'' = JList [JInt start, JInt stop] \<and> 0 \<le> start \<and> stop \<le> int (length src) \<and>
        slice src start stop = exact) \<and>
     jget c ''copy_exactly'' = JBool True \<and> jget c ''authorized'' = JBool True \<and> authorized \<noteq> Some False"

text \<open>
  C15: a validated proposal is one that the host authorised, under a contract whose digest is that
of the source as loaded now and whose value stands at its span in that source, and it carries
exactly this value at the destination field and names no other source.
\<close>

theorem accepted_proposals_copy:
  assumes "vd_valid (validate_action_contract L loads contract proposed src authorized)"
  shows "\<exists>c field source_id exact. contract = JObj c \<and> contract_holds L c field source_id exact src authorized \<and>
    copies loads field source_id exact proposed"
proof -
  obtain c field source_id exact start stop where c: "contract = JObj c" "jget c ''destination_field'' = JStr field"
    "jget c ''source_id'' = JStr source_id" "jget c ''value'' = JStr exact" "jget c ''source_span'' = JList [JInt start, JInt stop]"
    and v: "vd_valid (check_contract L loads c field source_id exact start stop proposed src authorized)"
    using assms by (rule validate_valid)
  then have "contract_holds L c field source_id exact src authorized"
    using check_contract_valid(1) [OF v] by (auto simp: contract_holds_def)
  then show ?thesis using c(1) check_contract_valid(2) [OF v] by blast
qed

theorem accepted_proposals_copy_witness:
  "\<exists>c field source_id exact. JObj (contract_of ''answer'' ''mem_1'' ''is: 42'' (binding_of ''42'' ''number'' 4 6) True) = JObj c \<and>
     contract_holds content_lib c field source_id exact ''is: 42'' None \<and>
     copies (\<lambda>_. None) field source_id exact (JObj [(''answer'', JStr ''42'')])"
proof (rule accepted_proposals_copy)
  show "vd_valid (validate_action_contract content_lib (\<lambda>_. None)
    (JObj (contract_of ''answer'' ''mem_1'' ''is: 42'' (binding_of ''42'' ''number'' 4 6) True))
    (JObj [(''answer'', JStr ''42'')]) ''is: 42'' None)"
    by code_simp
qed

text \<open>
  C39: a contract that was made from a source accepts a proposal against this source exactly when it
was made as authorised, the host does not refuse, and the proposal copies the value; and a source
with another digest is refused as another revision.
\<close>

theorem made_contract_exact:
  assumes "make_action_contract L destination_field source_id src binding allowed = Inr c"
    and "jget c ''value'' = JStr exact"
  shows "(vd_valid (validate_action_contract L loads (JObj c) proposed src authorized) \<longleftrightarrow>
      allowed \<and> authorized \<noteq> Some False \<and> copies loads (strip destination_field) (strip source_id) exact proposed) \<and>
    (lib_sha256 L src' \<noteq> lib_sha256 L src \<longrightarrow>
      vd_reason (validate_action_contract L loads (JObj c) proposed src' authorized) = ''source_revision_mismatch'')"
proof -
  obtain checked where ok: "valid_action_field (strip destination_field)" "valid_source_id (strip source_id)" "src \<noteq> []"
    and checked: "exact_value_binding (JObj [(''exact_value'', binding)]) (Some src) = Some checked"
    and c: "c = contract_of (strip destination_field) (strip source_id) (lib_sha256 L src) checked allowed"
    using assms(1) by (auto simp: make_action_contract_def Let_def source_digest_def split: if_splits option.splits)
  obtain v t a z where b: "checked = binding_of v t a z" "binding_fields_ok v t a z (Some src)"
    using checked by (rule exact_value_binding_cases)
  have fields: "jget c ''schema'' = JStr ''engraphis-action-contract/v1''" "jget c ''destination_field'' = JStr (strip destination_field)"
    "jget c ''source_id'' = JStr (strip source_id)" "jget c ''value'' = JStr v" "jget c ''source_span'' = JList [JInt a, JInt z]"
    "jhas c ''value_type''" "jget c ''value_type'' = JStr t" "jget c ''source_sha256'' = JStr (lib_sha256 L src)"
    "jget c ''copy_exactly'' = JBool True" "jget c ''authorized'' = JBool allowed"
    unfolding c b(1) contract_of_def by (simp_all add: jget_def [of "(_, _) # _"] jhas_def)
  have "v = exact" "exact \<noteq> []" using fields(4) assms(2) b(2) by (simp_all add: binding_fields_ok_def)
  then have "vd_valid (validate_action_contract L loads (JObj c) proposed src authorized) \<longleftrightarrow>
      allowed \<and> authorized \<noteq> Some False \<and> copies loads (strip destination_field) (strip source_id) exact proposed"
    using ok b(2) exact_value_binding_made [of exact t a z "Some src"]
    by (simp add: validate_action_contract_def fields check_contract_def source_digest_def binding_of_def check_proposal_valid)
  moreover have "vd_reason (validate_action_contract L loads (JObj c) proposed src' authorized) = ''source_revision_mismatch''"
    if "lib_sha256 L src' \<noteq> lib_sha256 L src"
    using that ok \<open>v = exact\<close> \<open>exact \<noteq> []\<close>
    by (simp add: validate_action_contract_def fields check_contract_def source_digest_def)
  ultimately show ?thesis by blast
qed

theorem made_contract_exact_witness:
  "vd_valid (validate_action_contract content_lib (\<lambda>_. None)
     (JObj (contract_of ''answer'' ''mem_1'' ''is: 42'' (binding_of ''42'' ''number'' 4 6) True)) (JObj []) ''is: 42'' None) \<longleftrightarrow>
   copies (\<lambda>_. None) (strip '' answer'') (strip ''mem_1'') ''42'' (JObj [])"
proof -
  have "make_action_contract content_lib '' answer'' ''mem_1'' ''is: 42'' (JObj (binding_of ''42'' ''number'' 4 6)) True =
      Inr (contract_of ''answer'' ''mem_1'' ''is: 42'' (binding_of ''42'' ''number'' 4 6) True)"
    by code_simp
  moreover have "jget (contract_of ''answer'' ''mem_1'' ''is: 42'' (binding_of ''42'' ''number'' 4 6) True) ''value'' = JStr ''42''"
    by code_simp
  ultimately show ?thesis
    using made_contract_exact [of content_lib "'' answer''" "''mem_1''" "''is: 42''" _ True _ "''42''"] by blast
qed

end
