(* ===== verification/Spec2Isabelle.thy ===== *)
theory Spec2Isabelle
  imports SyncParse SyncRound Secrets Poisoning HistoryFit GraphRank ContextPack ResponseText Evidence
begin

text \<open>
  Engraphis: verification development.

  Engraphis is a local memory service for programming agents: a SQLite store of memory rows with
  validity intervals and trust envelopes, detectors for secrets and for instructions hidden in a
  payload, retention scores, recall with a graph walk and a packer that fills a prompt within a
  token budget, and a peer-to-peer synchronisation of stores through files in a shared folder. The
  development models the parts under \<^verbatim>\<open>engraphis/core\<close> whose results the rest of the system relies
  on: what is stored, what may be shown to a model, and what a bundle from an untrusted peer may
  do to a store.

  The parts and how they interact. A memory row is built by the engine, is checked by the
  detectors and gets a trust envelope, and is written by the store under a modification clock. Reads
  go through one visibility filter. The sync engine exports the shareable rows of a workspace as
  a snapshot with a generation, and applies the snapshots of other devices: it validates every
  row, gives it a new home with a pending review state, merges concurrent edits, applies deletion
  markers and links, and keeps a checkpoint against replay. Recall ranks rows, walks the graph
  from its seeds, and hands candidates to the packer, whose chunks carry exact values that an
  action contract binds to their source.

  Theories and the code they model (all paths below \<^verbatim>\<open>engraphis/\<close>):

  \<^item> \<open>Prelude\<close>, \<open>PyValue\<close>, \<open>Regex\<close>: errors as values, Python values at the trust boundary, the standard
    library as a record argument, the part of regular expressions the code uses.
  \<^item> \<open>Ids\<close> (\<^verbatim>\<open>core/ids.py\<close>), \<open>Hlc\<close> and \<open>Records\<close> (\<^verbatim>\<open>core/interfaces.py\<close>), \<open>TextUtil\<close> (\<^verbatim>\<open>core/textutil.py\<close>),
    \<open>Scoring\<close> (\<^verbatim>\<open>core/scoring.py\<close>, \<^verbatim>\<open>core/retention_policy.py\<close>), \<open>GraphLayers\<close> (\<^verbatim>\<open>core/graph_layers.py\<close>,
    \<^verbatim>\<open>core/graph_policy.py\<close> and the layer helpers of \<^verbatim>\<open>core/recall.py\<close>): identifiers, clocks, the memory
    record and its closure observations, scores and layers.
  \<^item> \<open>Trust\<close>, \<open>Poisoning\<close> (\<^verbatim>\<open>core/poisoning.py\<close>, with the envelope merge of \<^verbatim>\<open>core/store.py\<close>), \<open>Secrets\<close>
    (\<^verbatim>\<open>core/secrets.py\<close>): which rows may reach a prompt, and the detectors.
  \<^item> \<open>StoreRows\<close>, \<open>StoreSteps\<close>, \<open>MemLinks\<close>, \<open>Erasure\<close>, \<open>Visibility\<close> (\<^verbatim>\<open>core/store.py\<close>): the store as a
    record of tables; insert or update, closing, pins and reinforcement; links and their ownership;
    secure erasure with its lineage and deletion markers; the two read filters and the listings.
  \<^item> \<open>SyncMerge\<close>, \<open>SyncConvergence\<close>, \<open>SyncParse\<close>, \<open>SyncApply\<close>, \<open>SyncEffect\<close>, \<open>SyncTombs\<close>, \<open>SyncLinks\<close>,
    \<open>SyncFreshness\<close>, \<open>SyncFrame\<close>, \<open>SyncBundle\<close>, \<open>SyncExport\<close>, \<open>SyncRound\<close> (\<^verbatim>\<open>core/sync.py\<close>): from the merge of
    two rows to a whole round over an arbitrary transport.
  \<^item> \<open>GraphRank\<close> (\<^verbatim>\<open>core/graphrank.py\<close>), \<open>HistoryFit\<close> (\<^verbatim>\<open>core/adaptive_context.py\<close>), \<open>Excerpts\<close>,
    \<open>ContextPack\<close>, \<open>ResponseText\<close> (\<^verbatim>\<open>core/context.py\<close>), \<open>Evidence\<close> (\<^verbatim>\<open>core/evidence.py\<close>): the graph walk, what
    goes into a prompt, and action contracts.

  State and operations. A table is an association list or a list of records in table order; an
  operation takes the store and returns it changed, with an error value where the code raises.
  Sequences of operations are lists of steps. Rollback is the return of the store before the
  operation. What the operations read from outside is an argument: the clock (one reading per
  operation), identifiers that are minted (fresh and apart from each other, as hypotheses),
  SHA-256 and JSON rendering (opaque functions of the library record), the transport of a round, the
  token counter of a packer.

  What the lemmas show:

  \<^item> Convergence: the merge of rows is idempotent and commutative up to the local envelope, and
    replicas that exchange the same edits in any order agree on the synced fields.
  \<^item> Confinement: a row, a deletion marker, a link, a bundle and a whole round change only rows of
    their workspace that are not protected, never grant trust, keep validity history, respect deletion
    markers and leave the protected fields of the store as they were.
  \<^item> Disclosure: an exported snapshot does not depend on secret rows, on session or user rows, or on
    other workspaces; it is admitted by a peer; and a push is always newer than what was admitted.
  \<^item> Replay: an admitted snapshot is never followed by an older one or by another one of the same
    generation; a dry run changes nothing.
  \<^item> The store: well-formedness is an invariant of every operation; erasure removes all that is
    derived from the erased lineage, which the loop computes exactly; the two filters agree.
  \<^item> Prompt: only approved, visible rows are eligible; packed chunks consist of whole sentences of
    their sources with the qualifying ones, every candidate is accounted for, and the budget holds for
    any token counter; history fitting returns the longest suffix that fits.
  \<^item> Ranking: the graph walk returns a distribution over the nodes reachable from the seeds, with a
    bound on what further iterations would change.
  \<^item> Contracts: an accepted proposal copies a value that stands at its span in the present revision.

  Interfaces. \<open>digit_codec\<close> (fixed-width encodings: identifiers, clocks), \<open>convergent_merge\<close> (a join that
  is associative, commutative and idempotent: pins, closures, layers, lattices, link metadata),
  \<open>entry_writes\<close>, \<open>row_writes\<close>, \<open>marker_writes\<close>, \<open>link_writes\<close> and \<open>pass_writes\<close> (a relation between stores
  that each pass of a bundle keeps), \<open>token_counter\<close> and \<open>prefix_counter\<close> (what budget fitting asks of a
  counter). Each is interpreted on the definitions of the model.

  Bounds and fuel. There is no fuel: loops are structural or have a termination proof (the lineage
  loop of an erase by the rows that are left, the selection loop of the packer by the candidates,
  the search in the history by the interval). Limits of the code (row, marker, link and text sizes, graph
  sizes, iteration counts) are constants with its values. Identifiers are words of their width with
  the wrap-around of the code; other integers are unbounded, as in Python.

  Idealisations. Strings are lists of characters up to code point 255. Finite floats are reals, so
  rounding is not modelled. Ties of an SQL ordering are in table order. The sync engine has no
  embedder and no vector index, and SQLite transactions are atomic.

  Not modelled: the engine, recall beyond the walk and the packing, consolidation, resolution and
  user models (heuristics over embeddings and language-model output); full-text and vector search,
  entity tables and migrations of the store; document, specification and vault import; the
  evidence fields of a packed chunk and the coverage mode of the packer; graph scenes; the
  service, MCP and HTTP layers; hosted features. They compose the modelled parts or depend on
  models, file formats, networks and frameworks that are not part of the repository.
\<close>

end
